(* ===== verification/Prelude.thy ===== *)
theory Prelude
  imports Main "HOL-Library.AList" "HOL-Library.Word" "HOL-Library.Multiset"
begin

section \<open>The parts of Go and its standard library that the code uses\<close>

text \<open>
  Shared by every component: byte strings, signed 64-bit arithmetic, the ASCII part of
  \<open>strings\<close>, \<open>strconv.ParseInt\<close>/\<open>FormatInt\<close>, \<open>time.Time\<close> and
  \<open>time.Duration\<close>, and Go maps.

  \<^item> Go's \<open>string\<close> and \<open>[]byte\<close> are both \<open>bytes\<close>, a list of 8-bit
    characters; \<open>len\<close> counts bytes, as in Go.
  \<^item> Go's \<open>int\<close> and \<open>int64\<close> are HOL's \<open>int\<close>, with \<open>i64\<close>
    written wherever the code's arithmetic can leave the 64-bit range.
  \<^item> A Go map with string keys is an association list with distinct keys. A \<open>range\<close>
    loop over it visits the keys in an order the runtime chooses; \<open>go_range\<close> takes that
    order as a parameter.
  \<^item> A point in time is the number of nanoseconds since the Unix epoch; \<open>zero_time\<close>
    is the zero \<open>time.Time\<close> (1 January of year 1), which the code reads as "no
    expiration". One clock is modelled: steps of the wall clock against the monotonic
    clock are not.
\<close>

named_theorems go_eval \<open>rewrite rules that evaluate the runtime on closed terms\<close>

subsection \<open>Bytes and 64-bit integers\<close>

type_synonym bytes = string
type_synonym time = int      \<comment> \<open>nanoseconds since the Unix epoch\<close>
type_synonym duration = int  \<comment> \<open>nanoseconds, in the range of an \<open>int64\<close>\<close>

definition in_i64 :: "int \<Rightarrow> bool" where
  "in_i64 x \<longleftrightarrow> -9223372036854775808 \<le> x \<and> x \<le> 9223372036854775807"

definition i64 :: "int \<Rightarrow> int" where
  "i64 x = (x + 9223372036854775808) mod 18446744073709551616 - 9223372036854775808"

abbreviation max_int64 :: int where "max_int64 \<equiv> 9223372036854775807"
abbreviation min_int64 :: int where "min_int64 \<equiv> -9223372036854775808"

lemma i64_id [simp]: "in_i64 x \<Longrightarrow> i64 x = x"
  by (simp add: i64_def in_i64_def)

lemma in_i64_i64 [simp, intro]: "in_i64 (i64 x)"
proof -
  let ?m = "(x + 9223372036854775808) mod 18446744073709551616"
  have "0 \<le> ?m" and "?m < 18446744073709551616" by simp_all
  then show ?thesis unfolding in_i64_def i64_def by linarith
qed

lemma i64_i64 [simp]: "i64 (i64 x) = i64 x"
  by simp

lemma in_i64_0 [simp]: "in_i64 0"
  by (simp add: in_i64_def)

lemma i64_cong: "x mod 18446744073709551616 = y mod 18446744073709551616 \<Longrightarrow> i64 x = i64 y"
  unfolding i64_def by (simp add: mod_add_cong)

text \<open>Go's integer division truncates towards zero.\<close>

definition go_div :: "int \<Rightarrow> int \<Rightarrow> int" where
  "go_div a b = sgn a * sgn b * (\<bar>a\<bar> div \<bar>b\<bar>)"

lemma char_of_numeral_nat [simp, go_eval]:
  "char_of (numeral n :: nat) =
     Char (odd (numeral n :: nat)) (odd (numeral n div 2 :: nat)) (odd (numeral n div 4 :: nat))
       (odd (numeral n div 8 :: nat)) (odd (numeral n div 16 :: nat))
       (odd (numeral n div 32 :: nat)) (odd (numeral n div 64 :: nat))
       (odd (numeral n div 128 :: nat))"
  by (simp add: char_of_def bit_iff_odd)

abbreviation byte_val :: "char \<Rightarrow> nat" where
  "byte_val c \<equiv> of_char c"

lemma byte_val_less [simp]: "byte_val c < 256"
  by (cases c) (simp add: of_char_Char split: bool.split)

lemma char_of_byte_val: "byte_val c = n \<Longrightarrow> c = char_of n"
  by auto

subsection \<open>ASCII case mapping\<close>

definition ascii_upper :: "char \<Rightarrow> char" where
  "ascii_upper c =
     (let n = byte_val c in if 97 \<le> n \<and> n \<le> 122 then char_of (n - 32) else c)"

definition ascii_lower :: "char \<Rightarrow> char" where
  "ascii_lower c =
     (let n = byte_val c in if 65 \<le> n \<and> n \<le> 90 then char_of (n + 32) else c)"

definition is_ascii :: "bytes \<Rightarrow> bool" where
  "is_ascii s \<longleftrightarrow> (\<forall>c \<in> set s. byte_val c < 128)"

text \<open>
  \<open>strings.ToUpper\<close> has an ASCII path and a path through the Unicode tables; the tables
  (\<open>uc\<close>) are a parameter, used only when the string has a byte above 127. The same holds
  for \<open>strings.ToLower\<close>.
\<close>

definition to_upper :: "(bytes \<Rightarrow> bytes) \<Rightarrow> bytes \<Rightarrow> bytes" where
  "to_upper uc s = (if is_ascii s then map ascii_upper s else uc s)"

definition to_lower :: "(bytes \<Rightarrow> bytes) \<Rightarrow> bytes \<Rightarrow> bytes" where
  "to_lower lc s = (if is_ascii s then map ascii_lower s else lc s)"

text \<open>
  \<open>strings.EqualFold(s, t)\<close> for an ASCII literal \<open>t\<close>: besides the ASCII letters,
  simple folding identifies U+017F with \<open>s\<close> and U+212A with \<open>k\<close>.
\<close>

fun fold_simple :: "bytes \<Rightarrow> bytes" where
  "fold_simple (a # b # c # s) =
     (if a = CHR 0xC5 \<and> b = CHR 0xBF then CHR ''s'' # fold_simple (c # s)
      else if a = CHR 0xE2 \<and> b = CHR 0x84 \<and> c = CHR 0xAA then CHR ''k'' # fold_simple s
      else ascii_lower a # fold_simple (b # c # s))"
| "fold_simple [a, b] =
     (if a = CHR 0xC5 \<and> b = CHR 0xBF then ''s'' else [ascii_lower a, ascii_lower b])"
| "fold_simple [a] = [ascii_lower a]"
| "fold_simple [] = []"

definition equal_fold :: "bytes \<Rightarrow> bytes \<Rightarrow> bool" where
  "equal_fold s t \<longleftrightarrow> fold_simple s = map ascii_lower t"

lemma ascii_upper_ascii: "byte_val c < 128 \<Longrightarrow> byte_val (ascii_upper c) < 128"
  by (auto simp: ascii_upper_def Let_def)

lemma ascii_upper_idem [simp]: "ascii_upper (ascii_upper c) = ascii_upper c"
  by (auto simp: ascii_upper_def Let_def)

lemma to_upper_idem: "is_ascii s \<Longrightarrow> to_upper uc (to_upper uc s) = to_upper uc s"
  by (auto simp: to_upper_def is_ascii_def ascii_upper_ascii)

lemmas case_eval [go_eval] =
  ascii_upper_def ascii_lower_def is_ascii_def to_upper_def to_lower_def equal_fold_def

subsection \<open>Decimal integers\<close>

definition is_digit :: "char \<Rightarrow> bool" where
  "is_digit c \<longleftrightarrow> 48 \<le> byte_val c \<and> byte_val c \<le> 57"

fun digits_value :: "int \<Rightarrow> bytes \<Rightarrow> int option" where
  "digits_value acc [] = Some acc"
| "digits_value acc (c # cs) =
     (if is_digit c then digits_value (10 * acc + (int (byte_val c) - 48)) cs else None)"

text \<open>
  \<open>strconv.ParseInt(s, 10, 64)\<close> and, on a 64-bit platform, \<open>strconv.Atoi(s)\<close>:
  an optional sign, at least one digit, nothing else, and a value in the range of an
  \<open>int64\<close>; \<open>None\<close> is an error.
\<close>

definition parse_int :: "bytes \<Rightarrow> int option" where
  "parse_int s =
     (let (neg, ds) =
        (case s of [] \<Rightarrow> (False, [])
         | c # cs \<Rightarrow>
             if c = CHR ''-'' then (True, cs) else if c = CHR ''+'' then (False, cs) else (False, s))
      in if ds = [] then None
         else (case digits_value 0 ds of
                 None \<Rightarrow> None
               | Some n \<Rightarrow> let v = (if neg then - n else n) in if in_i64 v then Some v else None))"

fun dec_digits :: "nat \<Rightarrow> bytes" where
  "dec_digits n =
     (if n < 10 then [char_of (48 + n)] else dec_digits (n div 10) @ [char_of (48 + n mod 10)])"

declare dec_digits.simps [simp del, go_eval]

text \<open>\<open>strconv.FormatInt(n, 10)\<close> and the verb \<open>%d\<close>.\<close>

definition format_int :: "int \<Rightarrow> bytes" where
  "format_int n = (if n < 0 then CHR ''-'' # dec_digits (nat (- n)) else dec_digits (nat n))"

lemma digits_value_append:
  "digits_value acc (xs @ ys) =
     (case digits_value acc xs of None \<Rightarrow> None | Some v \<Rightarrow> digits_value v ys)"
  by (induction acc xs rule: digits_value.induct) auto

lemma byte_val_digit: "(n :: nat) < 10 \<Longrightarrow> byte_val (char_of (48 + n)) = 48 + n"
  by simp

lemma is_digit_char: "(n :: nat) < 10 \<Longrightarrow> is_digit (char_of (48 + n))"
  by (simp add: is_digit_def)

lemma dec_digits_nonempty [simp]: "dec_digits n \<noteq> []"
  by (subst dec_digits.simps) simp

lemma dec_digits_all_digits: "\<forall>c \<in> set (dec_digits n). is_digit c"
proof (induction n rule: dec_digits.induct)
  case (1 n)
  then show ?case
    by (subst dec_digits.simps) (auto simp: is_digit_char split: if_splits)
qed

lemma digits_value_dec_digits: "digits_value 0 (dec_digits n) = Some (int n)"
proof (induction n rule: dec_digits.induct)
  case (1 n)
  show ?case
  proof (cases "n < 10")
    case True
    then show ?thesis
      by (subst dec_digits.simps) (simp add: is_digit_char)
  next
    case False
    have "n mod 10 < 10" by simp
    moreover have "10 * (int n div 10) + int n mod 10 = int n" by simp
    ultimately show ?thesis
      using 1 False
      by (subst dec_digits.simps)
         (simp add: digits_value_append is_digit_char of_nat_mod of_nat_div)
  qed
qed

lemma digit_not_sign:
  "is_digit c \<Longrightarrow> c \<noteq> CHR ''-'' \<and> c \<noteq> CHR ''+'' \<and> c \<noteq> CHR 0x0D \<and> c \<noteq> CHR 0x0A"
  by (auto simp: is_digit_def)

lemma hd_dec_digits: "dec_digits n = c # cs \<Longrightarrow> is_digit c"
  using dec_digits_all_digits [of n] by simp

text \<open>Printing an \<open>int64\<close> and parsing it again gives it back.\<close>

lemma parse_int_format_int [simp]:
  assumes "in_i64 n"
  shows "parse_int (format_int n) = Some n"
proof (cases "n < 0")
  case True
  then show ?thesis
    using assms by (simp add: parse_int_def format_int_def digits_value_dec_digits)
next
  case False
  obtain c cs where d: "dec_digits (nat n) = c # cs"
    by (metis dec_digits_nonempty neq_Nil_conv)
  then have "c \<noteq> CHR ''-''" "c \<noteq> CHR ''+''"
    using hd_dec_digits digit_not_sign by blast+
  moreover have "digits_value 0 (c # cs) = Some n"
    using digits_value_dec_digits [of "nat n"] False d by simp
  ultimately show ?thesis
    using assms False d by (simp add: parse_int_def format_int_def del: digits_value.simps)
qed

lemma parse_int_range: "parse_int s = Some n \<Longrightarrow> in_i64 n"
  by (auto simp: parse_int_def Let_def split: if_splits option.splits list.splits prod.splits)

lemma format_int_no_crlf:
  "c \<in> set (format_int n) \<Longrightarrow> c \<noteq> CHR 0x0D \<and> c \<noteq> CHR 0x0A"
  using dec_digits_all_digits digit_not_sign
  by (auto simp: format_int_def split: if_splits)

lemma format_int_nonempty [simp]: "format_int n \<noteq> []"
  by (simp add: format_int_def)

subsection \<open>Time\<close>

definition zero_time :: time where
  "zero_time = -62135596800000000000"

definition is_zero :: "time \<Rightarrow> bool" where
  "is_zero t \<longleftrightarrow> t = zero_time"

text \<open>
  \<open>time.Unix(sec, 0)\<close> adds the offset of year 1 in 64 bits, so seconds close to the top of
  the range wrap around; \<open>time.UnixMilli\<close> divides first and cannot.
\<close>

definition time_unix :: "int \<Rightarrow> time" where
  "time_unix sec = (i64 (sec + 62135596800) - 62135596800) * 1000000000"

definition time_unix_milli :: "int \<Rightarrow> time" where
  "time_unix_milli ms = ms * 1000000"

definition unix_milli :: "time \<Rightarrow> int" where
  "unix_milli t = i64 (t div 1000000)"

definition unix_nano :: "time \<Rightarrow> int" where
  "unix_nano t = i64 t"

definition unix_seconds :: "time \<Rightarrow> int" where
  "unix_seconds t = i64 (t div 1000000000)"

definition time_add :: "time \<Rightarrow> duration \<Rightarrow> time" where
  "time_add t d = t + d"

text \<open>\<open>t.Sub(u)\<close> saturates at the ends of the range of a \<open>Duration\<close>.\<close>

definition time_sub :: "time \<Rightarrow> time \<Rightarrow> duration" where
  "time_sub t u =
     (if t - u > max_int64 then max_int64 else if t - u < min_int64 then min_int64 else t - u)"

text \<open>\<open>time.Duration(n) * time.Second\<close> and \<open>\<dots> * time.Millisecond\<close> wrap around.\<close>

definition seconds :: "int \<Rightarrow> duration" where
  "seconds n = i64 (n * 1000000000)"

definition milliseconds :: "int \<Rightarrow> duration" where
  "milliseconds n = i64 (n * 1000000)"

lemmas time_eval [go_eval] =
  zero_time_def is_zero_def time_unix_def time_unix_milli_def unix_milli_def unix_nano_def
  unix_seconds_def time_add_def time_sub_def seconds_def milliseconds_def i64_def

lemma is_zero_zero_time [simp]: "is_zero zero_time"
  by (simp add: is_zero_def)

lemma unix_milli_time_unix_milli [simp]: "in_i64 ms \<Longrightarrow> unix_milli (time_unix_milli ms) = ms"
  by (simp add: unix_milli_def time_unix_milli_def)

lemma seconds_exact: "\<bar>n\<bar> \<le> 9223372036 \<Longrightarrow> seconds n = n * 1000000000"
  unfolding seconds_def by (rule i64_id) (auto simp: in_i64_def)

subsection \<open>Go maps\<close>

type_synonym 'v gomap = "(bytes \<times> 'v) list"

abbreviation keys :: "('k \<times> 'v) list \<Rightarrow> 'k list" where
  "keys m \<equiv> map fst m"

abbreviation wf_map :: "('k \<times> 'v) list \<Rightarrow> bool" where
  "wf_map m \<equiv> distinct (keys m)"

definition go_range :: "(bytes list \<Rightarrow> bytes list) \<Rightarrow> 'v gomap \<Rightarrow> 'v gomap" where
  "go_range ord m = map (\<lambda>k. (k, the (map_of m k))) (ord (keys m))"

definition valid_order :: "(bytes list \<Rightarrow> bytes list) \<Rightarrow> bool" where
  "valid_order ord \<longleftrightarrow> (\<forall>ks. mset (ord ks) = mset ks)"

lemma valid_order_id [simp, intro]: "valid_order (\<lambda>ks. ks)"
  by (simp add: valid_order_def)

lemma set_valid_order: "valid_order ord \<Longrightarrow> set (ord ks) = set ks"
  unfolding valid_order_def by (metis set_mset_mset)

lemma length_valid_order: "valid_order ord \<Longrightarrow> length (ord ks) = length ks"
  unfolding valid_order_def by (metis size_mset)

lemma distinct_valid_order: "valid_order ord \<Longrightarrow> distinct (ord ks) = distinct ks"
  unfolding valid_order_def by (metis mset_eq_imp_distinct_iff)

lemma keys_go_range [simp]: "keys (go_range ord m) = ord (keys m)"
  by (simp add: go_range_def comp_def)

lemma map_the_keys: "wf_map m \<Longrightarrow> map (\<lambda>k. (k, the (map_of m k))) (keys m) = m"
  by (auto simp: map_of_is_SomeI intro!: map_idI)

lemma mset_go_range [simp]:
  assumes "wf_map m" and "valid_order ord"
  shows "mset (go_range ord m) = mset m"
proof -
  have "mset (go_range ord m) = image_mset (\<lambda>k. (k, the (map_of m k))) (mset (keys m))"
    using assms(2) unfolding go_range_def valid_order_def by (simp only: mset_map)
  also have "\<dots> = mset (map (\<lambda>k. (k, the (map_of m k))) (keys m))"
    by (simp only: mset_map)
  also have "\<dots> = mset m" using assms(1) by (simp only: map_the_keys)
  finally show ?thesis .
qed

lemma set_go_range [simp]: "wf_map m \<Longrightarrow> valid_order ord \<Longrightarrow> set (go_range ord m) = set m"
  by (metis mset_go_range set_mset_mset)

lemma length_go_range [simp]: "valid_order ord \<Longrightarrow> length (go_range ord m) = length m"
  by (simp add: go_range_def length_valid_order)

lemma map_of_go_range [simp]:
  assumes "wf_map m" and "valid_order ord"
  shows "map_of (go_range ord m) = map_of m"
proof
  fix k
  have "wf_map (go_range ord m)" using assms by (simp add: distinct_valid_order)
  then show "map_of (go_range ord m) k = map_of m k"
    using assms by (metis map_of_eq_None_iff map_of_eq_Some_iff not_Some_eq set_go_range)
qed

lemma map_of_update [simp]: "map_of (AList.update k v m) = (map_of m)(k \<mapsto> v)"
  by (rule update_conv')

lemma map_of_delete [simp]: "map_of (AList.delete k m) = (map_of m)(k := None)"
  by (rule delete_conv')

lemma wf_map_update [simp]: "wf_map m \<Longrightarrow> wf_map (AList.update k v m)"
  by (rule distinct_update)

lemma wf_map_delete [simp]: "wf_map m \<Longrightarrow> wf_map (AList.delete k m)"
  by (rule distinct_delete)

lemma delete_absent: "map_of m k = None \<Longrightarrow> AList.delete k m = m"
  by (simp add: delete_id map_of_eq_None_iff)

lemma map_of_in_set: "map_of m k = Some v \<Longrightarrow> (k, v) \<in> set m"
  by (rule map_of_SomeD)

declare map_of_eq_Some_iff [simp del]

text \<open>Sums over the entries of a map, as the memory accounting needs them.\<close>

definition map_sum :: "('k \<Rightarrow> 'v \<Rightarrow> int) \<Rightarrow> ('k \<times> 'v) list \<Rightarrow> int" where
  "map_sum f m = sum_list (map (\<lambda>(k, v). f k v) m)"

lemma map_sum_simps [simp]:
  "map_sum f [] = 0"
  "map_sum f ((k, v) # m) = f k v + map_sum f m"
  by (simp_all add: map_sum_def)

lemma map_sum_delete:
  "wf_map m \<Longrightarrow>
   map_sum f (AList.delete k m) =
     map_sum f m - (case map_of m k of None \<Rightarrow> 0 | Some v \<Rightarrow> f k v)"
  by (induction m) (auto simp: delete_absent split: option.splits dest: map_of_in_set
      intro: rev_image_eqI)

lemma map_sum_update:
  "wf_map m \<Longrightarrow>
   map_sum f (AList.update k v m) =
     map_sum f m + f k v - (case map_of m k of None \<Rightarrow> 0 | Some v' \<Rightarrow> f k v')"
  by (induction m) (auto split: option.splits)

lemma map_sum_mset: "mset m = mset m' \<Longrightarrow> map_sum f m = map_sum f m'"
  unfolding map_sum_def by (metis mset_map sum_mset_sum_list)

lemma map_sum_nonneg: "(\<And>k v. (k, v) \<in> set m \<Longrightarrow> 0 \<le> f k v) \<Longrightarrow> 0 \<le> map_sum f m"
  unfolding map_sum_def by (auto intro!: sum_list_nonneg)

lemma map_sum_ge_entry:
  assumes "\<And>k v. (k, v) \<in> set m \<Longrightarrow> 0 \<le> f k v" and "(k, v) \<in> set m"
  shows "f k v \<le> map_sum f m"
  using assms
proof (induction m)
  case Nil
  then show ?case by simp
next
  case (Cons p m)
  obtain k' v' where p: "p = (k', v')" by force
  have "0 \<le> map_sum f m" and "0 \<le> f k' v'"
    using Cons.prems p by (auto intro: map_sum_nonneg)
  moreover have "f k v \<le> map_sum f m" if "(k, v) \<in> set m"
    using Cons that by auto
  ultimately show ?case using Cons.prems(2) p by auto
qed

text \<open>A map is determined up to order by its lookups.\<close>

lemma mset_eq_of_map_of_eq:
  assumes "wf_map m" and "wf_map m'" and "map_of m = map_of m'"
  shows "mset m = mset m'"
proof -
  have "set m = set m'" using assms by (metis map_of_inject_set)
  moreover have "distinct m" "distinct m'" using assms(1,2) by (auto simp: distinct_map)
  ultimately show ?thesis by (simp add: set_eq_iff_mset_eq_distinct)
qed

end
