(* ===== verification/Framing.thy ===== *)
theory Framing
  imports Prelude "HOL-Library.Sublist"
begin

section \<open>Reading from a stream of bytes\<close>

text \<open>
  The part of \<open>bufio.Reader\<close> and \<open>io\<close> the parsers use, and the contract between an
  encoder and a decoder. A reader is the bytes that are still to come and the error
  \<open>fin\<close> with which the stream ends: \<open>EOF\<close> for a file or a peer that closes, any other
  for a connection that breaks or times out. A decoder takes the bytes and returns an error or
  a value and the bytes left.

  The locale \<open>framing\<close> is the contract: what is encoded is decoded again whatever
  follows it, and a message that is cut short is reported as an end of file, never as another
  message or as malformed. Its lemmas lift the contract to sequences of messages; the wire
  protocol, the append-only file, the snapshot format and the command-line client are
  interpretations.
\<close>

datatype io_err = EOF | ErrUnexpectedEOF | ErrProtocol | OtherErr bytes

type_synonym ('e, 'a) reader = "bytes \<Rightarrow> 'e + 'a \<times> bytes"
type_synonym 'a decoder = "(io_err, 'a) reader"

definition is_eof :: "io_err \<Rightarrow> bool" where
  "is_eof e \<longleftrightarrow> e = EOF \<or> e = ErrUnexpectedEOF"

lemma is_eof_simps [simp]: "is_eof EOF" "is_eof ErrUnexpectedEOF" "\<not> is_eof ErrProtocol"
  by (simp_all add: is_eof_def)

text \<open>\<open>bufio.Reader.ReadString('\<newline>')\<close>: the line with its end, and the rest.\<close>

fun read_string :: "io_err \<Rightarrow> bytes decoder" where
  "read_string fin [] = Inl fin"
| "read_string fin (c # cs) =
     (if c = CHR 0x0A then Inr ([c], cs)
      else case read_string fin cs of Inl e \<Rightarrow> Inl e | Inr (line, rest) \<Rightarrow> Inr (c # line, rest))"

text \<open>\<open>io.ReadFull\<close> into a buffer of \<open>n\<close> bytes.\<close>

definition read_full :: "io_err \<Rightarrow> nat \<Rightarrow> bytes decoder" where
  "read_full fin n inp =
     (if n \<le> length inp then Inr (take n inp, drop n inp)
      else if inp \<noteq> [] \<and> fin = EOF then Inl ErrUnexpectedEOF else Inl fin)"

definition read_byte :: "io_err \<Rightarrow> char decoder" where
  "read_byte fin inp = (case inp of [] \<Rightarrow> Inl fin | c # cs \<Rightarrow> Inr (c, cs))"

text \<open>\<open>strings.TrimRight(line, "\r\n")\<close>.\<close>

definition is_eol :: "char \<Rightarrow> bool" where
  "is_eol c \<longleftrightarrow> c = CHR 0x0D \<or> c = CHR 0x0A"

definition trim_eol :: "bytes \<Rightarrow> bytes" where
  "trim_eol s = rev (dropWhile is_eol (rev s))"

text \<open>The loop \<open>for i := 0; i < n; i++\<close> that reads \<open>n\<close> items and stops at an error.\<close>

fun read_many :: "('e, 'a) reader \<Rightarrow> nat \<Rightarrow> ('e, 'a list) reader" where
  "read_many dec 0 inp = Inr ([], inp)"
| "read_many dec (Suc n) inp =
     (case dec inp of
        Inl e \<Rightarrow> Inl e
      | Inr (x, rest) \<Rightarrow>
          (case read_many dec n rest of Inl e \<Rightarrow> Inl e | Inr (xs, rest) \<Rightarrow> Inr (x # xs, rest)))"

lemmas reader_eval [go_eval] = read_full_def read_byte_def is_eol_def trim_eol_def

subsection \<open>Lines and fixed-size reads\<close>

abbreviation no_lf :: "bytes \<Rightarrow> bool" where
  "no_lf s \<equiv> CHR 0x0A \<notin> set s"

lemma read_string_line:
  "no_lf line \<Longrightarrow> read_string fin (line @ CHR 0x0A # rest) = Inr (line @ [CHR 0x0A], rest)"
  by (induction line) auto

lemma read_string_no_lf: "no_lf p \<Longrightarrow> read_string fin p = Inl fin"
  by (induction p) auto

lemma read_string_Some:
  "read_string fin inp = Inr (line, rest) \<Longrightarrow> inp = line @ rest \<and> line \<noteq> []"
  by (induction fin inp arbitrary: line rule: read_string.induct)
     (auto split: if_splits sum.splits prod.splits)

lemma read_string_Err: "read_string fin inp = Inl e \<longleftrightarrow> no_lf inp \<and> e = fin"
  by (induction fin inp rule: read_string.induct) (auto split: sum.splits prod.splits)

lemma trim_eol_crlf:
  "trim_eol (s @ [CHR 0x0D, CHR 0x0A]) = trim_eol s"
  "trim_eol (s @ [CHR 0x0A]) = trim_eol s"
  by (simp_all add: trim_eol_def is_eol_def)

lemma trim_eol_id: "s = [] \<or> \<not> is_eol (last s) \<Longrightarrow> trim_eol s = s"
  by (cases s rule: rev_cases) (auto simp: trim_eol_def)

lemma read_full_append [simp]: "length b = n \<Longrightarrow> read_full fin n (b @ rest) = Inr (b, rest)"
  by (auto simp: read_full_def)

lemma read_full_short: "length p < n \<Longrightarrow> \<exists>e. read_full EOF n p = Inl e \<and> is_eof e"
  by (auto simp: read_full_def)

lemma read_full_Some:
  "read_full fin n inp = Inr (b, rest) \<Longrightarrow> inp = b @ rest \<and> length b = n"
  by (auto simp: read_full_def split: if_splits)

text \<open>Where a strict prefix of a message ends.\<close>

lemma strict_prefix_appendE:
  assumes "strict_prefix p (a @ b)"
  obtains "strict_prefix p a" | q where "p = a @ q" and "strict_prefix q b"
proof (cases "prefix a p")
  case True
  then obtain q where "p = a @ q" by (auto elim: prefixE)
  moreover from this assms have "strict_prefix q b" by (auto simp: strict_prefix_def)
  ultimately show thesis by (rule that(2))
next
  case False
  have "prefix p (a @ b)" using assms by (simp add: strict_prefix_def)
  then have "prefix p a \<or> prefix a p" by (auto simp: prefix_append)
  with False that(1) show thesis by (auto simp: strict_prefix_def)
qed

lemma strict_prefix_length_less: "strict_prefix p s \<Longrightarrow> length p < length s"
  by (rule prefix_length_less)

lemma strict_prefix_line:
  assumes "strict_prefix p (line @ [CHR 0x0A])" and "no_lf line"
  shows "no_lf p"
proof -
  have "prefix p line" using assms(1) by (auto simp: strict_prefix_def)
  then show ?thesis using assms(2) set_mono_prefix by blast
qed

subsection \<open>The contract of an encoder and a decoder\<close>

text \<open>
  \<open>norm\<close> is what of a value survives the trip, \<open>eof\<close> the errors that mean the stream
  was too short.
\<close>

locale framing =
  fixes ok :: "'a \<Rightarrow> bool" and enc :: "'a \<Rightarrow> bytes"
    and dec :: "('e, 'b) reader" and norm :: "'a \<Rightarrow> 'b" and eof :: "'e \<Rightarrow> bool"
  assumes roundtrip: "ok x \<Longrightarrow> dec (enc x @ rest) = Inr (norm x, rest)"
    and truncated: "ok x \<Longrightarrow> strict_prefix p (enc x) \<Longrightarrow> \<exists>e. dec p = Inl e \<and> eof e"
begin

lemma roundtrip_end: "ok x \<Longrightarrow> dec (enc x) = Inr (norm x, [])"
  using roundtrip [of x "[]"] by simp

lemma unambiguous: "ok x \<Longrightarrow> ok y \<Longrightarrow> prefix (enc x) (enc y) \<Longrightarrow> norm x = norm y"
  using roundtrip roundtrip_end by (metis Inr_inject Pair_inject prefixE)

lemma many_roundtrip:
  "list_all ok xs \<Longrightarrow> length xs = n \<Longrightarrow>
   read_many dec n (concat (map enc xs) @ rest) = Inr (map norm xs, rest)"
  by (induction xs arbitrary: n) (auto simp: roundtrip)

lemma many_truncated:
  "list_all ok xs \<Longrightarrow> length xs = n \<Longrightarrow> strict_prefix p (concat (map enc xs)) \<Longrightarrow>
   \<exists>e. read_many dec n p = Inl e \<and> eof e"
proof (induction xs arbitrary: n p)
  case Nil
  then show ?case by simp
next
  case (Cons x xs)
  then obtain m where n: "n = Suc m" "length xs = m" by auto
  have p: "strict_prefix p (enc x @ concat (map enc xs))" using Cons.prems by simp
  then show ?case
  proof (cases rule: strict_prefix_appendE)
    case 1
    then show ?thesis using truncated [of x p] Cons.prems n by auto
  next
    case (2 q)
    then show ?thesis using Cons.IH [of m q] Cons.prems n by (auto simp: roundtrip)
  qed
qed

text \<open>A sequence of \<open>n\<close> messages is itself a message.\<close>

lemma framing_many:
  "framing (\<lambda>xs. list_all ok xs \<and> length xs = n) (\<lambda>xs. concat (map enc xs)) (read_many dec n)
     (map norm) eof"
  by unfold_locales (auto simp: many_roundtrip intro: many_truncated)

end

subsection \<open>Messages built from messages\<close>

text \<open>
  \<open>w\<close> is read as \<open>x\<close>, and no strict prefix of it is. A decoder that reads one part
  after another reads the concatenation of the parts.
\<close>

definition message :: "('e \<Rightarrow> bool) \<Rightarrow> ('e, 'a) reader \<Rightarrow> bytes \<Rightarrow> 'a \<Rightarrow> bool" where
  "message eof dec w x \<longleftrightarrow>
     (\<forall>rest. dec (w @ rest) = Inr (x, rest)) \<and>
     (\<forall>p. strict_prefix p w \<longrightarrow> (\<exists>e. dec p = Inl e \<and> eof e))"

lemma framing_iff_message:
  "framing ok enc dec norm eof \<longleftrightarrow> (\<forall>x. ok x \<longrightarrow> message eof dec (enc x) (norm x))"
  unfolding framing_def message_def by blast

lemma message_bind:
  assumes "message eof d1 w1 x" and "message eof (d2 x) w2 y"
  shows "message eof (\<lambda>inp. case d1 inp of Inl e \<Rightarrow> Inl e | Inr (a, r) \<Rightarrow> d2 a r) (w1 @ w2) y"
  unfolding message_def
proof (intro conjI allI impI)
  fix rest show "(case d1 ((w1 @ w2) @ rest) of Inl e \<Rightarrow> Inl e | Inr (a, r) \<Rightarrow> d2 a r) = Inr (y, rest)"
    using assms by (simp add: message_def)
next
  fix p assume "strict_prefix p (w1 @ w2)"
  then show "\<exists>e. (case d1 p of Inl e \<Rightarrow> Inl e | Inr (a, r) \<Rightarrow> d2 a r) = Inl e \<and> eof e"
  proof (cases rule: strict_prefix_appendE)
    case 1
    then show ?thesis using assms(1) by (fastforce simp: message_def)
  next
    case (2 q)
    then show ?thesis using assms by (simp add: message_def)
  qed
qed

lemma message_map:
  assumes "message eof d w x"
  shows "message eof (\<lambda>inp. case d inp of Inl e \<Rightarrow> Inl e | Inr (a, r) \<Rightarrow> Inr (f a, r)) w (f x)"
  using message_bind [OF assms, of "\<lambda>a r. Inr (f a, r)" "[]" "f x"] by (simp add: message_def)

lemma message_many:
  assumes "list_all2 (message eof d) ws xs"
  shows "message eof (read_many d (length xs)) (concat ws) xs"
  using assms
proof (induction ws xs rule: list_all2_induct)
  case Nil
  then show ?case by (simp add: message_def)
next
  case (Cons w ws x xs)
  let ?d2 = "\<lambda>y inp. case read_many d (length xs) inp of
      Inl e \<Rightarrow> Inl e | Inr (ys, r) \<Rightarrow> Inr (y # ys, r)"
  have "message eof (?d2 x) (concat ws) (x # xs)"
    using Cons.IH by (rule message_map)
  with Cons.hyps(1) have "message eof (\<lambda>inp. case d inp of Inl e \<Rightarrow> Inl e | Inr (a, r) \<Rightarrow> ?d2 a r)
      (w @ concat ws) (x # xs)"
    by (rule message_bind)
  then show ?case by simp
qed

end
