(* ===== verification/Protocol.thy ===== *)
theory Protocol
  imports Framing
begin

section \<open>The wire protocols\<close>

text \<open>
  Models \<open>internal/protocol\<close>: the commands and replies of \<open>protocol.go\<close>, RESP2
  (\<open>resp.go\<close>) and the older line-oriented mini-RESP (\<open>miniresp.go\<close>). A parser takes
  the Unicode upper-case tables \<open>uc\<close> (used only for names that are not ASCII), the error
  \<open>fin\<close> that ends the stream and the bytes to come. An encoder returns the bytes it
  writes; a writer that fails belongs to the connection (\<open>Server_Core\<close>).

  The lemmas show that the parsers make progress and respect the size limits, that a bulk
  string is a message in the sense of \<open>framing\<close>, and what a reply looks like on the wire.
\<close>

subsection \<open>Commands and replies\<close>

record command =
  cmd_name :: bytes
  cmd_args :: "bytes list"

text \<open>\<open>BulkReply value null\<close> and \<open>ArrayReply elems null\<close>, as the Go structs.\<close>

datatype reply =
    StatusReply bytes
  | ErrorReply bytes
  | IntReply int
  | BulkReply bytes bool
  | ArrayReply "reply list" bool

abbreviation max_args :: nat where "max_args \<equiv> 1024 * 1024"
abbreviation max_bulk_size :: nat where "max_bulk_size \<equiv> 512 * 1024 * 1024"

text \<open>A count or a length after its marker: \<open>line[0]\<close> is the marker, the rest a number in range.\<close>

definition parse_count :: "char \<Rightarrow> int \<Rightarrow> int \<Rightarrow> bytes \<Rightarrow> nat option" where
  "parse_count marker low high line =
     (case line of
        [] \<Rightarrow> None
      | c # cs \<Rightarrow>
          if c \<noteq> marker then None
          else (case parse_int cs of
                  None \<Rightarrow> None
                | Some n \<Rightarrow> if n < low \<or> n > high then None else Some (nat n)))"

subsection \<open>RESP2\<close>

definition read_crlf :: "io_err \<Rightarrow> bytes decoder" where
  "read_crlf fin inp =
     (case read_string fin inp of Inl e \<Rightarrow> Inl e | Inr (line, rest) \<Rightarrow> Inr (trim_eol line, rest))"

definition read_bulk_crlf :: "io_err \<Rightarrow> bytes decoder" where
  "read_bulk_crlf fin inp =
     (case read_crlf fin inp of
        Inl e \<Rightarrow> Inl e
      | Inr (line, inp) \<Rightarrow>
          (case parse_count CHR ''$'' 0 (int max_bulk_size) line of
             None \<Rightarrow> Inl ErrProtocol
           | Some n \<Rightarrow>
               (case read_full fin n inp of
                  Inl e \<Rightarrow> Inl e
                | Inr (buf, inp) \<Rightarrow>
                    (case read_full fin 2 inp of
                       Inl e \<Rightarrow> Inl e
                     | Inr (crlf, inp) \<Rightarrow>
                         if crlf \<noteq> [CHR 0x0D, CHR 0x0A] then Inl ErrProtocol
                         else Inr (buf, inp)))))"

text \<open>
  \<open>strings.Fields\<close> splits around white space in the sense of \<open>unicode.IsSpace\<close>:
  six ASCII characters, U+0085, U+00A0, U+1680, U+2000 to U+200A, U+2028, U+2029, U+202F,
  U+205F and U+3000. \<open>space_width\<close> is the number of bytes of the space the string begins
  with, 0 when it begins with none. The first byte of such a space is never inside another
  character, so matching it byte by byte is exact.
\<close>

definition ascii_space :: "char \<Rightarrow> bool" where
  "ascii_space c \<longleftrightarrow> (let n = byte_val c in 9 \<le> n \<and> n \<le> 13 \<or> n = 32)"

fun space_width :: "bytes \<Rightarrow> nat" where
  "space_width (a # b # c # s) =
     (let x = byte_val a; y = byte_val b; z = byte_val c
      in if ascii_space a then 1
         else if x = 0xC2 \<and> (y = 0x85 \<or> y = 0xA0) then 2
         else if x = 0xE1 \<and> y = 0x9A \<and> z = 0x80
              \<or> x = 0xE2 \<and> y = 0x80 \<and> (0x80 \<le> z \<and> z \<le> 0x8A \<or> z = 0xA8 \<or> z = 0xA9 \<or> z = 0xAF)
              \<or> x = 0xE2 \<and> y = 0x81 \<and> z = 0x9F
              \<or> x = 0xE3 \<and> y = 0x80 \<and> z = 0x80 then 3
         else 0)"
| "space_width [a, b] =
     (let x = byte_val a; y = byte_val b
      in if ascii_space a then 1 else if x = 0xC2 \<and> (y = 0x85 \<or> y = 0xA0) then 2 else 0)"
| "space_width [a] = (if ascii_space a then 1 else 0)"
| "space_width [] = 0"

text \<open>\<open>field\<close> is the field being read.\<close>

function (sequential) fields_loop :: "bytes \<Rightarrow> bytes \<Rightarrow> bytes list" where
  "fields_loop field [] = (if field = [] then [] else [field])"
| "fields_loop field (c # cs) =
     (let w = space_width (c # cs)
      in if w = 0 then fields_loop (field @ [c]) cs
         else (if field = [] then [] else [field]) @ fields_loop [] (drop (w - 1) cs))"
  by pat_completeness auto
termination by (relation "measure (\<lambda>(_, s). length s)") auto

definition strings_fields :: "bytes \<Rightarrow> bytes list" where
  "strings_fields s = fields_loop [] s"

definition parse_inline :: "(bytes \<Rightarrow> bytes) \<Rightarrow> bytes \<Rightarrow> io_err + command" where
  "parse_inline uc line =
     (case line of
        [] \<Rightarrow> Inl ErrProtocol
      | c # _ \<Rightarrow>
          if c \<in> {CHR ''$'', CHR ''+'', CHR ''-'', CHR '':''} then Inl ErrProtocol
          else (case strings_fields line of
                  [] \<Rightarrow> Inl ErrProtocol
                | name # args \<Rightarrow> Inr \<lparr>cmd_name = to_upper uc name, cmd_args = args\<rparr>))"

text \<open>The command made of the parts of a multibulk request; there is at least one.\<close>

definition command_of_parts :: "(bytes \<Rightarrow> bytes) \<Rightarrow> bytes list \<Rightarrow> command" where
  "command_of_parts uc parts = \<lparr>cmd_name = to_upper uc (hd parts), cmd_args = tl parts\<rparr>"

definition resp_parse :: "(bytes \<Rightarrow> bytes) \<Rightarrow> io_err \<Rightarrow> command decoder" where
  "resp_parse uc fin inp =
     (case read_crlf fin inp of
        Inl e \<Rightarrow> Inl e
      | Inr (line, inp) \<Rightarrow>
          if line = [] \<or> hd line \<noteq> CHR ''*''
          then (case parse_inline uc line of Inl e \<Rightarrow> Inl e | Inr cmd \<Rightarrow> Inr (cmd, inp))
          else (case parse_count CHR ''*'' 1 (int max_args) line of
                  None \<Rightarrow> Inl ErrProtocol
                | Some n \<Rightarrow>
                    (case read_many (read_bulk_crlf fin) n inp of
                       Inl e \<Rightarrow> Inl e
                     | Inr (parts, inp) \<Rightarrow> Inr (command_of_parts uc parts, inp))))"

abbreviation crlf :: bytes where "crlf \<equiv> [CHR 0x0D, CHR 0x0A]"
abbreviation lf :: bytes where "lf \<equiv> [CHR 0x0A]"

fun resp_encode :: "reply \<Rightarrow> bytes" where
  "resp_encode (StatusReply msg) = ''+'' @ msg @ crlf"
| "resp_encode (ErrorReply msg) = ''-'' @ msg @ crlf"
| "resp_encode (IntReply n) = '':'' @ format_int n @ crlf"
| "resp_encode (BulkReply value null) =
     (if null then ''$-1'' @ crlf
      else ''$'' @ format_int (int (length value)) @ crlf @ value @ crlf)"
| "resp_encode (ArrayReply elems null) =
     (if null then ''*-1'' @ crlf
      else ''*'' @ format_int (int (length elems)) @ crlf @ concat (map resp_encode elems))"

subsection \<open>Mini-RESP\<close>

definition read_bulk :: "io_err \<Rightarrow> bytes decoder" where
  "read_bulk fin inp =
     (case read_string fin inp of
        Inl e \<Rightarrow> Inl e
      | Inr (line, inp) \<Rightarrow>
          (case parse_count CHR ''$'' 0 (int max_bulk_size) (trim_eol line) of
             None \<Rightarrow> Inl ErrProtocol
           | Some n \<Rightarrow>
               (case read_full fin n inp of
                  Inl e \<Rightarrow> Inl e
                | Inr (buf, inp) \<Rightarrow>
                    (case read_byte fin inp of
                       Inl e \<Rightarrow> Inl e
                     | Inr (term, inp) \<Rightarrow>
                         (case (if term = CHR 0x0D then read_byte fin inp else Inr (term, inp)) of
                            Inl e \<Rightarrow> Inl e
                          | Inr (term, inp) \<Rightarrow>
                              if term \<noteq> CHR 0x0A then Inl ErrProtocol else Inr (buf, inp))))))"

definition mini_parse :: "(bytes \<Rightarrow> bytes) \<Rightarrow> io_err \<Rightarrow> command decoder" where
  "mini_parse uc fin inp =
     (case read_string fin inp of
        Inl e \<Rightarrow> Inl e
      | Inr (line, inp) \<Rightarrow>
          (case parse_count CHR ''*'' 1 (int max_args) (trim_eol line) of
             None \<Rightarrow> Inl ErrProtocol
           | Some n \<Rightarrow>
               (case read_many (read_bulk fin) n inp of
                  Inl e \<Rightarrow> Inl e
                | Inr (parts, inp) \<Rightarrow> Inr (command_of_parts uc parts, inp))))"

fun mini_encode :: "reply \<Rightarrow> bytes" where
  "mini_encode (StatusReply msg) = ''+'' @ msg @ lf"
| "mini_encode (ErrorReply msg) = ''-'' @ msg @ lf"
| "mini_encode (IntReply n) = '':'' @ format_int n @ lf"
| "mini_encode (BulkReply value null) =
     (if null then ''$-1'' @ lf
      else ''$'' @ format_int (int (length value)) @ lf @ value @ lf)"
| "mini_encode (ArrayReply elems null) =
     (if null then ''*-1'' @ lf
      else ''*'' @ format_int (int (length elems)) @ lf @ concat (map mini_encode elems))"

lemmas protocol_eval [go_eval] =
  parse_count_def read_crlf_def read_bulk_crlf_def parse_inline_def command_of_parts_def
  resp_parse_def read_bulk_def mini_parse_def strings_fields_def ascii_space_def


subsection \<open>Header lines\<close>

definition header :: "char \<Rightarrow> nat \<Rightarrow> bytes" where
  "header marker n = marker # format_int (int n)"

lemma parse_count_header [simp]:
  "low \<le> int n \<Longrightarrow> int n \<le> high \<Longrightarrow> high \<le> max_int64 \<Longrightarrow>
   parse_count marker low high (header marker n) = Some n"
  by (simp add: parse_count_def header_def in_i64_def)

lemma parse_count_Some:
  "parse_count marker low high line = Some n \<Longrightarrow> 0 \<le> low \<Longrightarrow> low \<le> int n \<and> int n \<le> high"
  by (auto simp: parse_count_def split: list.splits option.splits if_splits)

lemma no_lf_header: "marker \<noteq> CHR 0x0A \<Longrightarrow> no_lf (header marker n @ [CHR 0x0D])"
  using format_int_no_crlf by (auto simp: header_def)

lemma trim_eol_header [simp]:
  "marker \<noteq> CHR 0x0A \<Longrightarrow> trim_eol (header marker n) = header marker n"
  using format_int_no_crlf [of "last (format_int (int n))" "int n"]
  by (intro trim_eol_id disjI2) (auto simp: header_def is_eol_def)

lemma read_header:
  assumes "marker \<noteq> CHR 0x0A"
  shows "read_string fin (header marker n @ crlf @ rest) = Inr (header marker n @ crlf, rest)"
    and "read_string fin (header marker n @ lf @ rest) = Inr (header marker n @ lf, rest)"
    and "read_crlf fin (header marker n @ crlf @ rest) = Inr (header marker n, rest)"
proof -
  show "read_string fin (header marker n @ crlf @ rest) = Inr (header marker n @ crlf, rest)"
    using read_string_line [OF no_lf_header [OF assms, of n], of fin rest] by simp
  then show "read_crlf fin (header marker n @ crlf @ rest) = Inr (header marker n, rest)"
    using assms by (simp add: read_crlf_def trim_eol_crlf)
  show "read_string fin (header marker n @ lf @ rest) = Inr (header marker n @ lf, rest)"
    using read_string_line [of "header marker n" fin rest] no_lf_header [OF assms, of n] by simp
qed

lemmas read_header_cons [simp] = read_header [simplified]

lemma truncated_header:
  assumes "marker \<noteq> CHR 0x0A"
  shows "strict_prefix p (header marker n @ crlf) \<Longrightarrow> read_string fin p = Inl fin"
    and "strict_prefix p (header marker n @ lf) \<Longrightarrow> read_string fin p = Inl fin"
  using strict_prefix_line [of p "header marker n @ [CHR 0x0D]"]
    strict_prefix_line [of p "header marker n"] no_lf_header [OF assms, of n]
  by (auto intro!: read_string_no_lf)

subsection \<open>Bulk strings\<close>

definition bulk_wire :: "bytes \<Rightarrow> bytes" where
  "bulk_wire b = header CHR ''$'' (length b) @ crlf @ b @ crlf"

definition bulk_line :: "bytes \<Rightarrow> bytes" where
  "bulk_line b = header CHR ''$'' (length b) @ lf @ b @ lf"

lemma bulk_reply_wire:
  "resp_encode (BulkReply b False) = bulk_wire b"
  "mini_encode (BulkReply b False) = bulk_line b"
  by (simp_all add: bulk_wire_def bulk_line_def header_def)

definition bulk_ok :: "bytes \<Rightarrow> bool" where
  "bulk_ok b \<longleftrightarrow> length b \<le> max_bulk_size"

lemma append_nested: "a @ b @ c @ d = (a @ b) @ c @ d"
  by simp

lemma read_bulk_crlf_wire:
  assumes "bulk_ok b"
  shows "read_bulk_crlf fin (bulk_wire b @ rest) = Inr (b, rest)"
proof -
  have "read_full fin 2 (crlf @ rest) = Inr (crlf, rest)" by (rule read_full_append) simp
  then show ?thesis
    using assms by (simp add: read_bulk_crlf_def bulk_wire_def bulk_ok_def)
qed

lemma read_bulk_crlf_truncated:
  assumes "bulk_ok b" and "strict_prefix p (bulk_wire b)"
  shows "\<exists>e. read_bulk_crlf EOF p = Inl e \<and> is_eof e"
proof -
  let ?h = "header CHR ''$'' (length b)"
  have "strict_prefix p ((?h @ crlf) @ b @ crlf)" using assms(2) by (simp add: bulk_wire_def)
  then show ?thesis
  proof (cases rule: strict_prefix_appendE)
    case 1
    then have "read_string EOF p = Inl EOF" by (rule truncated_header(1) [rotated]) simp
    then show ?thesis by (simp add: read_bulk_crlf_def read_crlf_def)
  next
    case (2 q)
    have p: "read_crlf EOF p = Inr (?h, q)" using read_header(3) [of "CHR ''$''"] 2 by simp
    from 2(2) show ?thesis
    proof (cases rule: strict_prefix_appendE)
      case 1
      then show ?thesis
        using p assms(1) read_full_short [of q "length b"] strict_prefix_length_less
        by (fastforce simp: read_bulk_crlf_def bulk_ok_def)
    next
      case (2 r)
      then show ?thesis
        using p assms(1) read_full_short [of r 2] strict_prefix_length_less [of r crlf]
        by (auto simp: read_bulk_crlf_def bulk_ok_def)
    qed
  qed
qed

interpretation bulk: framing bulk_ok bulk_wire "read_bulk_crlf EOF" "\<lambda>b. b" is_eof
  by unfold_locales (simp_all add: read_bulk_crlf_wire read_bulk_crlf_truncated)

text \<open>Mini-RESP reads its own frame and the one of RESP2.\<close>

lemma read_bulk_frames:
  assumes "bulk_ok b"
  shows "read_bulk fin (bulk_wire b @ rest) = Inr (b, rest)"
    and "read_bulk fin (bulk_line b @ rest) = Inr (b, rest)"
  using assms
  by (simp_all add: read_bulk_def bulk_wire_def bulk_line_def trim_eol_crlf
      bulk_ok_def read_byte_def)

lemma read_bulk_truncated:
  assumes "bulk_ok b" and "strict_prefix p (bulk_line b)"
  shows "\<exists>e. read_bulk EOF p = Inl e \<and> is_eof e"
proof -
  let ?h = "header CHR ''$'' (length b)"
  have "strict_prefix p ((?h @ lf) @ b @ lf)" using assms(2) by (simp add: bulk_line_def)
  then show ?thesis
  proof (cases rule: strict_prefix_appendE)
    case 1
    then have "read_string EOF p = Inl EOF" by (rule truncated_header(2) [rotated]) simp
    then show ?thesis by (simp add: read_bulk_def)
  next
    case (2 q)
    have p: "read_string EOF p = Inr (?h @ lf, q)" using read_header(2) [of "CHR ''$''"] 2 by simp
    from 2(2) show ?thesis
    proof (cases rule: strict_prefix_appendE)
      case 1
      then show ?thesis
        using p assms(1) read_full_short [of q "length b"] strict_prefix_length_less
        by (fastforce simp: read_bulk_def bulk_ok_def trim_eol_crlf)
    next
      case (2 r)
      then have "r = []" by (cases r) (auto simp: strict_prefix_def)
      with 2 p assms(1) show ?thesis
        by (simp add: read_bulk_def bulk_ok_def trim_eol_crlf read_full_def read_byte_def)
    qed
  qed
qed

interpretation mini_bulk: framing bulk_ok bulk_line "read_bulk EOF" "\<lambda>b. b" is_eof
  by unfold_locales (simp_all add: read_bulk_frames read_bulk_truncated)


subsection \<open>Requests\<close>

definition parts_ok :: "bytes list \<Rightarrow> bool" where
  "parts_ok parts \<longleftrightarrow> parts \<noteq> [] \<and> length parts \<le> max_args \<and> list_all bulk_ok parts"

definition request_wire :: "bytes list \<Rightarrow> bytes" where
  "request_wire parts =
     header CHR ''*'' (length parts) @ crlf @ concat (map bulk_wire parts)"

definition request_line :: "bytes list \<Rightarrow> bytes" where
  "request_line parts = header CHR ''*'' (length parts) @ lf @ concat (map bulk_line parts)"

lemma parts_okD:
  assumes "parts_ok parts"
  shows "list_all bulk_ok parts" and "1 \<le> int (length parts)"
    and "int (length parts) \<le> int max_args"
  using assms by (auto simp: parts_ok_def Suc_le_eq)

lemma header_nonempty [simp]:
  "header m n \<noteq> []" "header m n @ s \<noteq> []" "hd (header m n) = m" "hd (header m n @ s) = m"
  by (simp_all add: header_def)

lemma read_many_request:
  assumes "parts_ok parts"
  shows "read_many (read_bulk_crlf fin) (length parts) (concat (map bulk_wire parts) @ rest)
         = Inr (parts, rest)"
    and "read_many (read_bulk fin) (length parts) (concat (map bulk_wire parts) @ rest)
         = Inr (parts, rest)"
    and "read_many (read_bulk fin) (length parts) (concat (map bulk_line parts) @ rest)
         = Inr (parts, rest)"
  using parts_okD(1) [OF assms]
  by (induction parts) (auto simp: read_bulk_crlf_wire read_bulk_frames)

lemma resp_parse_request:
  assumes "parts_ok parts"
  shows "resp_parse uc fin (request_wire parts @ rest) = Inr (command_of_parts uc parts, rest)"
  using read_many_request(1) [OF assms] parts_okD [OF assms]
  by (simp add: resp_parse_def request_wire_def)

lemma mini_parse_request:
  assumes "parts_ok parts"
  shows "mini_parse uc fin (request_wire parts @ rest) = Inr (command_of_parts uc parts, rest)"
    and "mini_parse uc fin (request_line parts @ rest) = Inr (command_of_parts uc parts, rest)"
  using read_many_request(2,3) [OF assms] parts_okD [OF assms]
  by (simp_all add: mini_parse_def request_wire_def request_line_def trim_eol_crlf)

lemma resp_parse_truncated:
  assumes "parts_ok parts" and "strict_prefix p (request_wire parts)"
  shows "\<exists>e. resp_parse uc EOF p = Inl e \<and> is_eof e"
proof -
  let ?h = "header CHR ''*'' (length parts)"
  note ok = parts_okD [OF assms(1)]
  have "strict_prefix p ((?h @ crlf) @ concat (map bulk_wire parts))"
    using assms(2) by (simp add: request_wire_def)
  then show ?thesis
  proof (cases rule: strict_prefix_appendE)
    case 1
    then have "read_string EOF p = Inl EOF" by (rule truncated_header(1) [rotated]) simp
    then show ?thesis by (simp add: resp_parse_def read_crlf_def)
  next
    case (2 q)
    have "\<exists>e. read_many (read_bulk_crlf EOF) (length parts) q = Inl e \<and> is_eof e"
      using ok(1) refl 2(2) by (rule bulk.many_truncated)
    with 2(1) ok show ?thesis by (auto simp: resp_parse_def)
  qed
qed

interpretation request: framing parts_ok request_wire "resp_parse uc EOF" "command_of_parts uc"
    is_eof for uc
  by unfold_locales (simp_all add: resp_parse_request resp_parse_truncated)

subsection \<open>Progress and limits\<close>

text \<open>A decoder that returns a value has consumed a non-empty prefix of the stream.\<close>

definition consumes :: "('e, 'a) reader \<Rightarrow> bool" where
  "consumes dec \<longleftrightarrow> (\<forall>inp x rest. dec inp = Inr (x, rest) \<longrightarrow> (\<exists>used. used \<noteq> [] \<and> inp = used @ rest))"

lemma consumesD: "consumes dec \<Longrightarrow> dec inp = Inr (x, rest) \<Longrightarrow> \<exists>used. used \<noteq> [] \<and> inp = used @ rest"
  unfolding consumes_def by blast

lemma read_many_suffix:
  assumes "consumes dec"
  shows "read_many dec n inp = Inr (xs, rest) \<Longrightarrow> (\<exists>used. inp = used @ rest) \<and> length xs = n"
proof (induction n arbitrary: inp xs)
  case 0
  then show ?case by simp
next
  case (Suc n)
  then obtain x mid ys where x: "dec inp = Inr (x, mid)" "read_many dec n mid = Inr (ys, rest)"
    "xs = x # ys"
    by (auto split: sum.splits prod.splits)
  from consumesD [OF assms x(1)] Suc.IH [OF x(2)] x(3) show ?case by auto
qed

lemma consumes_read_crlf: "consumes (read_crlf fin)"
  by (auto simp: consumes_def read_crlf_def split: sum.splits prod.splits
      dest!: read_string_Some)

lemma read_bulk_crlf_Some:
  assumes "read_bulk_crlf fin inp = Inr (b, rest)"
  shows "bulk_ok b \<and> (\<exists>used. used \<noteq> [] \<and> inp = used @ rest)"
proof -
  obtain line mid n mid2 end2 where r:
    "read_crlf fin inp = Inr (line, mid)"
    "parse_count CHR ''$'' 0 (int max_bulk_size) line = Some n"
    "read_full fin n mid = Inr (b, mid2)" "read_full fin 2 mid2 = Inr (end2, rest)"
    using assms by (auto simp: read_bulk_crlf_def split: sum.splits prod.splits option.splits if_splits)
  have b: "mid = b @ mid2" "length b = n" using read_full_Some [OF r(3)] by simp_all
  have e: "mid2 = end2 @ rest" using read_full_Some [OF r(4)] by simp
  obtain used where "used \<noteq> []" "inp = used @ mid"
    using consumesD [OF consumes_read_crlf r(1)] by blast
  moreover have "int n \<le> int max_bulk_size" using parse_count_Some [OF r(2)] by simp
  ultimately show ?thesis using b e by (auto simp: bulk_ok_def)
qed

lemma consumes_read_bulk_crlf: "consumes (read_bulk_crlf fin)"
  using read_bulk_crlf_Some unfolding consumes_def by blast

lemma read_many_bulk_ok:
  "read_many (read_bulk_crlf fin) n inp = Inr (xs, rest) \<Longrightarrow> list_all bulk_ok xs"
  by (induction n arbitrary: inp xs)
     (auto split: sum.splits prod.splits dest: read_bulk_crlf_Some)

text \<open>A parsed request is either an inline line or stays within the limits.\<close>

lemma resp_parse_Some:
  assumes "resp_parse uc fin inp = Inr (cmd, rest)"
  obtains (inline) line where "read_crlf fin inp = Inr (line, rest)"
      and "parse_inline uc line = Inr cmd"
  | (multibulk) line mid parts where "read_crlf fin inp = Inr (line, mid)"
      and "read_many (read_bulk_crlf fin) (length parts) mid = Inr (parts, rest)"
      and "parts_ok parts" and "cmd = command_of_parts uc parts"
proof -
  obtain line mid where line: "read_crlf fin inp = Inr (line, mid)"
    using assms by (auto simp: resp_parse_def split: sum.splits)
  show thesis
  proof (cases "line = [] \<or> hd line \<noteq> CHR ''*''")
    case True
    then show thesis
      using assms line inline by (auto simp: resp_parse_def split: sum.splits)
  next
    case False
    then obtain n parts where n: "parse_count CHR ''*'' 1 (int max_args) line = Some n"
      "read_many (read_bulk_crlf fin) n mid = Inr (parts, rest)" "cmd = command_of_parts uc parts"
      using assms line by (auto simp: resp_parse_def split: sum.splits option.splits prod.splits)
    have "length parts = n"
      using read_many_suffix [OF consumes_read_bulk_crlf n(2)] by simp
    moreover have "parts_ok parts"
      using read_many_bulk_ok [OF n(2)] parse_count_Some [OF n(1)] \<open>length parts = n\<close>
      by (auto simp: parts_ok_def)
    ultimately show thesis using multibulk line n by blast
  qed
qed

lemma consumes_resp_parse: "consumes (resp_parse uc fin)"
  unfolding consumes_def
proof (intro allI impI)
  fix inp cmd rest assume "resp_parse uc fin inp = Inr (cmd, rest)"
  then show "\<exists>used. used \<noteq> [] \<and> inp = used @ rest"
  proof (cases rule: resp_parse_Some)
    case (inline line)
    then show ?thesis using consumesD [OF consumes_read_crlf] by blast
  next
    case (multibulk line mid parts)
    from consumesD [OF consumes_read_crlf multibulk(1)]
      read_many_suffix [OF consumes_read_bulk_crlf multibulk(2)]
    show ?thesis by (metis append_is_Nil_conv append.assoc)
  qed
qed

end
