(* ===== verification/Store_Core.thy ===== *)
theory Store_Core
  imports Prelude
begin

section \<open>The store: entries, shards, lazy expiration and memory accounting\<close>

text \<open>
  Models \<open>internal/store/store.go\<close> up to \<open>shardFor\<close> and
  \<open>internal/store/memory.go\<close>. An \<open>entry\<close> pairs a value with a deadline; a
  \<open>shard\<close> has a map from keys to entries, the running byte count and the counter of
  expired keys; a \<open>store\<close> is a list of shards and a mask. Every operation of the
  store on one key locks that key's shard for its whole duration, so it is one function on
  the shard (\<open>on_shard\<close> picks the shard and puts the new one back).

  In Go the map holds pointers to entries, and an operation writes \<open>e.value\<close> or
  \<open>e.expireAt\<close> through the pointer; \<open>put_entry\<close> is that write.

  The contract of such an operation is in \<open>Store_Contract\<close>.
\<close>

unbundle bit_operations_syntax

subsection \<open>Entries\<close>

text \<open>
  The dynamic types the code stores in \<open>entry.value\<close>; \<open>VNil\<close> is the nil
  interface of a fresh \<open>&entry{}\<close>.
\<close>

datatype gvalue =
    VNil
  | VString bytes
  | VList "bytes list"
  | VHash "bytes gomap"
  | VSet "bytes list"

datatype store_err = ErrWrongType | ErrNotInteger

record entry =
  evalue :: gvalue
  expire_at :: time

definition entry_expired :: "entry \<Rightarrow> time \<Rightarrow> bool" where
  "entry_expired e now \<longleftrightarrow> \<not> is_zero (expire_at e) \<and> now > expire_at e"

fun value_approx_memory :: "gvalue \<Rightarrow> int" where
  "value_approx_memory VNil = 0"
| "value_approx_memory (VString v) = int (length v)"
| "value_approx_memory (VList l) = sum_list (map (\<lambda>item. int (length item)) l)"
| "value_approx_memory (VHash h) = map_sum (\<lambda>f item. int (length f + length item)) h"
| "value_approx_memory (VSet ms) = sum_list (map (\<lambda>m. int (length m)) ms)"

definition entry_approx_memory :: "bytes \<Rightarrow> entry \<Rightarrow> int" where
  "entry_approx_memory key e = int (length key) + value_approx_memory (evalue e)"

fun wf_value :: "gvalue \<Rightarrow> bool" where
  "wf_value VNil = False"
| "wf_value (VHash h) = wf_map h"
| "wf_value (VSet ms) = distinct ms"
| "wf_value _ = True"

lemma value_approx_memory_nonneg [simp]: "0 \<le> value_approx_memory v"
  by (cases v) (auto intro!: sum_list_nonneg map_sum_nonneg)

lemma entry_approx_memory_nonneg [simp]: "0 \<le> entry_approx_memory k e"
  by (simp add: entry_approx_memory_def)

lemma entry_expired_mono: "entry_expired e now \<Longrightarrow> now \<le> t \<Longrightarrow> entry_expired e t"
  by (auto simp: entry_expired_def)

text \<open>What a lookup at time \<open>now\<close> can still see of a stored entry.\<close>

definition live_at :: "time \<Rightarrow> entry option \<Rightarrow> entry option" where
  "live_at now eo =
     (case eo of None \<Rightarrow> None | Some e \<Rightarrow> if entry_expired e now then None else Some e)"

lemma live_at_None [simp]: "live_at now None = None"
  by (simp add: live_at_def)

lemma live_at_Some: "live_at now (Some e) = (if entry_expired e now then None else Some e)"
  by (simp add: live_at_def)

lemma live_at_live_at: "now \<le> t \<Longrightarrow> live_at t (live_at now eo) = live_at t eo"
  by (auto simp: live_at_def entry_expired_mono split: option.splits)

lemma live_at_idem [simp]: "live_at now (live_at now eo) = live_at now eo"
  by (simp add: live_at_live_at)

lemma live_at_SomeD: "live_at now eo = Some e \<Longrightarrow> eo = Some e \<and> \<not> entry_expired e now"
  by (auto simp: live_at_def split: option.splits if_splits)

lemma live_at_no_deadline [simp]: "is_zero (expire_at e) \<Longrightarrow> live_at t (Some e) = Some e"
  by (simp add: live_at_def entry_expired_def)

subsection \<open>Shards\<close>

record shard =
  sdata :: "entry gomap"
  used_memory :: int
  expired_keys :: nat

definition empty_shard :: shard where
  "empty_shard = \<lparr>sdata = [], used_memory = 0, expired_keys = 0\<rparr>"

definition set_entry :: "bytes \<Rightarrow> entry \<Rightarrow> shard \<Rightarrow> shard" where
  "set_entry key e sh =
     (let sh1 = (case map_of (sdata sh) key of
                   Some old \<Rightarrow> sh\<lparr>used_memory := used_memory sh - entry_approx_memory key old\<rparr>
                 | None \<Rightarrow> sh);
          sh2 = sh1\<lparr>sdata := AList.update key e (sdata sh1)\<rparr>
      in sh2\<lparr>used_memory := used_memory sh2 + entry_approx_memory key e\<rparr>)"

definition delete_entry :: "bytes \<Rightarrow> shard \<Rightarrow> shard \<times> entry option" where
  "delete_entry key sh =
     (case map_of (sdata sh) key of
        None \<Rightarrow> (sh, None)
      | Some e \<Rightarrow>
          (sh\<lparr>sdata := AList.delete key (sdata sh),
              used_memory := used_memory sh - entry_approx_memory key e\<rparr>, Some e))"

definition refresh_entry_memory :: "bytes \<Rightarrow> int \<Rightarrow> shard \<Rightarrow> shard" where
  "refresh_entry_memory key before sh =
     (case map_of (sdata sh) key of
        None \<Rightarrow> sh
      | Some e \<Rightarrow> sh\<lparr>used_memory := used_memory sh + (entry_approx_memory key e - before)\<rparr>)"

text \<open>A write through the pointer that the map holds for \<open>key\<close>.\<close>

definition put_entry :: "bytes \<Rightarrow> entry \<Rightarrow> shard \<Rightarrow> shard" where
  "put_entry key e sh = sh\<lparr>sdata := AList.update key e (sdata sh)\<rparr>"

definition bump_expired :: "shard \<Rightarrow> shard" where
  "bump_expired sh = sh\<lparr>expired_keys := Suc (expired_keys sh)\<rparr>"

definition live_entry :: "bytes \<Rightarrow> time \<Rightarrow> shard \<Rightarrow> shard \<times> entry option" where
  "live_entry key now sh =
     (case map_of (sdata sh) key of
        None \<Rightarrow> (sh, None)
      | Some e \<Rightarrow>
          if entry_expired e now then (bump_expired (fst (delete_entry key sh)), None)
          else (sh, Some e))"

text \<open>
  \<open>memory_leak\<close> is by how much the running count of a shard exceeds the sum over its
  entries. The invariant of a shard: keys are distinct, the count is never below the sum, and
  every stored value is one of the four real types. The count is not always equal to the sum:
  see \<open>HDel\<close> and \<open>SRem\<close>.
\<close>

definition memory_leak :: "shard \<Rightarrow> int" where
  "memory_leak sh = used_memory sh - map_sum entry_approx_memory (sdata sh)"

definition wf_shard :: "shard \<Rightarrow> bool" where
  "wf_shard sh \<longleftrightarrow>
     wf_map (sdata sh) \<and> 0 \<le> memory_leak sh \<and>
     (\<forall>e \<in> snd ` set (sdata sh). wf_value (evalue e))"

lemma wf_shard_empty [simp]: "wf_shard empty_shard"
  by (simp add: wf_shard_def empty_shard_def memory_leak_def)

lemma memory_leak_empty [simp]: "memory_leak empty_shard = 0"
  by (simp add: empty_shard_def memory_leak_def)

lemma wf_shardD:
  assumes "wf_shard sh"
  shows wf_shard_map: "wf_map (sdata sh)"
    and wf_shard_leak: "0 \<le> memory_leak sh"
    and wf_shard_value: "map_of (sdata sh) k = Some e \<Longrightarrow> wf_value (evalue e)"
  using assms by (auto simp: wf_shard_def dest!: map_of_in_set)

lemma set_update_subset: "set (AList.update k v m) \<subseteq> insert (k, v) (set m)"
  by (induction m) auto

lemma set_delete_subset: "set (AList.delete k m) \<subseteq> set m"
  by (auto simp: AList.delete_eq)

lemma sdata_set_entry [simp]: "sdata (set_entry key e sh) = AList.update key e (sdata sh)"
  by (simp add: set_entry_def Let_def split: option.split)

lemma sdata_delete_entry [simp]:
  "sdata (fst (delete_entry key sh)) = AList.delete key (sdata sh)"
  by (simp add: delete_entry_def delete_absent split: option.split)

lemma sdata_bump_expired [simp]: "sdata (bump_expired sh) = sdata sh"
  by (simp add: bump_expired_def)

lemma sdata_refresh [simp]: "sdata (refresh_entry_memory key before sh) = sdata sh"
  by (simp add: refresh_entry_memory_def split: option.split)

lemma sdata_put_entry [simp]: "sdata (put_entry key e sh) = AList.update key e (sdata sh)"
  by (simp add: put_entry_def)

lemma used_memory_set_entry:
  "used_memory (set_entry key e sh) = used_memory sh + entry_approx_memory key e
     - (case map_of (sdata sh) key of None \<Rightarrow> 0 | Some old \<Rightarrow> entry_approx_memory key old)"
  by (simp add: set_entry_def Let_def split: option.split)

lemma memory_leak_set_entry [simp]:
  "wf_shard sh \<Longrightarrow> memory_leak (set_entry key e sh) = memory_leak sh"
  by (auto simp: memory_leak_def used_memory_set_entry map_sum_update wf_shard_map
      split: option.split)

lemma memory_leak_delete_entry [simp]:
  "wf_shard sh \<Longrightarrow> memory_leak (fst (delete_entry key sh)) = memory_leak sh"
  by (auto simp: memory_leak_def delete_entry_def map_sum_delete wf_shard_map
      split: option.split)

lemma wf_shard_set_entry [simp]:
  "wf_shard sh \<Longrightarrow> wf_value (evalue e) \<Longrightarrow> wf_shard (set_entry key e sh)"
  using set_update_subset [of key e "sdata sh"] memory_leak_set_entry [of sh key e]
  by (fastforce simp: wf_shard_def)

lemma wf_shard_delete_entry [simp]: "wf_shard sh \<Longrightarrow> wf_shard (fst (delete_entry key sh))"
  using set_delete_subset [of key "sdata sh"] memory_leak_delete_entry [of sh key]
  by (fastforce simp: wf_shard_def)

lemma memory_leak_bump [simp]: "memory_leak (bump_expired sh) = memory_leak sh"
  by (simp add: memory_leak_def bump_expired_def)

lemma wf_shard_bump [simp]: "wf_shard (bump_expired sh) = wf_shard sh"
  by (simp add: wf_shard_def)

lemma set_entry_twice [simp]: "set_entry key e2 (set_entry key e1 sh) = set_entry key e2 sh"
  by (simp add: set_entry_def Let_def split: option.split)

text \<open>
  The idiom "take the size, write through the pointer, refresh the accounting" has the
  effect of \<open>setEntry\<close> on an entry that is in the map.
\<close>

lemma refresh_put_entry:
  assumes "map_of (sdata sh) key = Some e"
  shows "refresh_entry_memory key (entry_approx_memory key e) (put_entry key e' sh)
         = set_entry key e' sh"
  using assms
  by (simp add: refresh_entry_memory_def put_entry_def set_entry_def Let_def)

text \<open>
  Writing a smaller value through the pointer and then deleting the entry subtracts the
  smaller size: the difference stays in the count.
\<close>

lemma delete_put_entry:
  assumes "map_of (sdata sh) key = Some e" and "wf_shard sh"
    and "entry_approx_memory key e' \<le> entry_approx_memory key e"
  shows "wf_shard (fst (delete_entry key (put_entry key e' sh)))"
    and "sdata (fst (delete_entry key (put_entry key e' sh))) = AList.delete key (sdata sh)"
    and "memory_leak (fst (delete_entry key (put_entry key e' sh)))
         = memory_leak sh + (entry_approx_memory key e - entry_approx_memory key e')"
proof -
  have d: "AList.delete key (AList.update key e' m) = AList.delete key m" for m :: "entry gomap"
    by (induction m) auto
  show data: "sdata (fst (delete_entry key (put_entry key e' sh))) = AList.delete key (sdata sh)"
    by (simp add: d)
  show leak: "memory_leak (fst (delete_entry key (put_entry key e' sh)))
         = memory_leak sh + (entry_approx_memory key e - entry_approx_memory key e')"
    using assms(1,2)
    by (simp add: memory_leak_def put_entry_def delete_entry_def d map_sum_delete wf_shard_map)
  show "wf_shard (fst (delete_entry key (put_entry key e' sh)))"
    unfolding wf_shard_def data leak
    using assms set_delete_subset [of key "sdata sh"] by (auto simp: wf_shard_def)
qed

text \<open>A change of the deadline alone needs no refresh.\<close>

lemma put_entry_deadline:
  assumes "map_of (sdata sh) key = Some e" and "evalue e' = evalue e"
  shows "put_entry key e' sh = set_entry key e' sh"
  using assms by (simp add: put_entry_def set_entry_def entry_approx_memory_def Let_def)

lemma snd_live_entry [simp]:
  "snd (live_entry key now sh) = live_at now (map_of (sdata sh) key)"
  by (simp add: live_entry_def live_at_def split: option.split)

lemma map_of_live_entry [simp]:
  "map_of (sdata (fst (live_entry key now sh)))
   = (map_of (sdata sh))(key := live_at now (map_of (sdata sh) key))"
  by (auto simp: live_entry_def live_at_def fun_eq_iff split: option.split)

lemma wf_shard_live_entry [simp]: "wf_shard sh \<Longrightarrow> wf_shard (fst (live_entry key now sh))"
  by (simp add: live_entry_def split: option.split)

lemma memory_leak_live_entry [simp]:
  "wf_shard sh \<Longrightarrow> memory_leak (fst (live_entry key now sh)) = memory_leak sh"
  by (simp add: live_entry_def split: option.split)

lemma delete_put_live:
  assumes "wf_shard sh" and "live_at now (map_of (sdata sh) key) = Some e"
    and "entry_approx_memory key e' \<le> entry_approx_memory key e"
  shows "wf_shard (fst (delete_entry key (put_entry key e' (fst (live_entry key now sh)))))"
    and "memory_leak sh
         \<le> memory_leak (fst (delete_entry key (put_entry key e' (fst (live_entry key now sh)))))"
  using delete_put_entry [of "fst (live_entry key now sh)" key e e'] assms by simp_all

lemma live_entryE:
  assumes "wf_shard sh"
  obtains sh1 where "live_entry key now sh = (sh1, live_at now (map_of (sdata sh) key))"
    and "wf_shard sh1"
    and "map_of (sdata sh1) = (map_of (sdata sh))(key := live_at now (map_of (sdata sh) key))"
  using assms by (metis map_of_live_entry prod.collapse snd_live_entry wf_shard_live_entry)

subsection \<open>Sharding\<close>

record store =
  shards :: "shard list"
  smask :: "32 word"

text \<open>\<open>hash/fnv\<close>, FNV-1a with 32 bits: xor the byte in, then multiply, wrapping.\<close>

definition fnv32a :: "bytes \<Rightarrow> 32 word" where
  "fnv32a s = foldl (\<lambda>h c. (h XOR of_char c) * 16777619) 2166136261 s"

definition shard_index :: "store \<Rightarrow> bytes \<Rightarrow> nat" where
  "shard_index s key = unat (fnv32a key AND smask s)"

text \<open>
  \<open>nextPow2\<close>: the loop doubles a Go \<open>int\<close>, so for an argument above
  \<open>2 ^ 62\<close> it overflows to zero and never ends; \<open>None\<close> is that run.
\<close>

partial_function (option) next_pow2_loop :: "int \<Rightarrow> int \<Rightarrow> int option" where
  "next_pow2_loop p n = (if p < n then next_pow2_loop (i64 (2 * p)) n else Some p)"

definition next_pow2 :: "int \<Rightarrow> int option" where
  "next_pow2 n = (if n < 1 then Some 1 else next_pow2_loop 1 n)"

text \<open>
  \<open>New\<close>. On the 64-bit platforms of the releases \<open>make\<close> panics for a slice of more than
  \<open>2 ^ 48\<close> bytes, so of more than \<open>2 ^ 45\<close> pointers. Running out of memory is not modelled.
\<close>

definition max_make_pointers :: int where
  "max_make_pointers = 2 ^ 45"

datatype new_fault = LoopNeverEnds | MakePanics

definition new_store :: "int \<Rightarrow> new_fault + store" where
  "new_store num_shards =
     (case next_pow2 num_shards of
        None \<Rightarrow> Inl LoopNeverEnds
      | Some n \<Rightarrow>
          if n > max_make_pointers then Inl MakePanics
          else Inr \<lparr>shards = replicate (nat n) empty_shard, smask = word_of_int (n - 1)\<rparr>)"

text \<open>One locked operation on the shard of \<open>key\<close>.\<close>

definition on_shard :: "bytes \<Rightarrow> (shard \<Rightarrow> shard \<times> 'r) \<Rightarrow> store \<Rightarrow> store \<times> 'r" where
  "on_shard key f s =
     (let i = shard_index s key; (sh', r) = f (shards s ! i)
      in (s\<lparr>shards := (shards s)[i := sh']\<rparr>, r))"

definition lookup :: "store \<Rightarrow> bytes \<Rightarrow> entry option" where
  "lookup s key = map_of (sdata (shards s ! shard_index s key)) key"

definition approx_memory :: "store \<Rightarrow> int" where
  "approx_memory s = foldl (\<lambda>total sh. total + used_memory sh) 0 (shards s)"

definition total_expired_keys :: "store \<Rightarrow> nat" where
  "total_expired_keys s = foldl (\<lambda>total sh. total + expired_keys sh) 0 (shards s)"

text \<open>
  The invariant of a store: the mask never points outside the list of shards, every shard is
  well formed, and every key is in the shard its hash selects.
\<close>

definition wf_store :: "store \<Rightarrow> bool" where
  "wf_store s \<longleftrightarrow>
     unat (smask s) < length (shards s) \<and>
     (\<forall>i < length (shards s). wf_shard (shards s ! i) \<and>
        (\<forall>k \<in> set (keys (sdata (shards s ! i))). shard_index s k = i))"

lemma shard_index_less [simp]: "wf_store s \<Longrightarrow> shard_index s k < length (shards s)"
proof -
  assume "wf_store s"
  moreover have "unat (fnv32a k AND smask s) \<le> unat (smask s)"
    by (simp add: word_and_le1 word_le_nat_alt [symmetric])
  ultimately show ?thesis by (simp add: wf_store_def shard_index_def)
qed

lemma wf_store_shard [simp]: "wf_store s \<Longrightarrow> wf_shard (shards s ! shard_index s k)"
  using shard_index_less by (auto simp: wf_store_def)

lemma wf_store_nth: "wf_store s \<Longrightarrow> i < length (shards s) \<Longrightarrow> wf_shard (shards s ! i)"
  by (simp add: wf_store_def)

lemma wf_store_lookup_value: "wf_store s \<Longrightarrow> lookup s k = Some e \<Longrightarrow> wf_value (evalue e)"
  unfolding lookup_def by (rule wf_shard_value [OF wf_store_shard])

lemma shard_index_cong: "smask s = smask s' \<Longrightarrow> shard_index s k = shard_index s' k"
  by (simp add: shard_index_def)

lemma smask_on_shard [simp]: "smask (fst (on_shard key f s)) = smask s"
  by (simp add: on_shard_def Let_def split: prod.split)

lemma shard_index_on_shard [simp]: "shard_index (fst (on_shard key f s)) k = shard_index s k"
  by (rule shard_index_cong) simp

lemma shards_on_shard:
  "shards (fst (on_shard key f s))
   = (shards s)[shard_index s key := fst (f (shards s ! shard_index s key))]"
  by (simp add: on_shard_def Let_def split: prod.split)

lemma snd_on_shard:
  "snd (on_shard key f s) = snd (f (shards s ! shard_index s key))"
  by (simp add: on_shard_def Let_def split: prod.split)

end
