(* ===== verification/Store_Contract.thy ===== *)
theory Store_Contract
  imports Store_Core
begin

section \<open>The store as one map, and the contract of a keyed operation\<close>

text \<open>
  The shards of a well formed store partition one map from keys to entries
  (\<open>all_entries\<close>, \<open>lookup\<close>); the byte count \<open>ApproxMemory\<close> returns is a
  function of that map. The locale \<open>keyed_op\<close> is the contract of an operation that
  locks one shard, \<open>kv_op\<close> adds the abstract function on \<open>entry option\<close> it
  implements, \<open>kv_read\<close> that it changes nothing a client can see.
\<close>

subsection \<open>Creating a store\<close>

lemma next_pow2_loop_pow:
  assumes "n \<le> 2 ^ m" and "k \<le> m" and "m \<le> 62" and "k = 0 \<or> 2 ^ (k - 1) < n"
  shows "\<exists>j \<le> m. next_pow2_loop (2 ^ k) n = Some (2 ^ j) \<and> n \<le> 2 ^ j \<and>
           (j = 0 \<or> 2 ^ (j - 1) < n)"
  using assms
proof (induction "m - k" arbitrary: k)
  case 0
  then show ?case by (auto simp: next_pow2_loop.simps)
next
  case (Suc d)
  show ?case
  proof (cases "(2 :: int) ^ k < n")
    case True
    have "Suc k \<le> m" using Suc by simp
    then have "(2 :: int) ^ Suc k \<le> 2 ^ 62"
      using Suc.prems by (intro power_increasing) auto
    then have "i64 (2 * 2 ^ k) = 2 ^ Suc k"
      by (intro trans [OF i64_id]) (auto simp: in_i64_def intro: order_trans [of _ 0])
    moreover have "\<exists>j \<le> m. next_pow2_loop (2 ^ Suc k) n = Some (2 ^ j) \<and> n \<le> 2 ^ j \<and>
        (j = 0 \<or> 2 ^ (j - 1) < n)"
      using Suc.hyps(2) Suc.prems True \<open>Suc k \<le> m\<close> by (intro Suc.hyps(1)) auto
    ultimately show ?thesis
      using True by (subst next_pow2_loop.simps) simp
  next
    case False
    with Suc.prems show ?thesis
      by (subst next_pow2_loop.simps) auto
  qed
qed

lemma next_pow2_Some:
  assumes "n \<le> 2 ^ 62"
  shows "\<exists>j \<le> 62. next_pow2 n = Some (2 ^ j) \<and> n \<le> 2 ^ j \<and> (j = 0 \<or> 2 ^ (j - 1) < n)"
proof (cases "n < 1")
  case True
  then show ?thesis by (auto simp: next_pow2_def intro!: exI [of _ 0])
next
  case False
  then show ?thesis
    using next_pow2_loop_pow [of n 62 0] assms by (simp add: next_pow2_def)
qed

lemma unat_word_of_int_le: "0 \<le> n \<Longrightarrow> unat (word_of_int n :: 32 word) \<le> nat n"
  by (simp only: unat_eq_nat_uint uint_word_of_int nat_mono zmod_le_nonneg_dividend)

lemma wf_store_new:
  assumes "new_store n = Inr s" and "n \<le> 2 ^ 62"
  shows "wf_store s" and "lookup s k = None"
proof -
  obtain j where j: "j \<le> 62" "next_pow2 n = Some (2 ^ j)"
    using next_pow2_Some [OF assms(2)] by blast
  then have s: "s = \<lparr>shards = replicate (nat (2 ^ j)) empty_shard,
                     smask = word_of_int (2 ^ j - 1)\<rparr>"
    using assms(1) by (simp add: new_store_def split: if_splits)
  have "unat (word_of_int (2 ^ j - 1) :: 32 word) \<le> nat (2 ^ j - 1)"
    by (rule unat_word_of_int_le) simp
  also have "\<dots> < nat (2 ^ j)" by simp
  finally show wf: "wf_store s" by (auto simp: wf_store_def s empty_shard_def [symmetric])
     (simp add: empty_shard_def)
  show "lookup s k = None"
    using shard_index_less [OF wf, of k] by (simp add: lookup_def s empty_shard_def)
qed

lemma new_store_returns:
  assumes "n \<le> max_make_pointers"
  obtains s j where "new_store n = Inr s" and "wf_store s" and "\<And>k. lookup s k = None"
    and "length (shards s) = 2 ^ j" and "n \<le> 2 ^ j" and "j = 0 \<or> 2 ^ (j - 1) < n"
proof -
  have n: "n \<le> 2 ^ 45" "n \<le> 2 ^ 62" using assms by (simp_all add: max_make_pointers_def)
  obtain j where j: "next_pow2 n = Some (2 ^ j)" "n \<le> 2 ^ j" "j = 0 \<or> 2 ^ (j - 1) < n"
    using next_pow2_Some [OF n(2)] by blast
  have "j \<le> 45"
  proof (rule ccontr)
    assume "\<not> j \<le> 45"
    then have "(2::int) ^ 45 \<le> 2 ^ (j - 1)" by (intro power_increasing) simp_all
    with \<open>\<not> j \<le> 45\<close> j(3) n(1) show False by simp
  qed
  then have "(2::int) ^ j \<le> 2 ^ 45" by (intro power_increasing) simp_all
  then obtain s where s: "new_store n = Inr s" "length (shards s) = nat (2 ^ j)"
    using j(1) by (simp add: new_store_def max_make_pointers_def)
  then show thesis using wf_store_new [OF s(1) n(2)] j by (intro that) (simp_all add: nat_power_eq)
qed

text \<open>The store of the server.\<close>

lemma new_store_256:
  obtains s where "new_store 256 = Inr s" and "wf_store s" and "\<And>k. lookup s k = None"
proof -
  have "(256::int) \<le> max_make_pointers" by (simp add: max_make_pointers_def)
  then show thesis by (rule new_store_returns) (rule that)
qed

subsection \<open>All entries of a store\<close>

definition all_entries :: "store \<Rightarrow> entry gomap" where
  "all_entries s = concat (map sdata (shards s))"

lemma distinct_concat_nth:
  assumes "\<And>i. i < length xss \<Longrightarrow> distinct (xss ! i)"
    and "\<And>i j. i < j \<Longrightarrow> j < length xss \<Longrightarrow> set (xss ! i) \<inter> set (xss ! j) = {}"
  shows "distinct (concat xss)"
  using assms
proof (induction xss)
  case Nil
  then show ?case by simp
next
  case (Cons xs xss)
  have "distinct (concat xss)"
  proof (rule Cons.IH)
    show "distinct (xss ! i)" if "i < length xss" for i
      using Cons.prems(1) [of "Suc i"] that by simp
    show "set (xss ! i) \<inter> set (xss ! j) = {}" if "i < j" "j < length xss" for i j
      using Cons.prems(2) [of "Suc i" "Suc j"] that by simp
  qed
  moreover have "set xs \<inter> set ys = {}" if "ys \<in> set xss" for ys
    using that Cons.prems(2) [of 0] by (force simp: in_set_conv_nth)
  ultimately show ?case using Cons.prems(1) [of 0] by auto
qed

lemma wf_store_place:
  "wf_store s \<Longrightarrow> i < length (shards s) \<Longrightarrow> k \<in> set (keys (sdata (shards s ! i))) \<Longrightarrow>
   shard_index s k = i"
  unfolding wf_store_def by blast

lemma wf_map_all_entries:
  assumes "wf_store s"
  shows "wf_map (all_entries s)"
proof -
  let ?xss = "map (keys \<circ> sdata) (shards s)"
  have "distinct (concat ?xss)"
  proof (rule distinct_concat_nth)
    show "distinct (?xss ! i)" if "i < length ?xss" for i
      using assms that by (auto simp: wf_store_def wf_shard_def)
    show "set (?xss ! i) \<inter> set (?xss ! j) = {}" if "i < j" "j < length ?xss" for i j
    proof -
      have place: "shard_index s k = l" if "l < length ?xss" "k \<in> set (?xss ! l)" for k l
        using wf_store_place [OF assms, of l k] that by simp
      have "i < length ?xss" using \<open>i < j\<close> \<open>j < length ?xss\<close> by linarith
      then show ?thesis
        using place [of i] place [of j] \<open>i < j\<close> \<open>j < length ?xss\<close>
        by (auto simp del: length_map nth_map)
    qed
  qed
  then show ?thesis by (simp add: all_entries_def map_concat comp_assoc)
qed

lemma in_all_entries:
  assumes "wf_store s"
  shows "(k, e) \<in> set (all_entries s) \<longleftrightarrow> lookup s k = Some e"
proof
  assume "(k, e) \<in> set (all_entries s)"
  then obtain i where i: "i < length (shards s)" "(k, e) \<in> set (sdata (shards s ! i))"
    by (auto simp: all_entries_def in_set_conv_nth) (metis in_set_conv_nth)
  then have "shard_index s k = i" "wf_map (sdata (shards s ! i))"
    using assms by (force simp: wf_store_def wf_shard_def)+
  with i show "lookup s k = Some e" by (simp add: lookup_def map_of_eq_Some_iff)
next
  assume "lookup s k = Some e"
  then show "(k, e) \<in> set (all_entries s)"
    using shard_index_less [OF assms, of k]
    by (auto simp: lookup_def all_entries_def dest!: map_of_in_set)
qed

lemma map_of_all_entries [simp]: "wf_store s \<Longrightarrow> map_of (all_entries s) = lookup s"
  by (rule ext) (metis in_all_entries map_of_eq_Some_iff not_Some_eq wf_map_all_entries)

lemma foldl_add_sum_list:
  "foldl (\<lambda>total x. total + f x) a xs = a + sum_list (map f xs)" for a :: "'a :: comm_monoid_add"
  by (induction xs arbitrary: a) (auto simp: add.assoc)

lemma sum_list_update_int:
  "i < length xs \<Longrightarrow> sum_list (xs[i := x]) = sum_list xs + (x - xs ! i)" for x :: int
  by (induction xs arbitrary: i) (auto split: nat.split)

lemma sum_list_concat_map: "sum_list (concat xss) = sum_list (map sum_list xss)"
  by (induction xss) simp_all

definition entries_memory :: "store \<Rightarrow> int" where
  "entries_memory s = map_sum entry_approx_memory (all_entries s)"

definition leaked_memory :: "store \<Rightarrow> int" where
  "leaked_memory s = sum_list (map memory_leak (shards s))"

text \<open>The count is the size of the entries plus what has leaked.\<close>

lemma approx_memory_leak: "approx_memory s = entries_memory s + leaked_memory s"
proof -
  have "entries_memory s = sum_list (map (\<lambda>sh. map_sum entry_approx_memory (sdata sh)) (shards s))"
    by (simp only: entries_memory_def all_entries_def map_sum_def map_concat
        sum_list_concat_map map_map comp_def)
  then show ?thesis
    by (simp add: approx_memory_def foldl_add_sum_list leaked_memory_def memory_leak_def
        sum_list_addf [symmetric])
qed

lemma leaked_memory_nonneg [simp]: "wf_store s \<Longrightarrow> 0 \<le> leaked_memory s"
  unfolding leaked_memory_def
  by (rule sum_list_nonneg) (auto simp: wf_store_def wf_shard_leak in_set_conv_nth)

lemma entries_memory_nonneg [simp]: "0 \<le> entries_memory s"
  by (simp add: entries_memory_def map_sum_nonneg)

lemma approx_memory_nonneg [simp]: "wf_store s \<Longrightarrow> 0 \<le> approx_memory s"
  by (simp add: approx_memory_leak)

definition opt_memory :: "bytes \<Rightarrow> entry option \<Rightarrow> int" where
  "opt_memory k eo = (case eo of None \<Rightarrow> 0 | Some e \<Rightarrow> entry_approx_memory k e)"

lemma opt_memory_simps [simp]:
  "opt_memory k None = 0"
  "opt_memory k (Some e) = entry_approx_memory k e"
  by (simp_all add: opt_memory_def)

lemma opt_memory_nonneg [simp]: "0 \<le> opt_memory k eo"
  by (simp add: opt_memory_def split: option.split)

text \<open>The size of the entries depends on the stored map only.\<close>

lemma entries_memory_cong:
  assumes "wf_store s" "wf_store s'" "lookup s' = lookup s"
  shows "entries_memory s' = entries_memory s"
proof -
  have "mset (all_entries s') = mset (all_entries s)"
    using assms by (intro mset_eq_of_map_of_eq) (simp_all add: wf_map_all_entries)
  then show ?thesis unfolding entries_memory_def by (rule map_sum_mset)
qed

lemma entries_memory_change:
  assumes "wf_store s" "wf_store s'" "lookup s' = (lookup s)(k := eo)"
  shows "entries_memory s' = entries_memory s - opt_memory k (lookup s k) + opt_memory k eo"
proof -
  let ?m = "all_entries s"
  let ?m' = "case eo of None \<Rightarrow> AList.delete k ?m | Some e \<Rightarrow> AList.update k e ?m"
  have "mset (all_entries s') = mset ?m'"
    using assms
    by (intro mset_eq_of_map_of_eq) (auto simp: wf_map_all_entries split: option.splits)
  then have "entries_memory s' = map_sum entry_approx_memory ?m'"
    unfolding entries_memory_def by (rule map_sum_mset)
  also have "\<dots> = map_sum entry_approx_memory ?m - opt_memory k (lookup s k) + opt_memory k eo"
    using wf_map_all_entries [OF assms(1)] assms(1)
    by (auto simp: map_sum_delete map_sum_update opt_memory_def split: option.splits)
  finally show ?thesis by (simp add: entries_memory_def)
qed

lemma opt_memory_le_entries:
  assumes "wf_store s"
  shows "opt_memory k (lookup s k) \<le> entries_memory s"
  using in_all_entries [OF assms, of k]
  by (cases "lookup s k") (auto simp: entries_memory_def intro: map_sum_ge_entry map_sum_nonneg)

subsection \<open>The contract of an operation on one key\<close>

locale keyed_op =
  fixes key :: bytes and f :: "shard \<Rightarrow> shard \<times> 'r"
  assumes wf_op: "wf_shard sh \<Longrightarrow> wf_shard (fst (f sh))"
    and leak_op: "wf_shard sh \<Longrightarrow> memory_leak sh \<le> memory_leak (fst (f sh))"
    and frame: "wf_shard sh \<Longrightarrow> k \<noteq> key \<Longrightarrow> map_of (sdata (fst (f sh))) k = map_of (sdata sh) k"
begin

lemma keys_op:
  assumes "wf_shard sh" and "k \<in> set (keys (sdata (fst (f sh))))"
  shows "k = key \<or> k \<in> set (keys (sdata sh))"
proof (rule disjCI)
  assume "k \<notin> set (keys (sdata sh))"
  then have "map_of (sdata sh) k = None" by (simp add: map_of_eq_None_iff)
  moreover have "map_of (sdata (fst (f sh))) k \<noteq> None"
    using assms(2) by (simp add: map_of_eq_None_iff)
  ultimately show "k = key" using frame [OF assms(1), of k] by force
qed

lemma wf_store_op:
  assumes "wf_store s"
  shows "wf_store (fst (on_shard key f s))"
  unfolding wf_store_def
proof (intro conjI allI impI ballI)
  let ?s' = "fst (on_shard key f s)" and ?j = "shard_index s key"
  show "unat (smask ?s') < length (shards ?s')"
    using assms by (simp add: wf_store_def shards_on_shard)
  fix i assume i: "i < length (shards ?s')"
  then have i': "i < length (shards s)" by (simp add: shards_on_shard)
  have j: "wf_shard (shards s ! ?j)" using assms by simp
  show "wf_shard (shards ?s' ! i)"
    using assms i' j by (cases "i = ?j") (auto simp: shards_on_shard wf_op wf_store_def)
  fix k assume "k \<in> set (keys (sdata (shards ?s' ! i)))"
  then show "shard_index ?s' k = i"
    using wf_store_place [OF assms i', of k] keys_op [OF j, of k] i' assms
    by (cases "i = ?j") (auto simp: shards_on_shard)
qed

lemma lookup_other:
  assumes "wf_store s" and "k \<noteq> key"
  shows "lookup (fst (on_shard key f s)) k = lookup s k"
  using assms frame [of "shards s ! shard_index s key" k] shard_index_less [OF assms(1)]
  by (cases "shard_index s k = shard_index s key")
     (simp_all add: lookup_def shards_on_shard nth_list_update)

lemma leaked_memory_on_shard:
  assumes "wf_store s"
  shows "leaked_memory (fst (on_shard key f s))
         = leaked_memory s + (memory_leak (fst (f (shards s ! shard_index s key)))
                              - memory_leak (shards s ! shard_index s key))"
  using shard_index_less [OF assms, of key] unfolding leaked_memory_def
  by (simp add: shards_on_shard map_update sum_list_update_int)

lemma leaked_memory_op: "wf_store s \<Longrightarrow> leaked_memory s \<le> leaked_memory (fst (on_shard key f s))"
  by (simp add: leaked_memory_on_shard leak_op)

lemma lookup_key:
  assumes "wf_store s"
  shows "lookup (fst (on_shard key f s)) key = map_of (sdata (fst (f (shards s ! shard_index s key)))) key"
  using assms by (simp add: lookup_def shards_on_shard)

end

text \<open>
  \<open>spec\<close> is what the operation does, as a function from what is live under its key at
  time \<open>now\<close> to what is stored there afterwards and the result.
\<close>

locale kv_op = keyed_op key f
  for key :: bytes and f :: "shard \<Rightarrow> shard \<times> 'r" +
  fixes now :: time and spec :: "entry option \<Rightarrow> entry option \<times> 'r"
  assumes refines_entry:
      "wf_shard sh \<Longrightarrow>
       map_of (sdata (fst (f sh))) key = fst (spec (live_at now (map_of (sdata sh) key)))"
    and refines_result:
      "wf_shard sh \<Longrightarrow> snd (f sh) = snd (spec (live_at now (map_of (sdata sh) key)))"
begin

theorem lookup_op:
  assumes "wf_store s"
  shows "lookup (fst (on_shard key f s)) = (lookup s)(key := fst (spec (live_at now (lookup s key))))"
proof
  fix k
  show "lookup (fst (on_shard key f s)) k
        = ((lookup s)(key := fst (spec (live_at now (lookup s key))))) k"
    using assms lookup_other [OF assms, of k] lookup_key [OF assms]
      refines_entry [of "shards s ! shard_index s key"]
    by (cases "k = key") (simp_all add: lookup_def)
qed

theorem result_op:
  assumes "wf_store s"
  shows "snd (on_shard key f s) = snd (spec (live_at now (lookup s key)))"
  using assms refines_result [of "shards s ! shard_index s key"]
  by (simp add: lookup_def snd_on_shard)

text \<open>Two stores with the same live contents cannot be told apart, and stay so.\<close>

lemma congruence:
  assumes "wf_store s" "wf_store r" and "live_at now (lookup s key) = live_at now (lookup r key)"
  shows "snd (on_shard key f s) = snd (on_shard key f r)"
    and "lookup (fst (on_shard key f s)) key = lookup (fst (on_shard key f r)) key"
  using assms by (simp_all add: result_op lookup_op)

lemma entries_memory_op:
  assumes "wf_store s"
  shows "entries_memory (fst (on_shard key f s))
         = entries_memory s - opt_memory key (lookup s key)
           + opt_memory key (fst (spec (live_at now (lookup s key))))"
  using entries_memory_change [OF assms wf_store_op [OF assms] lookup_op [OF assms]] .

end

text \<open>Operations that keep the byte count in step with the entries.\<close>

locale exact_op = kv_op +
  assumes leak_same: "wf_shard sh \<Longrightarrow> memory_leak (fst (f sh)) = memory_leak sh"
begin

lemma leaked_memory_same: "wf_store s \<Longrightarrow> leaked_memory (fst (on_shard key f s)) = leaked_memory s"
  by (simp add: leaked_memory_on_shard leak_same)

lemma approx_memory_op:
  assumes "wf_store s"
  shows "approx_memory (fst (on_shard key f s))
         = approx_memory s - opt_memory key (lookup s key)
           + opt_memory key (fst (spec (live_at now (lookup s key))))"
  using assms by (simp add: approx_memory_leak entries_memory_op leaked_memory_same)

end

text \<open>
  \<open>faded t s s'\<close>: \<open>s'\<close> is \<open>s\<close> without some entries that are dead at time \<open>t\<close>.
  Nothing a client can observe from \<open>t\<close> on tells them apart.
\<close>

definition faded :: "time \<Rightarrow> store \<Rightarrow> store \<Rightarrow> bool" where
  "faded t s s' \<longleftrightarrow>
     (\<forall>k. lookup s' k = lookup s k \<or> lookup s' k = None \<and> live_at t (lookup s k) = None)"

lemma faded_refl [simp]: "faded t s s"
  by (simp add: faded_def)

lemma faded_trans: "faded t a b \<Longrightarrow> faded t b c \<Longrightarrow> faded t a c"
  by (simp add: faded_def) metis

lemma live_at_None_mono: "live_at now eo = None \<Longrightarrow> now \<le> t \<Longrightarrow> live_at t eo = None"
  by (metis live_at_None live_at_live_at)

lemma faded_mono: "faded now s s' \<Longrightarrow> now \<le> t \<Longrightarrow> faded t s s'"
  unfolding faded_def using live_at_None_mono by blast

lemma faded_live: "faded t s s' \<Longrightarrow> live_at t (lookup s' k) = live_at t (lookup s k)"
  unfolding faded_def by (metis live_at_None)

lemma faded_lookup: "lookup s' = lookup s \<Longrightarrow> faded t s s'"
  by (simp add: faded_def)

context kv_op
begin

text \<open>An application of \<open>spec\<close> that leaves the entry as it is changes nothing observable.\<close>

lemma faded_op:
  assumes "wf_store s" and "now \<le> t"
    and "fst (spec (live_at now (lookup s key))) = live_at now (lookup s key)"
  shows "faded t s (fst (on_shard key f s))"
  using assms live_at_None_mono [of now "lookup s key" t]
  by (auto simp: faded_def lookup_op live_at_def split: option.splits if_splits)

end

locale kv_read = exact_op +
  assumes spec_read: "fst (spec eo) = eo"
begin

theorem read_only:
  assumes "wf_store s" and "now \<le> t"
  shows "faded t s (fst (on_shard key f s))"
  using assms by (intro faded_op) (simp_all add: spec_read)

end

end
