(* ===== verification/Store_Strings.thy ===== *)
theory Store_Strings
  imports Store_Contract
begin

section \<open>Strings, existence and expiration\<close>

text \<open>
  The rest of \<open>internal/store/store.go\<close> without the active cycle, and
  \<open>internal/store/string.go\<close>. Each operation is a function \<open>sh_\<dots>\<close> on the locked
  shard, in the order of the Go body, and the exported method is that function on the shard
  of the key. \<open>now\<close> is the reading of \<open>time.Now()\<close> the operation takes. The
  \<open>spec_\<dots>\<close> functions say what each operation does to the one entry it is about; the
  interpretations at the end prove that it does.
\<close>

subsection \<open>The operations\<close>

definition sh_set :: "bytes \<Rightarrow> bytes \<Rightarrow> shard \<Rightarrow> shard \<times> unit" where
  "sh_set key val sh =
     (set_entry key \<lparr>evalue = VString val, expire_at = zero_time\<rparr> sh, ())"

definition sh_set_ex :: "bytes \<Rightarrow> bytes \<Rightarrow> time \<Rightarrow> shard \<Rightarrow> shard \<times> unit" where
  "sh_set_ex key val at sh =
     (let e = \<lparr>evalue = VString val, expire_at = zero_time\<rparr>;
          e = (if \<not> is_zero at then e\<lparr>expire_at := at\<rparr> else e)
      in (set_entry key e sh, ()))"

text \<open>\<open>Get\<close> returns the value, absence, or the wrong type.\<close>

definition sh_get :: "bytes \<Rightarrow> time \<Rightarrow> shard \<Rightarrow> shard \<times> (store_err + bytes option)" where
  "sh_get key now sh =
     (let (sh, eo) = live_entry key now sh
      in case eo of
           None \<Rightarrow> (sh, Inr None)
         | Some e \<Rightarrow> (case evalue e of VString b \<Rightarrow> (sh, Inr (Some b)) | _ \<Rightarrow> (sh, Inl ErrWrongType)))"

definition sh_exists :: "bytes \<Rightarrow> time \<Rightarrow> shard \<Rightarrow> shard \<times> bool" where
  "sh_exists key now sh = (let (sh, eo) = live_entry key now sh in (sh, eo \<noteq> None))"

definition sh_del :: "bytes \<Rightarrow> time \<Rightarrow> shard \<Rightarrow> shard \<times> bool" where
  "sh_del key now sh =
     (case map_of (sdata sh) key of
        None \<Rightarrow> (sh, False)
      | Some e \<Rightarrow>
          let sh = fst (delete_entry key sh)
          in if entry_expired e now then (bump_expired sh, False) else (sh, True))"

definition sh_expire_at :: "bytes \<Rightarrow> time \<Rightarrow> time \<Rightarrow> shard \<Rightarrow> shard \<times> bool" where
  "sh_expire_at key at now sh =
     (let (sh, eo) = live_entry key now sh
      in case eo of
           None \<Rightarrow> (sh, False)
         | Some e \<Rightarrow> (put_entry key (e\<lparr>expire_at := at\<rparr>) sh, True))"

definition sh_persist :: "bytes \<Rightarrow> time \<Rightarrow> shard \<Rightarrow> shard \<times> bool" where
  "sh_persist key now sh =
     (let (sh, eo) = live_entry key now sh
      in case eo of
           None \<Rightarrow> (sh, False)
         | Some e \<Rightarrow>
             if is_zero (expire_at e) then (sh, False)
             else (put_entry key (e\<lparr>expire_at := zero_time\<rparr>) sh, True))"

text \<open>\<open>TTL\<close> returns the remaining time, whether the key exists and whether it expires.\<close>

definition sh_ttl :: "bytes \<Rightarrow> time \<Rightarrow> shard \<Rightarrow> shard \<times> (duration \<times> bool \<times> bool)" where
  "sh_ttl key now sh =
     (let (sh, eo) = live_entry key now sh
      in case eo of
           None \<Rightarrow> (sh, (0, False, False))
         | Some e \<Rightarrow>
             if is_zero (expire_at e) then (sh, (0, True, False))
             else (sh, (time_sub (expire_at e) now, True, True)))"

definition sh_entry_memory :: "bytes \<Rightarrow> time \<Rightarrow> shard \<Rightarrow> shard \<times> int" where
  "sh_entry_memory key now sh =
     (let (sh, eo) = live_entry key now sh
      in case eo of None \<Rightarrow> (sh, 0) | Some e \<Rightarrow> (sh, entry_approx_memory key e))"

definition incr_overflows :: "int \<Rightarrow> int \<Rightarrow> bool" where
  "incr_overflows n delta \<longleftrightarrow>
     (delta > 0 \<and> n > i64 (max_int64 - delta)) \<or> (delta < 0 \<and> n < i64 (min_int64 - delta))"

definition sh_incr_by :: "bytes \<Rightarrow> int \<Rightarrow> time \<Rightarrow> shard \<Rightarrow> shard \<times> (store_err + int)" where
  "sh_incr_by key delta now sh =
     (let (sh, eo) = live_entry key now sh;
          add = (\<lambda>sh e n.
            if incr_overflows n delta then (sh, Inl ErrNotInteger)
            else let n = i64 (n + delta);
                     before = entry_approx_memory key e;
                     sh = put_entry key (e\<lparr>evalue := VString (format_int n)\<rparr>) sh
                 in (refresh_entry_memory key before sh, Inr n))
      in case eo of
           Some e \<Rightarrow>
             (case evalue e of
                VString b \<Rightarrow>
                  (case parse_int b of None \<Rightarrow> (sh, Inl ErrNotInteger) | Some n \<Rightarrow> add sh e n)
              | _ \<Rightarrow> (sh, Inl ErrWrongType))
         | None \<Rightarrow>
             let e = \<lparr>evalue = VNil, expire_at = zero_time\<rparr> in add (set_entry key e sh) e 0)"

definition sh_set_nx :: "bytes \<Rightarrow> bytes \<Rightarrow> time \<Rightarrow> shard \<Rightarrow> shard \<times> bool" where
  "sh_set_nx key val now sh =
     (let (sh, eo) = live_entry key now sh
      in if eo \<noteq> None then (sh, False)
         else (set_entry key \<lparr>evalue = VString val, expire_at = zero_time\<rparr> sh, True))"

text \<open>The exported methods of \<open>Store\<close>.\<close>

definition store_set :: "bytes \<Rightarrow> bytes \<Rightarrow> store \<Rightarrow> store" where
  "store_set key val s = fst (on_shard key (sh_set key val) s)"

definition store_set_ex :: "bytes \<Rightarrow> bytes \<Rightarrow> time \<Rightarrow> store \<Rightarrow> store" where
  "store_set_ex key val at s = fst (on_shard key (sh_set_ex key val at) s)"

definition store_get :: "bytes \<Rightarrow> time \<Rightarrow> store \<Rightarrow> store \<times> (store_err + bytes option)" where
  "store_get key now = on_shard key (sh_get key now)"

definition store_exists :: "bytes \<Rightarrow> time \<Rightarrow> store \<Rightarrow> store \<times> bool" where
  "store_exists key now = on_shard key (sh_exists key now)"

definition store_del :: "bytes \<Rightarrow> time \<Rightarrow> store \<Rightarrow> store \<times> bool" where
  "store_del key now = on_shard key (sh_del key now)"

definition store_expire_at :: "bytes \<Rightarrow> time \<Rightarrow> time \<Rightarrow> store \<Rightarrow> store \<times> bool" where
  "store_expire_at key at now = on_shard key (sh_expire_at key at now)"

text \<open>\<open>Expire\<close> reads the clock for the deadline and \<open>ExpireAt\<close> reads it again.\<close>

definition store_expire :: "bytes \<Rightarrow> duration \<Rightarrow> time \<Rightarrow> time \<Rightarrow> store \<Rightarrow> store \<times> bool" where
  "store_expire key d now0 now1 = store_expire_at key (time_add now0 d) now1"

definition store_persist :: "bytes \<Rightarrow> time \<Rightarrow> store \<Rightarrow> store \<times> bool" where
  "store_persist key now = on_shard key (sh_persist key now)"

definition store_ttl :: "bytes \<Rightarrow> time \<Rightarrow> store \<Rightarrow> store \<times> (duration \<times> bool \<times> bool)" where
  "store_ttl key now = on_shard key (sh_ttl key now)"

definition store_entry_memory :: "bytes \<Rightarrow> time \<Rightarrow> store \<Rightarrow> store \<times> int" where
  "store_entry_memory key now = on_shard key (sh_entry_memory key now)"

definition store_incr_by :: "bytes \<Rightarrow> int \<Rightarrow> time \<Rightarrow> store \<Rightarrow> store \<times> (store_err + int)" where
  "store_incr_by key delta now = on_shard key (sh_incr_by key delta now)"

definition store_set_nx :: "bytes \<Rightarrow> bytes \<Rightarrow> time \<Rightarrow> store \<Rightarrow> store \<times> bool" where
  "store_set_nx key val now = on_shard key (sh_set_nx key val now)"

subsection \<open>What each operation does to its entry\<close>

definition string_entry :: "bytes \<Rightarrow> time \<Rightarrow> entry" where
  "string_entry val at = \<lparr>evalue = VString val, expire_at = at\<rparr>"

fun spec_get :: "entry option \<Rightarrow> entry option \<times> (store_err + bytes option)" where
  "spec_get None = (None, Inr None)"
| "spec_get (Some e) =
     (Some e, case evalue e of VString b \<Rightarrow> Inr (Some b) | _ \<Rightarrow> Inl ErrWrongType)"

fun spec_expire_at :: "time \<Rightarrow> entry option \<Rightarrow> entry option \<times> bool" where
  "spec_expire_at at None = (None, False)"
| "spec_expire_at at (Some e) = (Some (e\<lparr>expire_at := at\<rparr>), True)"

fun spec_persist :: "entry option \<Rightarrow> entry option \<times> bool" where
  "spec_persist None = (None, False)"
| "spec_persist (Some e) = (Some (e\<lparr>expire_at := zero_time\<rparr>), \<not> is_zero (expire_at e))"

fun spec_ttl :: "time \<Rightarrow> entry option \<Rightarrow> entry option \<times> (duration \<times> bool \<times> bool)" where
  "spec_ttl now None = (None, (0, False, False))"
| "spec_ttl now (Some e) =
     (Some e, if is_zero (expire_at e) then (0, True, False)
              else (time_sub (expire_at e) now, True, True))"

fun spec_incr_by :: "int \<Rightarrow> entry option \<Rightarrow> entry option \<times> (store_err + int)" where
  "spec_incr_by delta None = (Some (string_entry (format_int delta) zero_time), Inr delta)"
| "spec_incr_by delta (Some e) =
     (case evalue e of
        VString b \<Rightarrow>
          (case parse_int b of
             None \<Rightarrow> (Some e, Inl ErrNotInteger)
           | Some n \<Rightarrow>
               if in_i64 (n + delta)
               then (Some (e\<lparr>evalue := VString (format_int (n + delta))\<rparr>), Inr (n + delta))
               else (Some e, Inl ErrNotInteger))
      | _ \<Rightarrow> (Some e, Inl ErrWrongType))"

fun spec_set_nx :: "bytes \<Rightarrow> entry option \<Rightarrow> entry option \<times> bool" where
  "spec_set_nx val None = (Some (string_entry val zero_time), True)"
| "spec_set_nx val (Some e) = (Some e, False)"

text \<open>The guard of \<open>IncrBy\<close> is exact: it holds when the sum leaves the 64-bit range.\<close>

lemma incr_overflows_iff:
  assumes "in_i64 n" and "in_i64 delta"
  shows "incr_overflows n delta \<longleftrightarrow> \<not> in_i64 (n + delta)"
proof -
  have "i64 (max_int64 - delta) = max_int64 - delta" if "delta > 0"
    using that assms by (intro i64_id) (auto simp: in_i64_def)
  moreover have "i64 (min_int64 - delta) = min_int64 - delta" if "delta < 0"
    using that assms by (intro i64_id) (auto simp: in_i64_def)
  ultimately show ?thesis
    using assms by (cases "delta > 0"; cases "delta < 0") (auto simp: incr_overflows_def in_i64_def)
qed

lemma put_entry_same_value [simp]:
  "map_of (sdata sh) key = Some e \<Longrightarrow>
   put_entry key (e\<lparr>expire_at := at\<rparr>) sh = set_entry key (e\<lparr>expire_at := at\<rparr>) sh"
  by (rule put_entry_deadline) simp_all

declare refresh_put_entry [simp]

lemmas op_unfold = Let_def case_prod_unfold string_entry_def
lemmas op_splits = option.splits gvalue.splits if_splits

lemma fst_spec_get [simp]: "fst (spec_get eo) = eo"
  by (cases eo) simp_all

lemma fst_spec_ttl [simp]: "fst (spec_ttl now eo) = eo"
  by (cases eo) simp_all

lemma live_wf_value [intro]:
  "wf_shard sh \<Longrightarrow> live_at now (map_of (sdata sh) key) = Some e \<Longrightarrow> wf_value (evalue e)"
  by (auto dest!: live_at_SomeD wf_shard_value)

interpretation set: exact_op key "sh_set key val" now "\<lambda>eo. (Some (string_entry val zero_time), ())"
  for key val now
  by unfold_locales (auto simp: sh_set_def op_unfold)

interpretation set_ex: exact_op key "sh_set_ex key val at" now "\<lambda>eo. (Some (string_entry val at), ())"
  for key val at now
  by unfold_locales (auto simp: sh_set_ex_def op_unfold is_zero_def)

interpretation get: kv_read key "sh_get key now" now spec_get for key now
  by unfold_locales (auto simp: sh_get_def op_unfold split: op_splits)

interpretation present: kv_read key "sh_exists key now" now "\<lambda>eo. (eo, eo \<noteq> None)" for key now
  by unfold_locales (auto simp: sh_exists_def op_unfold)

interpretation del: exact_op key "sh_del key now" now "\<lambda>eo. (None, eo \<noteq> None)" for key now
  by unfold_locales (auto simp: sh_del_def op_unfold live_at_def split: op_splits)

interpretation expire_at: exact_op key "sh_expire_at key at now" now "spec_expire_at at"
  for key at now
  by unfold_locales
     (auto simp: sh_expire_at_def op_unfold intro!: wf_shard_set_entry split: op_splits)

interpretation persist: exact_op key "sh_persist key now" now spec_persist for key now
  by unfold_locales
     (auto simp: sh_persist_def op_unfold is_zero_def intro!: wf_shard_set_entry split: op_splits)

interpretation ttl: kv_read key "sh_ttl key now" now "spec_ttl now" for key now
  by unfold_locales (auto simp: sh_ttl_def op_unfold split: op_splits)

interpretation entry_memory:
  kv_read key "sh_entry_memory key now" now "\<lambda>eo. (eo, opt_memory key eo)" for key now
  by unfold_locales (auto simp: sh_entry_memory_def op_unfold split: op_splits)

interpretation set_nx: exact_op key "sh_set_nx key val now" now "spec_set_nx val" for key val now
  by unfold_locales (auto simp: sh_set_nx_def op_unfold split: op_splits)

interpretation incr_by: exact_op key "sh_incr_by key (i64 delta) now" now "spec_incr_by (i64 delta)"
  for key delta now
  by unfold_locales
     (auto simp: sh_incr_by_def op_unfold incr_overflows_iff dest: parse_int_range
       intro!: wf_shard_set_entry split: op_splits)

end
