(* ===== verification/Store_Lists.thy ===== *)
theory Store_Lists
  imports Store_Strings
begin

section \<open>Lists\<close>

text \<open>
  Models \<open>internal/store/list.go\<close>: pushes and pops at both ends, length and ranges. A
  list that becomes empty is removed with its key. \<open>LPush\<close> fills the front of one new
  slice from the right; \<open>lpush_prepend_eq\<close> shows that this is "push one by one".
\<close>

subsection \<open>The operations\<close>

definition sh_list_at :: "bytes \<Rightarrow> time \<Rightarrow> shard \<Rightarrow> shard \<times> (store_err + bytes list option)" where
  "sh_list_at key now sh =
     (let (sh, eo) = live_entry key now sh
      in case eo of
           None \<Rightarrow> (sh, Inr None)
         | Some e \<Rightarrow> (case evalue e of VList l \<Rightarrow> (sh, Inr (Some l)) | _ \<Rightarrow> (sh, Inl ErrWrongType)))"

text \<open>\<open>for i, v := range vals { newList[len(vals)-1-i] = v }\<close>, then \<open>copy\<close>.\<close>

fun fill_front :: "nat \<Rightarrow> nat \<Rightarrow> bytes list \<Rightarrow> bytes list \<Rightarrow> bytes list" where
  "fill_front n i [] new_list = new_list"
| "fill_front n i (v # vs) new_list = fill_front n (Suc i) vs (new_list[n - 1 - i := v])"

definition lpush_prepend :: "bytes list \<Rightarrow> bytes list \<Rightarrow> bytes list" where
  "lpush_prepend vals l =
     (let new_list = fill_front (length vals) 0 vals (replicate (length vals + length l) [])
      in take (length vals) new_list @ l)"

definition sh_lpush :: "bytes \<Rightarrow> bytes list \<Rightarrow> time \<Rightarrow> shard \<Rightarrow> shard \<times> (store_err + nat)" where
  "sh_lpush key vals now sh =
     (let (sh, eo) = live_entry key now sh;
          (sh, e) = (case eo of
              Some e \<Rightarrow> (sh, e)
            | None \<Rightarrow> let e = \<lparr>evalue = VList [], expire_at = zero_time\<rparr> in (set_entry key e sh, e))
      in case evalue e of
           VList l \<Rightarrow>
             let before = entry_approx_memory key e;
                 new_list = lpush_prepend vals l;
                 sh = put_entry key (e\<lparr>evalue := VList new_list\<rparr>) sh
             in (refresh_entry_memory key before sh, Inr (length new_list))
         | _ \<Rightarrow> (sh, Inl ErrWrongType))"

definition sh_rpush :: "bytes \<Rightarrow> bytes list \<Rightarrow> time \<Rightarrow> shard \<Rightarrow> shard \<times> (store_err + nat)" where
  "sh_rpush key vals now sh =
     (let (sh, eo) = live_entry key now sh;
          (sh, e) = (case eo of
              Some e \<Rightarrow> (sh, e)
            | None \<Rightarrow> let e = \<lparr>evalue = VList [], expire_at = zero_time\<rparr> in (set_entry key e sh, e))
      in case evalue e of
           VList l \<Rightarrow>
             let before = entry_approx_memory key e;
                 l = l @ vals;
                 sh = put_entry key (e\<lparr>evalue := VList l\<rparr>) sh
             in (refresh_entry_memory key before sh, Inr (length l))
         | _ \<Rightarrow> (sh, Inl ErrWrongType))"

text \<open>\<open>Inr None\<close> is \<open>nil, false, nil\<close>: no such list, or an empty one.\<close>

definition sh_lpop :: "bytes \<Rightarrow> time \<Rightarrow> shard \<Rightarrow> shard \<times> (store_err + bytes option)" where
  "sh_lpop key now sh =
     (let (sh, eo) = live_entry key now sh
      in case eo of
           None \<Rightarrow> (sh, Inr None)
         | Some e \<Rightarrow>
             (case evalue e of
                VList [] \<Rightarrow> (sh, Inr None)
              | VList (v # l) \<Rightarrow>
                  let before = entry_approx_memory key e
                  in if l = [] then (fst (delete_entry key sh), Inr (Some v))
                     else (refresh_entry_memory key before
                             (put_entry key (e\<lparr>evalue := VList l\<rparr>) sh), Inr (Some v))
              | _ \<Rightarrow> (sh, Inl ErrWrongType)))"

definition sh_rpop :: "bytes \<Rightarrow> time \<Rightarrow> shard \<Rightarrow> shard \<times> (store_err + bytes option)" where
  "sh_rpop key now sh =
     (let (sh, eo) = live_entry key now sh
      in case eo of
           None \<Rightarrow> (sh, Inr None)
         | Some e \<Rightarrow>
             (case evalue e of
                VList l \<Rightarrow>
                  if l = [] then (sh, Inr None)
                  else
                    let v = l ! (length l - 1);
                        before = entry_approx_memory key e;
                        l = take (length l - 1) l
                    in if l = [] then (fst (delete_entry key sh), Inr (Some v))
                       else (refresh_entry_memory key before
                               (put_entry key (e\<lparr>evalue := VList l\<rparr>) sh), Inr (Some v))
              | _ \<Rightarrow> (sh, Inl ErrWrongType)))"

definition sh_llen :: "bytes \<Rightarrow> time \<Rightarrow> shard \<Rightarrow> shard \<times> (store_err + nat)" where
  "sh_llen key now sh =
     (let (sh, r) = sh_list_at key now sh
      in case r of
           Inl err \<Rightarrow> (sh, Inl err)
         | Inr None \<Rightarrow> (sh, Inr 0)
         | Inr (Some l) \<Rightarrow> (sh, Inr (length l)))"

text \<open>The index arithmetic of \<open>LRange\<close>, on Go ints.\<close>

definition list_range :: "int \<Rightarrow> int \<Rightarrow> bytes list \<Rightarrow> bytes list" where
  "list_range start stop l =
     (let n = int (length l);
          start = (if start < 0 then i64 (start + n) else start);
          stop = (if stop < 0 then i64 (stop + n) else stop);
          start = (if start < 0 then 0 else start);
          stop = (if stop \<ge> n then n - 1 else stop)
      in if start > stop \<or> start \<ge> n then []
         else take (nat (stop - start + 1)) (drop (nat start) l))"

definition sh_lrange ::
  "bytes \<Rightarrow> int \<Rightarrow> int \<Rightarrow> time \<Rightarrow> shard \<Rightarrow> shard \<times> (store_err + bytes list)" where
  "sh_lrange key start stop now sh =
     (let (sh, r) = sh_list_at key now sh
      in case r of
           Inl err \<Rightarrow> (sh, Inl err)
         | Inr None \<Rightarrow> (sh, Inr [])
         | Inr (Some l) \<Rightarrow> (sh, Inr (list_range start stop l)))"

definition store_lpush :: "bytes \<Rightarrow> bytes list \<Rightarrow> time \<Rightarrow> store \<Rightarrow> store \<times> (store_err + nat)" where
  "store_lpush key vals now = on_shard key (sh_lpush key vals now)"

definition store_rpush :: "bytes \<Rightarrow> bytes list \<Rightarrow> time \<Rightarrow> store \<Rightarrow> store \<times> (store_err + nat)" where
  "store_rpush key vals now = on_shard key (sh_rpush key vals now)"

definition store_lpop :: "bytes \<Rightarrow> time \<Rightarrow> store \<Rightarrow> store \<times> (store_err + bytes option)" where
  "store_lpop key now = on_shard key (sh_lpop key now)"

definition store_rpop :: "bytes \<Rightarrow> time \<Rightarrow> store \<Rightarrow> store \<times> (store_err + bytes option)" where
  "store_rpop key now = on_shard key (sh_rpop key now)"

definition store_llen :: "bytes \<Rightarrow> time \<Rightarrow> store \<Rightarrow> store \<times> (store_err + nat)" where
  "store_llen key now = on_shard key (sh_llen key now)"

definition store_lrange ::
  "bytes \<Rightarrow> int \<Rightarrow> int \<Rightarrow> time \<Rightarrow> store \<Rightarrow> store \<times> (store_err + bytes list)" where
  "store_lrange key start stop now = on_shard key (sh_lrange key start stop now)"

subsection \<open>Pushing in one allocation\<close>

lemma fill_front_eq:
  "n = i + length vs \<Longrightarrow> length vs \<le> length buf \<Longrightarrow>
   fill_front n i vs buf = rev vs @ drop (length vs) buf"
proof (induction n i vs buf rule: fill_front.induct)
  case (1 n i buf)
  then show ?case by simp
next
  case (2 n i v vs buf)
  have "drop (length vs) (buf[length vs := v]) = v # drop (Suc (length vs)) buf"
    using 2 by (simp add: Cons_nth_drop_Suc [symmetric] drop_update_cancel)
  with 2 show ?case by simp
qed

lemma lpush_prepend_eq [simp]: "lpush_prepend vals l = rev vals @ l"
  by (simp add: lpush_prepend_def fill_front_eq)

lemma lpush_prepend_one_by_one: "lpush_prepend vals l = fold (\<lambda>v acc. v # acc) vals l"
  by (simp add: fold_Cons_rev)

subsection \<open>What each operation does to its entry\<close>

definition list_entry :: "bytes list \<Rightarrow> entry" where
  "list_entry l = \<lparr>evalue = VList l, expire_at = zero_time\<rparr>"

fun spec_push ::
  "(bytes list \<Rightarrow> bytes list) \<Rightarrow> entry option \<Rightarrow> entry option \<times> (store_err + nat)" where
  "spec_push g None = (Some (list_entry (g [])), Inr (length (g [])))"
| "spec_push g (Some e) =
     (case evalue e of
        VList l \<Rightarrow> (Some (e\<lparr>evalue := VList (g l)\<rparr>), Inr (length (g l)))
      | _ \<Rightarrow> (Some e, Inl ErrWrongType))"

fun spec_pop ::
  "(bytes list \<Rightarrow> bytes) \<Rightarrow> (bytes list \<Rightarrow> bytes list) \<Rightarrow>
   entry option \<Rightarrow> entry option \<times> (store_err + bytes option)" where
  "spec_pop get rest None = (None, Inr None)"
| "spec_pop get rest (Some e) =
     (case evalue e of
        VList l \<Rightarrow>
          if l = [] then (Some e, Inr None)
          else (if rest l = [] then None else Some (e\<lparr>evalue := VList (rest l)\<rparr>),
                Inr (Some (get l)))
      | _ \<Rightarrow> (Some e, Inl ErrWrongType))"

fun spec_list_read :: "'a \<Rightarrow> (bytes list \<Rightarrow> 'a) \<Rightarrow> entry option \<Rightarrow> entry option \<times> (store_err + 'a)" where
  "spec_list_read d g None = (None, Inr d)"
| "spec_list_read d g (Some e) =
     (Some e, case evalue e of VList l \<Rightarrow> Inr (g l) | _ \<Rightarrow> Inl ErrWrongType)"

lemma fst_spec_list_read [simp]: "fst (spec_list_read d g eo) = eo"
  by (cases eo) simp_all

interpretation lpush: exact_op key "sh_lpush key vals now" now "spec_push (\<lambda>l. rev vals @ l)"
  for key vals now
  by unfold_locales
     (auto simp: sh_lpush_def op_unfold list_entry_def intro!: wf_shard_set_entry split: op_splits)

interpretation rpush: exact_op key "sh_rpush key vals now" now "spec_push (\<lambda>l. l @ vals)"
  for key vals now
  by unfold_locales
     (auto simp: sh_rpush_def op_unfold list_entry_def intro!: wf_shard_set_entry split: op_splits)

interpretation lpop: exact_op key "sh_lpop key now" now "spec_pop hd tl" for key now
  by unfold_locales
     (auto simp: sh_lpop_def op_unfold intro!: wf_shard_set_entry split: op_splits list.splits)

interpretation rpop: exact_op key "sh_rpop key now" now "spec_pop last butlast" for key now
  by unfold_locales
     (auto simp: sh_rpop_def op_unfold last_conv_nth butlast_conv_take
       intro!: wf_shard_set_entry split: op_splits)

interpretation llen: kv_read key "sh_llen key now" now "spec_list_read 0 length" for key now
  by unfold_locales (auto simp: sh_llen_def sh_list_at_def op_unfold split: op_splits)

interpretation lrange: kv_read key "sh_lrange key start stop now" now
    "spec_list_read [] (list_range start stop)" for key start stop now
  by unfold_locales (auto simp: sh_lrange_def sh_list_at_def op_unfold split: op_splits)

end
