(* ===== verification/Store_Hashes.thy ===== *)
theory Store_Hashes
  imports Store_Strings
begin

section \<open>Hashes\<close>

text \<open>
  Models \<open>internal/store/hash.go\<close>. The Go map of a hash is shared with the entry, so
  \<open>HSet\<close> and \<open>HDel\<close> write it in place: when \<open>HDel\<close> removes the last field,
  \<open>deleteEntry\<close> measures the entry after its fields are gone and the shard's byte count
  keeps what they took (\<open>hdel\<close> is a \<open>kv_op\<close> but not an \<open>exact_op\<close>).
  \<open>HGetAll\<close> takes the iteration order of the map as a parameter.
\<close>

subsection \<open>The operations\<close>

definition sh_hash_at :: "bytes \<Rightarrow> time \<Rightarrow> shard \<Rightarrow> shard \<times> (store_err + bytes gomap option)" where
  "sh_hash_at key now sh =
     (let (sh, eo) = live_entry key now sh
      in case eo of
           None \<Rightarrow> (sh, Inr None)
         | Some e \<Rightarrow> (case evalue e of VHash h \<Rightarrow> (sh, Inr (Some h)) | _ \<Rightarrow> (sh, Inl ErrWrongType)))"

text \<open>\<open>True\<close> means the field is new.\<close>

definition sh_hset :: "bytes \<Rightarrow> bytes \<Rightarrow> bytes \<Rightarrow> time \<Rightarrow> shard \<Rightarrow> shard \<times> (store_err + bool)" where
  "sh_hset key field val now sh =
     (let (sh, eo) = live_entry key now sh;
          (sh, e) = (case eo of
              Some e \<Rightarrow> (sh, e)
            | None \<Rightarrow> let e = \<lparr>evalue = VHash [], expire_at = zero_time\<rparr> in (set_entry key e sh, e))
      in case evalue e of
           VHash h \<Rightarrow>
             let before = entry_approx_memory key e;
                 existed = (map_of h field \<noteq> None);
                 sh = put_entry key (e\<lparr>evalue := VHash (AList.update field val h)\<rparr>) sh
             in (refresh_entry_memory key before sh, Inr (\<not> existed))
         | _ \<Rightarrow> (sh, Inl ErrWrongType))"

definition sh_hget :: "bytes \<Rightarrow> bytes \<Rightarrow> time \<Rightarrow> shard \<Rightarrow> shard \<times> (store_err + bytes option)" where
  "sh_hget key field now sh =
     (let (sh, r) = sh_hash_at key now sh
      in case r of
           Inl err \<Rightarrow> (sh, Inl err)
         | Inr None \<Rightarrow> (sh, Inr None)
         | Inr (Some h) \<Rightarrow> (sh, Inr (map_of h field)))"

fun hdel_loop :: "bytes list \<Rightarrow> bytes gomap \<Rightarrow> nat \<Rightarrow> bytes gomap \<times> nat" where
  "hdel_loop [] h n = (h, n)"
| "hdel_loop (f # fs) h n =
     (if map_of h f \<noteq> None then hdel_loop fs (AList.delete f h) (Suc n) else hdel_loop fs h n)"

definition sh_hdel :: "bytes \<Rightarrow> bytes list \<Rightarrow> time \<Rightarrow> shard \<Rightarrow> shard \<times> (store_err + nat)" where
  "sh_hdel key flds now sh =
     (let (sh, eo) = live_entry key now sh
      in case eo of
           None \<Rightarrow> (sh, Inr 0)
         | Some e \<Rightarrow>
             (case evalue e of
                VHash h \<Rightarrow>
                  let before = entry_approx_memory key e;
                      (h, n) = hdel_loop flds h 0;
                      sh = put_entry key (e\<lparr>evalue := VHash h\<rparr>) sh
                  in if length h = 0 then (fst (delete_entry key sh), Inr n)
                     else (refresh_entry_memory key before sh, Inr n)
              | _ \<Rightarrow> (sh, Inl ErrWrongType)))"

definition hash_flatten :: "(bytes list \<Rightarrow> bytes list) \<Rightarrow> bytes gomap \<Rightarrow> bytes list" where
  "hash_flatten ord h = concat (map (\<lambda>(f, v). [f, v]) (go_range ord h))"

definition sh_hgetall ::
  "(bytes list \<Rightarrow> bytes list) \<Rightarrow> bytes \<Rightarrow> time \<Rightarrow> shard \<Rightarrow> shard \<times> (store_err + bytes list)" where
  "sh_hgetall ord key now sh =
     (let (sh, r) = sh_hash_at key now sh
      in case r of
           Inl err \<Rightarrow> (sh, Inl err)
         | Inr None \<Rightarrow> (sh, Inr [])
         | Inr (Some h) \<Rightarrow> (sh, Inr (hash_flatten ord h)))"

definition sh_hlen :: "bytes \<Rightarrow> time \<Rightarrow> shard \<Rightarrow> shard \<times> (store_err + nat)" where
  "sh_hlen key now sh =
     (let (sh, r) = sh_hash_at key now sh
      in case r of
           Inl err \<Rightarrow> (sh, Inl err)
         | Inr None \<Rightarrow> (sh, Inr 0)
         | Inr (Some h) \<Rightarrow> (sh, Inr (length h)))"

definition store_hset ::
  "bytes \<Rightarrow> bytes \<Rightarrow> bytes \<Rightarrow> time \<Rightarrow> store \<Rightarrow> store \<times> (store_err + bool)" where
  "store_hset key field val now = on_shard key (sh_hset key field val now)"

definition store_hget :: "bytes \<Rightarrow> bytes \<Rightarrow> time \<Rightarrow> store \<Rightarrow> store \<times> (store_err + bytes option)" where
  "store_hget key field now = on_shard key (sh_hget key field now)"

definition store_hdel :: "bytes \<Rightarrow> bytes list \<Rightarrow> time \<Rightarrow> store \<Rightarrow> store \<times> (store_err + nat)" where
  "store_hdel key flds now = on_shard key (sh_hdel key flds now)"

definition store_hgetall ::
  "(bytes list \<Rightarrow> bytes list) \<Rightarrow> bytes \<Rightarrow> time \<Rightarrow> store \<Rightarrow> store \<times> (store_err + bytes list)" where
  "store_hgetall ord key now = on_shard key (sh_hgetall ord key now)"

definition store_hlen :: "bytes \<Rightarrow> time \<Rightarrow> store \<Rightarrow> store \<times> (store_err + nat)" where
  "store_hlen key now = on_shard key (sh_hlen key now)"

subsection \<open>The removal loop\<close>

lemma hdel_loop_map:
  "map_of (fst (hdel_loop fs h n)) k = (if k \<in> set fs then None else map_of h k)"
  by (induction fs h n rule: hdel_loop.induct) auto

lemma hdel_loop_wf [simp]: "wf_map h \<Longrightarrow> wf_map (fst (hdel_loop fs h n))"
  by (induction fs h n rule: hdel_loop.induct) simp_all

text \<open>The count is the number of fields that went.\<close>

lemma hdel_loop_count: "snd (hdel_loop fs h n) = n + card {k \<in> set fs. map_of h k \<noteq> None}"
proof (induction fs h n rule: hdel_loop.induct)
  case (1 h n)
  then show ?case by simp
next
  case (2 f fs h n)
  show ?case
  proof (cases "map_of h f")
    case None
    then have "{k \<in> set (f # fs). map_of h k \<noteq> None} = {k \<in> set fs. map_of h k \<noteq> None}"
      by auto
    with 2(2) None show ?thesis by (simp del: set_simps)
  next
    case (Some v)
    let ?K = "{k \<in> set fs. map_of (AList.delete f h) k \<noteq> None}"
    have eq: "{k \<in> set (f # fs). map_of h k \<noteq> None} = insert f ?K"
      using Some by auto
    have "finite ?K" and "f \<notin> ?K" by auto
    then have "card {k \<in> set (f # fs). map_of h k \<noteq> None} = Suc (card ?K)"
      unfolding eq by (rule card_insert_disjoint)
    moreover have "snd (hdel_loop (f # fs) h n) = Suc n + card ?K"
      using 2(1) Some by simp
    ultimately show ?thesis by linarith
  qed
qed

lemma map_sum_hdel_loop:
  assumes "wf_map h" and nonneg: "\<And>k v. 0 \<le> g k v"
  shows "map_sum g (fst (hdel_loop fs h n)) \<le> map_sum g h"
  using assms(1)
proof (induction fs h n rule: hdel_loop.induct)
  case (1 h n)
  then show ?case by simp
next
  case (2 f fs h n)
  have "map_sum g (AList.delete f h) \<le> map_sum g h"
    using 2 nonneg by (simp add: map_sum_delete split: option.split)
  then show ?case
    using 2 by (cases "map_of h f") auto
qed

subsection \<open>What each operation does to its entry\<close>

definition hash_entry :: "bytes gomap \<Rightarrow> entry" where
  "hash_entry h = \<lparr>evalue = VHash h, expire_at = zero_time\<rparr>"

fun spec_hset :: "bytes \<Rightarrow> bytes \<Rightarrow> entry option \<Rightarrow> entry option \<times> (store_err + bool)" where
  "spec_hset field val None = (Some (hash_entry [(field, val)]), Inr True)"
| "spec_hset field val (Some e) =
     (case evalue e of
        VHash h \<Rightarrow> (Some (e\<lparr>evalue := VHash (AList.update field val h)\<rparr>), Inr (map_of h field = None))
      | _ \<Rightarrow> (Some e, Inl ErrWrongType))"

fun spec_hdel :: "bytes list \<Rightarrow> entry option \<Rightarrow> entry option \<times> (store_err + nat)" where
  "spec_hdel flds None = (None, Inr 0)"
| "spec_hdel flds (Some e) =
     (case evalue e of
        VHash h \<Rightarrow>
          (let (h', n) = hdel_loop flds h 0
           in (if h' = [] then None else Some (e\<lparr>evalue := VHash h'\<rparr>), Inr n))
      | _ \<Rightarrow> (Some e, Inl ErrWrongType))"

fun spec_hash_read ::
  "'a \<Rightarrow> (bytes gomap \<Rightarrow> 'a) \<Rightarrow> entry option \<Rightarrow> entry option \<times> (store_err + 'a)" where
  "spec_hash_read d g None = (None, Inr d)"
| "spec_hash_read d g (Some e) =
     (Some e, case evalue e of VHash h \<Rightarrow> Inr (g h) | _ \<Rightarrow> Inl ErrWrongType)"

lemma fst_spec_hash_read [simp]: "fst (spec_hash_read d g eo) = eo"
  by (cases eo) simp_all

lemma live_wf_hash:
  "wf_shard sh \<Longrightarrow> live_at now (map_of (sdata sh) key) = Some e \<Longrightarrow> evalue e = VHash h \<Longrightarrow> wf_map h"
  using live_wf_value by fastforce

lemma hdel_entry_memory_le:
  assumes "wf_shard sh" "live_at now (map_of (sdata sh) key) = Some e" "evalue e = VHash h"
  shows "entry_approx_memory key (e\<lparr>evalue := VHash (fst (hdel_loop fs h n))\<rparr>)
         \<le> entry_approx_memory key e"
  using map_sum_hdel_loop [OF live_wf_hash [OF assms]] assms(3)
  by (simp add: entry_approx_memory_def)

lemma entry_memory_empty_hash [simp]:
  "entry_approx_memory key (e\<lparr>evalue := VHash []\<rparr>) \<le> entry_approx_memory key e"
  by (simp add: entry_approx_memory_def)

interpretation hset: exact_op key "sh_hset key field val now" now "spec_hset field val"
  for key field val now
  by unfold_locales
     (auto simp: sh_hset_def op_unfold hash_entry_def live_wf_hash
       intro!: wf_shard_set_entry split: op_splits)

lemma sh_hdel_cases:
  assumes "wf_shard sh"
  shows "wf_shard (fst (sh_hdel key flds now sh))"
    and "memory_leak sh \<le> memory_leak (fst (sh_hdel key flds now sh))"
    and "map_of (sdata (fst (sh_hdel key flds now sh)))
         = (map_of (sdata sh))(key := fst (spec_hdel flds (live_at now (map_of (sdata sh) key))))"
    and "snd (sh_hdel key flds now sh)
         = snd (spec_hdel flds (live_at now (map_of (sdata sh) key)))"
proof -
  note d = delete_put_live [OF assms]
  note mem = hdel_entry_memory_le [OF assms]
  show "wf_shard (fst (sh_hdel key flds now sh))"
    using assms d mem
    by (auto simp: sh_hdel_def op_unfold live_wf_hash intro!: wf_shard_set_entry split: op_splits)
  show "memory_leak sh \<le> memory_leak (fst (sh_hdel key flds now sh))"
    using assms d mem by (auto simp: sh_hdel_def op_unfold split: op_splits)
  show "map_of (sdata (fst (sh_hdel key flds now sh)))
         = (map_of (sdata sh))(key := fst (spec_hdel flds (live_at now (map_of (sdata sh) key))))"
    using assms by (auto simp: sh_hdel_def op_unfold split: op_splits)
  show "snd (sh_hdel key flds now sh)
         = snd (spec_hdel flds (live_at now (map_of (sdata sh) key)))"
    by (auto simp: sh_hdel_def op_unfold split: op_splits)
qed

interpretation hdel: kv_op key "sh_hdel key flds now" now "spec_hdel flds"
  for key flds now
  by unfold_locales (simp_all add: sh_hdel_cases)

interpretation hget: kv_read key "sh_hget key field now" now
    "spec_hash_read None (\<lambda>h. map_of h field)" for key field now
  by unfold_locales (auto simp: sh_hget_def sh_hash_at_def op_unfold split: op_splits)

interpretation hgetall: kv_read key "sh_hgetall ord key now" now
    "spec_hash_read [] (hash_flatten ord)" for ord key now
  by unfold_locales (auto simp: sh_hgetall_def sh_hash_at_def op_unfold split: op_splits)

interpretation hlen: kv_read key "sh_hlen key now" now "spec_hash_read 0 length" for key now
  by unfold_locales (auto simp: sh_hlen_def sh_hash_at_def op_unfold split: op_splits)

end
