(* ===== verification/Store_Sets.thy ===== *)
theory Store_Sets
  imports Store_Strings
begin

section \<open>Sets\<close>

text \<open>
  Models \<open>internal/store/set.go\<close>. The Go map \<open>map[string]struct{}\<close> is the list of
  its members without repetitions. As with hashes, \<open>SRem\<close> of the last member leaves
  the members' bytes in the shard's count. \<open>SMembers\<close> takes the iteration order as a
  parameter.
\<close>

subsection \<open>The operations\<close>

definition sh_set_at :: "bytes \<Rightarrow> time \<Rightarrow> shard \<Rightarrow> shard \<times> (store_err + bytes list option)" where
  "sh_set_at key now sh =
     (let (sh, eo) = live_entry key now sh
      in case eo of
           None \<Rightarrow> (sh, Inr None)
         | Some e \<Rightarrow> (case evalue e of VSet ms \<Rightarrow> (sh, Inr (Some ms)) | _ \<Rightarrow> (sh, Inl ErrWrongType)))"

fun sadd_loop :: "bytes list \<Rightarrow> bytes list \<Rightarrow> nat \<Rightarrow> bytes list \<times> nat" where
  "sadd_loop [] ms n = (ms, n)"
| "sadd_loop (x # xs) ms n =
     (if x \<notin> set ms then sadd_loop xs (ms @ [x]) (Suc n) else sadd_loop xs ms n)"

definition sh_sadd :: "bytes \<Rightarrow> bytes list \<Rightarrow> time \<Rightarrow> shard \<Rightarrow> shard \<times> (store_err + nat)" where
  "sh_sadd key members now sh =
     (let (sh, eo) = live_entry key now sh;
          (sh, e) = (case eo of
              Some e \<Rightarrow> (sh, e)
            | None \<Rightarrow> let e = \<lparr>evalue = VSet [], expire_at = zero_time\<rparr> in (set_entry key e sh, e))
      in case evalue e of
           VSet ms \<Rightarrow>
             let before = entry_approx_memory key e;
                 (ms, n) = sadd_loop members ms 0;
                 sh = put_entry key (e\<lparr>evalue := VSet ms\<rparr>) sh
             in (refresh_entry_memory key before sh, Inr n)
         | _ \<Rightarrow> (sh, Inl ErrWrongType))"

fun srem_loop :: "bytes list \<Rightarrow> bytes list \<Rightarrow> nat \<Rightarrow> bytes list \<times> nat" where
  "srem_loop [] ms n = (ms, n)"
| "srem_loop (x # xs) ms n =
     (if x \<in> set ms then srem_loop xs (removeAll x ms) (Suc n) else srem_loop xs ms n)"

definition sh_srem :: "bytes \<Rightarrow> bytes list \<Rightarrow> time \<Rightarrow> shard \<Rightarrow> shard \<times> (store_err + nat)" where
  "sh_srem key members now sh =
     (let (sh, eo) = live_entry key now sh
      in case eo of
           None \<Rightarrow> (sh, Inr 0)
         | Some e \<Rightarrow>
             (case evalue e of
                VSet ms \<Rightarrow>
                  let before = entry_approx_memory key e;
                      (ms, n) = srem_loop members ms 0;
                      sh = put_entry key (e\<lparr>evalue := VSet ms\<rparr>) sh
                  in if length ms = 0 then (fst (delete_entry key sh), Inr n)
                     else (refresh_entry_memory key before sh, Inr n)
              | _ \<Rightarrow> (sh, Inl ErrWrongType)))"

definition sh_sismember :: "bytes \<Rightarrow> bytes \<Rightarrow> time \<Rightarrow> shard \<Rightarrow> shard \<times> (store_err + bool)" where
  "sh_sismember key member now sh =
     (let (sh, r) = sh_set_at key now sh
      in case r of
           Inl err \<Rightarrow> (sh, Inl err)
         | Inr None \<Rightarrow> (sh, Inr False)
         | Inr (Some ms) \<Rightarrow> (sh, Inr (member \<in> set ms)))"

definition sh_smembers ::
  "(bytes list \<Rightarrow> bytes list) \<Rightarrow> bytes \<Rightarrow> time \<Rightarrow> shard \<Rightarrow> shard \<times> (store_err + bytes list)" where
  "sh_smembers ord key now sh =
     (let (sh, r) = sh_set_at key now sh
      in case r of
           Inl err \<Rightarrow> (sh, Inl err)
         | Inr None \<Rightarrow> (sh, Inr [])
         | Inr (Some ms) \<Rightarrow> (sh, Inr (ord ms)))"

definition sh_scard :: "bytes \<Rightarrow> time \<Rightarrow> shard \<Rightarrow> shard \<times> (store_err + nat)" where
  "sh_scard key now sh =
     (let (sh, r) = sh_set_at key now sh
      in case r of
           Inl err \<Rightarrow> (sh, Inl err)
         | Inr None \<Rightarrow> (sh, Inr 0)
         | Inr (Some ms) \<Rightarrow> (sh, Inr (length ms)))"

definition store_sadd :: "bytes \<Rightarrow> bytes list \<Rightarrow> time \<Rightarrow> store \<Rightarrow> store \<times> (store_err + nat)" where
  "store_sadd key members now = on_shard key (sh_sadd key members now)"

definition store_srem :: "bytes \<Rightarrow> bytes list \<Rightarrow> time \<Rightarrow> store \<Rightarrow> store \<times> (store_err + nat)" where
  "store_srem key members now = on_shard key (sh_srem key members now)"

definition store_sismember :: "bytes \<Rightarrow> bytes \<Rightarrow> time \<Rightarrow> store \<Rightarrow> store \<times> (store_err + bool)" where
  "store_sismember key member now = on_shard key (sh_sismember key member now)"

definition store_smembers ::
  "(bytes list \<Rightarrow> bytes list) \<Rightarrow> bytes \<Rightarrow> time \<Rightarrow> store \<Rightarrow> store \<times> (store_err + bytes list)" where
  "store_smembers ord key now = on_shard key (sh_smembers ord key now)"

definition store_scard :: "bytes \<Rightarrow> time \<Rightarrow> store \<Rightarrow> store \<times> (store_err + nat)" where
  "store_scard key now = on_shard key (sh_scard key now)"

subsection \<open>The loops\<close>

lemma sadd_loop_set: "set (fst (sadd_loop xs ms n)) = set ms \<union> set xs"
  by (induction xs ms n rule: sadd_loop.induct) auto

lemma sadd_loop_distinct [simp]: "distinct ms \<Longrightarrow> distinct (fst (sadd_loop xs ms n))"
  by (induction xs ms n rule: sadd_loop.induct) auto

text \<open>\<open>SAdd\<close> counts how much the set grows.\<close>

lemma sadd_loop_count: "length (fst (sadd_loop xs ms n)) + n = length ms + snd (sadd_loop xs ms n)"
  by (induction xs ms n rule: sadd_loop.induct) auto

lemma srem_loop_set: "set (fst (srem_loop xs ms n)) = set ms - set xs"
  by (induction xs ms n rule: srem_loop.induct) auto

lemma srem_loop_distinct [simp]: "distinct ms \<Longrightarrow> distinct (fst (srem_loop xs ms n))"
  by (induction xs ms n rule: srem_loop.induct) (auto simp: distinct_removeAll)

text \<open>\<open>SRem\<close> counts how much the set shrinks.\<close>

lemma srem_loop_count:
  "distinct ms \<Longrightarrow> length (fst (srem_loop xs ms n)) + snd (srem_loop xs ms n) = length ms + n"
proof (induction xs ms n rule: srem_loop.induct)
  case (1 ms n)
  then show ?case by simp
next
  case (2 x xs ms n)
  have "Suc (length (removeAll x ms)) = length ms" if "x \<in> set ms"
    using that 2(3) by (simp add: distinct_remove1_removeAll [symmetric] length_remove1)
       (metis length_pos_if_in_set Suc_pred)
  with 2 show ?case by (auto simp: distinct_removeAll)
qed

lemma removeAll_size_le:
  "sum_list (map (\<lambda>m. int (length m)) (removeAll x ms)) \<le> sum_list (map (\<lambda>m. int (length m)) ms)"
  by (induction ms) auto

lemma srem_loop_size_le:
  "sum_list (map (\<lambda>m. int (length m)) (fst (srem_loop xs ms n)))
   \<le> sum_list (map (\<lambda>m. int (length m)) ms)"
proof (induction xs ms n rule: srem_loop.induct)
  case (1 ms n)
  then show ?case by simp
next
  case (2 x xs ms n)
  then show ?case using removeAll_size_le [of x ms] by auto
qed

lemma sadd_loop_size_le:
  "sum_list (map (\<lambda>m. int (length m)) (fst (sadd_loop xs ms n)))
   \<le> sum_list (map (\<lambda>m. int (length m)) ms) + sum_list (map (\<lambda>m. int (length m)) xs)"
proof (induction xs ms n rule: sadd_loop.induct)
  case (1 ms n)
  then show ?case by simp
next
  case (2 x xs ms n)
  then show ?case by auto
qed

subsection \<open>What each operation does to its entry\<close>

definition set_entry_of :: "bytes list \<Rightarrow> entry" where
  "set_entry_of ms = \<lparr>evalue = VSet ms, expire_at = zero_time\<rparr>"

fun spec_sadd :: "bytes list \<Rightarrow> entry option \<Rightarrow> entry option \<times> (store_err + nat)" where
  "spec_sadd members None =
     (let (ms, n) = sadd_loop members [] 0 in (Some (set_entry_of ms), Inr n))"
| "spec_sadd members (Some e) =
     (case evalue e of
        VSet ms \<Rightarrow> (let (ms', n) = sadd_loop members ms 0 in (Some (e\<lparr>evalue := VSet ms'\<rparr>), Inr n))
      | _ \<Rightarrow> (Some e, Inl ErrWrongType))"

fun spec_srem :: "bytes list \<Rightarrow> entry option \<Rightarrow> entry option \<times> (store_err + nat)" where
  "spec_srem members None = (None, Inr 0)"
| "spec_srem members (Some e) =
     (case evalue e of
        VSet ms \<Rightarrow>
          (let (ms', n) = srem_loop members ms 0
           in (if ms' = [] then None else Some (e\<lparr>evalue := VSet ms'\<rparr>), Inr n))
      | _ \<Rightarrow> (Some e, Inl ErrWrongType))"

fun spec_set_read ::
  "'a \<Rightarrow> (bytes list \<Rightarrow> 'a) \<Rightarrow> entry option \<Rightarrow> entry option \<times> (store_err + 'a)" where
  "spec_set_read d g None = (None, Inr d)"
| "spec_set_read d g (Some e) =
     (Some e, case evalue e of VSet ms \<Rightarrow> Inr (g ms) | _ \<Rightarrow> Inl ErrWrongType)"

lemma fst_spec_set_read [simp]: "fst (spec_set_read d g eo) = eo"
  by (cases eo) simp_all

lemma live_wf_set:
  "wf_shard sh \<Longrightarrow> live_at now (map_of (sdata sh) key) = Some e \<Longrightarrow> evalue e = VSet ms \<Longrightarrow> distinct ms"
  using live_wf_value by fastforce

lemma entry_memory_empty_set [simp]:
  "entry_approx_memory key (e\<lparr>evalue := VSet []\<rparr>) \<le> entry_approx_memory key e"
  by (simp add: entry_approx_memory_def)

interpretation sadd: exact_op key "sh_sadd key members now" now "spec_sadd members"
  for key members now
  by unfold_locales
     (auto simp: sh_sadd_def op_unfold set_entry_of_def live_wf_set
       intro!: wf_shard_set_entry split: op_splits)

lemma sh_srem_cases:
  assumes "wf_shard sh"
  shows "wf_shard (fst (sh_srem key members now sh))"
    and "memory_leak sh \<le> memory_leak (fst (sh_srem key members now sh))"
    and "map_of (sdata (fst (sh_srem key members now sh)))
         = (map_of (sdata sh))(key := fst (spec_srem members (live_at now (map_of (sdata sh) key))))"
    and "snd (sh_srem key members now sh)
         = snd (spec_srem members (live_at now (map_of (sdata sh) key)))"
proof -
  note d = delete_put_live [OF assms]
  show "wf_shard (fst (sh_srem key members now sh))"
    using assms d
    by (auto simp: sh_srem_def op_unfold live_wf_set intro!: wf_shard_set_entry split: op_splits)
  show "memory_leak sh \<le> memory_leak (fst (sh_srem key members now sh))"
    using assms d by (auto simp: sh_srem_def op_unfold split: op_splits)
  show "map_of (sdata (fst (sh_srem key members now sh)))
         = (map_of (sdata sh))(key := fst (spec_srem members (live_at now (map_of (sdata sh) key))))"
    using assms by (auto simp: sh_srem_def op_unfold split: op_splits)
  show "snd (sh_srem key members now sh)
         = snd (spec_srem members (live_at now (map_of (sdata sh) key)))"
    by (auto simp: sh_srem_def op_unfold split: op_splits)
qed

interpretation srem: kv_op key "sh_srem key members now" now "spec_srem members"
  for key members now
  by unfold_locales (simp_all add: sh_srem_cases)

interpretation sismember: kv_read key "sh_sismember key member now" now
    "spec_set_read False (\<lambda>ms. member \<in> set ms)" for key member now
  by unfold_locales (auto simp: sh_sismember_def sh_set_at_def op_unfold split: op_splits)

interpretation smembers: kv_read key "sh_smembers ord key now" now "spec_set_read [] ord"
  for ord key now
  by unfold_locales (auto simp: sh_smembers_def sh_set_at_def op_unfold split: op_splits)

interpretation scard: kv_read key "sh_scard key now" now "spec_set_read 0 length" for key now
  by unfold_locales (auto simp: sh_scard_def sh_set_at_def op_unfold split: op_splits)

end
