(* ===== verification/Store_Admin.thy ===== *)
theory Store_Admin
  imports Store_Strings
begin

section \<open>Whole-store operations and active expiration\<close>

text \<open>
  Models \<open>internal/store/admin.go\<close> (\<open>Type\<close>, \<open>Keys\<close>, \<open>Len\<close>, \<open>Flush\<close>) and
  \<open>ActiveExpireCycle\<close>/\<open>expireShard\<close> of \<open>store.go\<close>. A loop over all shards
  and, inside, over each shard's map visits the entries in the order
  \<open>range_store\<close> lists them; the order inside a map is a parameter. \<open>path.Match\<close> of
  the standard library is the parameter \<open>glob\<close>: \<open>None\<close> is \<open>ErrBadPattern\<close>.
  The rounds of \<open>expireShard\<close> lock the shard one at a time; they are run here without
  another client's operation between them.
\<close>

subsection \<open>The operations\<close>

fun value_type_name :: "gvalue \<Rightarrow> bytes" where
  "value_type_name (VString _) = ''string''"
| "value_type_name (VList _) = ''list''"
| "value_type_name (VHash _) = ''hash''"
| "value_type_name (VSet _) = ''set''"
| "value_type_name VNil = ''none''"

definition sh_type :: "bytes \<Rightarrow> time \<Rightarrow> shard \<Rightarrow> shard \<times> bytes" where
  "sh_type key now sh =
     (let (sh, eo) = live_entry key now sh
      in case eo of None \<Rightarrow> (sh, ''none'') | Some e \<Rightarrow> (sh, value_type_name (evalue e)))"

definition store_type :: "bytes \<Rightarrow> time \<Rightarrow> store \<Rightarrow> store \<times> bytes" where
  "store_type key now = on_shard key (sh_type key now)"

definition range_store :: "(nat \<Rightarrow> bytes list \<Rightarrow> bytes list) \<Rightarrow> store \<Rightarrow> entry gomap" where
  "range_store ord s =
     concat (map (\<lambda>i. go_range (ord i) (sdata (shards s ! i))) [0..<length (shards s)])"

fun keys_loop ::
  "(bytes \<Rightarrow> bytes \<Rightarrow> bool option) \<Rightarrow> bytes \<Rightarrow> time \<Rightarrow> entry gomap \<Rightarrow> bytes list \<Rightarrow> bytes list option"
where
  "keys_loop glob pattern now [] out = Some out"
| "keys_loop glob pattern now ((k, e) # rest) out =
     (if entry_expired e now then keys_loop glob pattern now rest out
      else case glob pattern k of
             None \<Rightarrow> None
           | Some True \<Rightarrow> keys_loop glob pattern now rest (out @ [k])
           | Some False \<Rightarrow> keys_loop glob pattern now rest out)"

definition store_keys ::
  "(nat \<Rightarrow> bytes list \<Rightarrow> bytes list) \<Rightarrow> (bytes \<Rightarrow> bytes \<Rightarrow> bool option) \<Rightarrow>
   bytes \<Rightarrow> time \<Rightarrow> store \<Rightarrow> bytes list option" where
  "store_keys ord glob pattern now s = keys_loop glob pattern now (range_store ord s) []"

fun len_loop :: "time \<Rightarrow> entry gomap \<Rightarrow> nat \<Rightarrow> nat" where
  "len_loop now [] n = n"
| "len_loop now ((k, e) # rest) n =
     len_loop now rest (if \<not> entry_expired e now then Suc n else n)"

definition store_len :: "(nat \<Rightarrow> bytes list \<Rightarrow> bytes list) \<Rightarrow> time \<Rightarrow> store \<Rightarrow> nat" where
  "store_len ord now s = len_loop now (range_store ord s) 0"

definition store_flush :: "store \<Rightarrow> store" where
  "store_flush s =
     s\<lparr>shards := map (\<lambda>sh. sh\<lparr>sdata := [], used_memory := 0\<rparr>) (shards s)\<rparr>"

abbreviation expire_sample_size :: nat where "expire_sample_size \<equiv> 20"

text \<open>One pass over the map: the shard, how many keys with a deadline it looked at, how many
  of them it removed.\<close>

fun expire_loop :: "time \<Rightarrow> entry gomap \<Rightarrow> shard \<Rightarrow> nat \<Rightarrow> nat \<Rightarrow> shard \<times> nat \<times> nat" where
  "expire_loop now [] sh sampled expired = (sh, sampled, expired)"
| "expire_loop now ((k, e) # rest) sh sampled expired =
     (if is_zero (expire_at e) then expire_loop now rest sh sampled expired
      else
        let sampled = Suc sampled;
            (sh, expired) =
              (if entry_expired e now then (bump_expired (fst (delete_entry k sh)), Suc expired)
               else (sh, expired))
        in if sampled \<ge> expire_sample_size then (sh, sampled, expired)
           else expire_loop now rest sh sampled expired)"

text \<open>\<open>n\<close> rounds are left; \<open>ord\<close> gives the iteration order of each.\<close>

primrec expire_rounds :: "nat \<Rightarrow> (nat \<Rightarrow> bytes list \<Rightarrow> bytes list) \<Rightarrow> time \<Rightarrow> shard \<Rightarrow> shard" where
  "expire_rounds 0 ord now sh = sh"
| "expire_rounds (Suc n) ord now sh =
     (let (sh, sampled, expired) = expire_loop now (go_range (ord n) (sdata sh)) sh 0 0
      in if sampled = 0 \<or> expired * 4 < sampled then sh else expire_rounds n ord now sh)"

abbreviation max_rounds :: nat where "max_rounds \<equiv> 16"

definition expire_shard :: "(nat \<Rightarrow> bytes list \<Rightarrow> bytes list) \<Rightarrow> time \<Rightarrow> shard \<Rightarrow> shard" where
  "expire_shard ord now sh = expire_rounds max_rounds ord now sh"

definition active_expire_cycle ::
  "(nat \<Rightarrow> nat \<Rightarrow> bytes list \<Rightarrow> bytes list) \<Rightarrow> (nat \<Rightarrow> time) \<Rightarrow> store \<Rightarrow> store" where
  "active_expire_cycle ord now s =
     s\<lparr>shards := map (\<lambda>i. expire_shard (ord i) (now i) (shards s ! i)) [0..<length (shards s)]\<rparr>"

subsection \<open>Type, keys, length, flush\<close>

interpretation type_op: kv_read key "sh_type key now" now
    "\<lambda>eo. (eo, case eo of None \<Rightarrow> ''none'' | Some e \<Rightarrow> value_type_name (evalue e))" for key now
  by unfold_locales (auto simp: sh_type_def op_unfold split: op_splits)

lemma mset_range_store [simp]:
  assumes "wf_store s" and "\<And>i. valid_order (ord i)"
  shows "mset (range_store ord s) = mset (all_entries s)"
proof -
  have "map (\<lambda>i. mset (go_range (ord i) (sdata (shards s ! i)))) [0..<length (shards s)]
        = map (\<lambda>i. mset (sdata (shards s ! i))) [0..<length (shards s)]"
    using wf_store_nth [OF assms(1)] assms(2)
    by (intro map_cong [OF refl] mset_go_range wf_shard_map) auto
  also have "\<dots> = map (mset \<circ> sdata) (shards s)"
    by (rule nth_equalityI) auto
  finally show ?thesis
    by (simp add: range_store_def all_entries_def mset_concat comp_def)
qed

lemma set_range_store [simp]:
  "wf_store s \<Longrightarrow> (\<And>i. valid_order (ord i)) \<Longrightarrow> set (range_store ord s) = set (all_entries s)"
  by (metis mset_range_store set_mset_mset)

lemma distinct_keys_range_store [simp]:
  assumes "wf_store s" and "\<And>i. valid_order (ord i)"
  shows "wf_map (range_store ord s)"
proof -
  have "mset (keys (range_store ord s)) = mset (keys (all_entries s))"
    by (simp only: mset_map mset_range_store [OF assms])
  from mset_eq_imp_distinct_iff [OF this] wf_map_all_entries [OF assms(1)]
  show ?thesis by simp
qed

lemma keys_loop_Some:
  "keys_loop glob pattern now m out = Some ks \<Longrightarrow>
   ks = out @ map fst (filter (\<lambda>(k, e). \<not> entry_expired e now \<and> glob pattern k = Some True) m)"
  by (induction glob pattern now m out rule: keys_loop.induct)
     (auto split: if_splits option.splits bool.splits)

lemma keys_loop_None:
  "keys_loop glob pattern now m out = None \<longleftrightarrow>
   (\<exists>(k, e) \<in> set m. \<not> entry_expired e now \<and> glob pattern k = None)"
  by (induction glob pattern now m out rule: keys_loop.induct) (auto split: option.splits bool.splits)

lemma len_loop_eq: "len_loop now m n = n + length (filter (\<lambda>(k, e). \<not> entry_expired e now) m)"
  by (induction now m n rule: len_loop.induct) auto

definition live_keys :: "time \<Rightarrow> store \<Rightarrow> bytes set" where
  "live_keys now s = {k. live_at now (lookup s k) \<noteq> None}"

lemma live_keys_iff:
  assumes "wf_store s"
  shows "k \<in> live_keys now s \<longleftrightarrow> (\<exists>e. (k, e) \<in> set (all_entries s) \<and> \<not> entry_expired e now)"
  by (auto simp: live_keys_def in_all_entries [OF assms] live_at_def split: option.splits)

lemma wf_store_flush: "wf_store s \<Longrightarrow> wf_store (store_flush s)"
  by (auto simp: wf_store_def store_flush_def wf_shard_def memory_leak_def)

lemma lookup_flush [simp]: "wf_store s \<Longrightarrow> lookup (store_flush s) k = None"
  using shard_index_less [of s k]
  by (simp add: lookup_def store_flush_def shard_index_def)

lemma approx_memory_flush [simp]: "approx_memory (store_flush s) = 0"
  by (simp add: approx_memory_def foldl_add_sum_list store_flush_def comp_def)

subsection \<open>Active expiration\<close>

text \<open>\<open>thinned now sh sh'\<close>: \<open>sh'\<close> is \<open>sh\<close> without some entries that had expired.\<close>

definition thinned :: "time \<Rightarrow> shard \<Rightarrow> shard \<Rightarrow> bool" where
  "thinned now sh sh' \<longleftrightarrow>
     wf_shard sh' \<and> memory_leak sh' = memory_leak sh \<and>
     (\<forall>k. map_of (sdata sh') k = map_of (sdata sh) k \<or>
          map_of (sdata sh') k = None \<and>
          (\<exists>e. map_of (sdata sh) k = Some e \<and> entry_expired e now))"

lemma thinned_refl [simp]: "wf_shard sh \<Longrightarrow> thinned now sh sh"
  by (simp add: thinned_def)

lemma thinnedE:
  assumes "thinned now sh sh'"
  obtains "map_of (sdata sh') k = map_of (sdata sh) k"
  | e where "map_of (sdata sh') k = None" and "map_of (sdata sh) k = Some e"
      and "entry_expired e now"
proof -
  from assms have "\<forall>k. map_of (sdata sh') k = map_of (sdata sh) k \<or>
    map_of (sdata sh') k = None \<and> (\<exists>e. map_of (sdata sh) k = Some e \<and> entry_expired e now)"
    unfolding thinned_def by (elim conjE)
  from spec [OF this, of k] that show thesis by (elim disjE conjE exE)
qed

lemma thinned_trans: "thinned now a b \<Longrightarrow> thinned now b c \<Longrightarrow> thinned now a c"
  by (simp add: thinned_def) metis

lemma thinned_none:
  assumes "thinned now sh sh'" and "map_of (sdata sh) k = None"
  shows "map_of (sdata sh') k = None"
  using assms by (cases rule: thinnedE [where k = k]) auto

lemma thinned_delete:
  assumes "wf_shard sh" and "\<And>e. map_of (sdata sh) k = Some e \<Longrightarrow> entry_expired e now"
  shows "thinned now sh (bump_expired (fst (delete_entry k sh)))"
  using assms by (cases "map_of (sdata sh) k") (auto simp: thinned_def)

text \<open>What the pass does with one entry that has a deadline.\<close>

definition visit :: "time \<Rightarrow> bytes \<Rightarrow> entry \<Rightarrow> shard \<Rightarrow> shard" where
  "visit now k e sh = (if entry_expired e now then bump_expired (fst (delete_entry k sh)) else sh)"

lemma expire_loop_visit:
  "expire_loop now ((k, e) # rest) sh sampled expired =
     (if is_zero (expire_at e) then expire_loop now rest sh sampled expired
      else let x = (if entry_expired e now then Suc expired else expired)
        in if Suc sampled \<ge> expire_sample_size then (visit now k e sh, Suc sampled, x)
           else expire_loop now rest (visit now k e sh) (Suc sampled) x)"
  by (simp add: visit_def Let_def)

lemma expire_loop_none:
  "map_of (sdata sh) k = None \<Longrightarrow>
   map_of (sdata (fst (expire_loop now m sh sampled expired))) k = None"
  by (induction now m sh sampled expired rule: expire_loop.induct) (auto simp: Let_def)

text \<open>The map never disagrees with the entries still to be visited.\<close>

lemma expire_loop_thinned:
  assumes "wf_shard sh" and "wf_map m"
    and "\<And>k e e'. (k, e) \<in> set m \<Longrightarrow> map_of (sdata sh) k = Some e' \<Longrightarrow> e' = e"
  shows "thinned now sh (fst (expire_loop now m sh sampled expired))"
  using assms
proof (induction m arbitrary: sh sampled expired)
  case (Cons p rest)
  obtain k e where p: "p = (k, e)" by force
  let ?sh = "visit now k e sh"
  have t: "thinned now sh ?sh"
    using Cons.prems(1,3) p unfolding visit_def by (force intro!: thinned_delete)
  have agree: "e2 = e1" if "(k', e1) \<in> set rest" "map_of (sdata ?sh) k' = Some e2" for k' e1 e2
    using that Cons.prems(3) [of k' e1 e2] by (auto simp: visit_def split: if_splits)
  have "thinned now sh (fst (expire_loop now rest sh sampled expired))"
    using Cons.prems by (intro Cons.IH) auto
  moreover have "thinned now ?sh (fst (expire_loop now rest ?sh n x))" for n x
    using t Cons.prems(2) agree by (intro Cons.IH) (auto simp: thinned_def)
  ultimately show ?case
    using t thinned_trans [OF t] by (simp add: p expire_loop_visit Let_def del: expire_loop.simps(2))
qed simp

lemma expire_round_thinned:
  assumes "wf_shard sh" and "valid_order ord"
  shows "thinned now sh (fst (expire_loop now (go_range ord (sdata sh)) sh 0 0))"
  using assms
  by (intro expire_loop_thinned)
     (auto simp: wf_shard_map distinct_valid_order map_of_eq_Some_iff dest: eq_key_imp_eq_value)

lemma expire_rounds_thinned:
  assumes "wf_shard sh" and "\<And>i. valid_order (ord i)"
  shows "thinned now sh (expire_rounds n ord now sh)"
  using assms(1)
proof (induction n arbitrary: sh)
  case 0
  then show ?case by simp
next
  case (Suc n)
  let ?r = "expire_loop now (go_range (ord n) (sdata sh)) sh 0 0"
  have t: "thinned now sh (fst ?r)" using Suc.prems assms(2) by (rule expire_round_thinned)
  then have "wf_shard (fst ?r)" by (simp add: thinned_def)
  from Suc.IH [OF this] t have "thinned now sh (expire_rounds n ord now (fst ?r))"
    by (rule thinned_trans [rotated])
  with t show ?case by (simp add: Let_def case_prod_unfold)
qed

text \<open>Removing entries that have expired changes nothing a later operation can see.\<close>

lemma thinned_live:
  assumes "thinned now sh sh'" and "now \<le> t"
  shows "live_at t (map_of (sdata sh') k) = live_at t (map_of (sdata sh) k)"
  using assms(1)
  by (cases rule: thinnedE [where k = k])
     (use assms(2) in \<open>simp_all add: live_at_Some entry_expired_mono\<close>)

lemma thinned_keys: "thinned now sh sh' \<Longrightarrow> set (keys (sdata sh')) \<subseteq> set (keys (sdata sh))"
proof
  fix k assume t: "thinned now sh sh'" and "k \<in> set (keys (sdata sh'))"
  then have "map_of (sdata sh') k \<noteq> None" by (simp add: map_of_eq_None_iff)
  with thinned_none [OF t, of k] have "map_of (sdata sh) k \<noteq> None" by blast
  then show "k \<in> set (keys (sdata sh))" by (simp add: map_of_eq_None_iff)
qed

text \<open>The same for a whole store; each shard may have its own reading of the clock.\<close>

definition thinned_store :: "(nat \<Rightarrow> time) \<Rightarrow> store \<Rightarrow> store \<Rightarrow> bool" where
  "thinned_store now s s' \<longleftrightarrow>
     smask s' = smask s \<and> length (shards s') = length (shards s) \<and>
     (\<forall>i < length (shards s). thinned (now i) (shards s ! i) (shards s' ! i))"

lemma thinned_storeD:
  assumes "thinned_store now s s'"
  shows thinned_store_mask: "smask s' = smask s"
    and thinned_store_length: "length (shards s') = length (shards s)"
    and thinned_store_shard:
      "i < length (shards s) \<Longrightarrow> thinned (now i) (shards s ! i) (shards s' ! i)"
    and thinned_store_index: "shard_index s' k = shard_index s k"
  using assms by (auto simp: thinned_store_def shard_index_def)

lemma wf_store_thinned:
  assumes wf: "wf_store s" and t: "thinned_store now s s'"
  shows "wf_store s'"
  unfolding wf_store_def
proof (intro conjI allI impI ballI)
  show "unat (smask s') < length (shards s')"
    using wf by (simp add: wf_store_def thinned_storeD [OF t])
  fix i assume "i < length (shards s')"
  then have i: "i < length (shards s)" by (simp add: thinned_store_length [OF t])
  note ti = thinned_store_shard [OF t i]
  then show "wf_shard (shards s' ! i)" by (simp add: thinned_def)
  fix k assume "k \<in> set (keys (sdata (shards s' ! i)))"
  with thinned_keys [OF ti] have "k \<in> set (keys (sdata (shards s ! i)))" by blast
  then show "shard_index s' k = i"
    using wf_store_place [OF wf i] by (simp add: thinned_store_index [OF t])
qed

lemma live_at_thinned:
  assumes "wf_store s" and "thinned_store now s s'" and "\<And>i. now i \<le> t"
  shows "live_at t (lookup s' k) = live_at t (lookup s k)"
  using thinned_live [OF thinned_store_shard [OF assms(2) shard_index_less [OF assms(1)]] assms(3)]
  by (simp add: lookup_def thinned_store_index [OF assms(2)])

lemma faded_thinned:
  assumes "wf_store s" and "thinned_store now s s'" and "\<And>i. now i \<le> t"
  shows "faded t s s'"
  unfolding faded_def
proof
  fix k
  let ?i = "shard_index s k"
  have t: "thinned (now ?i) (shards s ! ?i) (shards s' ! ?i)"
    using assms(1,2) by (intro thinned_store_shard) simp_all
  then show "lookup s' k = lookup s k \<or> lookup s' k = None \<and> live_at t (lookup s k) = None"
    using assms(3) [of ?i]
    by (cases rule: thinnedE [where k = k])
      (simp_all add: lookup_def thinned_store_index [OF assms(2)] live_at_Some entry_expired_mono)
qed

lemma leaked_memory_thinned:
  assumes "wf_store s" and "thinned_store now s s'"
  shows "leaked_memory s' = leaked_memory s"
proof -
  have "map memory_leak (shards s') = map memory_leak (shards s)"
    using assms by (intro nth_equalityI) (auto simp: thinned_store_def thinned_def)
  then show ?thesis by (simp add: leaked_memory_def)
qed

lemma thinned_store_cycle:
  assumes "wf_store s" and "\<And>i j. valid_order (ord i j)"
  shows "thinned_store now s (active_expire_cycle ord now s)"
  using assms wf_store_nth [OF assms(1)]
  by (auto simp: thinned_store_def active_expire_cycle_def expire_shard_def
      intro!: expire_rounds_thinned)

lemmas wf_store_cycle = wf_store_thinned [OF _ thinned_store_cycle]
lemmas live_at_cycle = live_at_thinned [OF _ thinned_store_cycle]

subsection \<open>One round is enough for a small shard\<close>

definition has_deadline :: "entry \<Rightarrow> bool" where
  "has_deadline e \<longleftrightarrow> \<not> is_zero (expire_at e)"

lemma expired_has_deadline: "entry_expired e now \<Longrightarrow> has_deadline e"
  by (simp add: entry_expired_def has_deadline_def)

definition deadlines :: "entry gomap \<Rightarrow> nat" where
  "deadlines m = length (filter (\<lambda>(k, e). has_deadline e) m)"

lemma deadlines_simps [simp]:
  "deadlines [] = 0"
  "deadlines ((k, e) # m) = (if has_deadline e then Suc (deadlines m) else deadlines m)"
  by (simp_all add: deadlines_def)

lemma deadlines_zero: "deadlines m = 0 \<Longrightarrow> (k, e) \<in> set m \<Longrightarrow> \<not> entry_expired e now"
  using expired_has_deadline by (auto simp: deadlines_def filter_empty_conv)

lemma deadlines_mset: "mset m = mset m' \<Longrightarrow> deadlines m = deadlines m'"
  unfolding deadlines_def by (metis mset_filter size_mset)

text \<open>Within the sample size, the loop visits every key with a deadline.\<close>

lemma expire_loop_complete:
  assumes "sampled + deadlines m \<le> expire_sample_size"
    and "(k, e) \<in> set m" and "entry_expired e now"
  shows "map_of (sdata (fst (expire_loop now m sh sampled expired))) k = None"
  using assms
proof (induction m arbitrary: sh sampled expired)
  case (Cons p rest)
  obtain k' e' where p: "p = (k', e')" by force
  let ?sh = "visit now k' e' sh"
  have gone: "map_of (sdata ?sh) k = None" if "(k, e) = (k', e')"
    using that Cons.prems(3) by (simp add: visit_def)
  have nz: "\<not> is_zero (expire_at e)" using Cons.prems(3) by (simp add: entry_expired_def)
  have rest: "map_of (sdata (fst (expire_loop now rest ?sh (Suc sampled) x))) k = None"
    if "\<not> is_zero (expire_at e')" for x
  proof (cases "(k, e) \<in> set rest")
    case True
    then show ?thesis using that Cons.prems(1,3) p by (intro Cons.IH) (simp_all add: has_deadline_def)
  next
    case False
    then show ?thesis using Cons.prems(2) p gone by (intro expire_loop_none) auto
  qed
  have full: "(k, e) = (k', e')" if "\<not> is_zero (expire_at e')" "Suc sampled \<ge> expire_sample_size"
    using that Cons.prems p deadlines_zero [of rest] by (auto simp: has_deadline_def)
  have "map_of (sdata (fst (expire_loop now rest sh sampled expired))) k = None"
    if "is_zero (expire_at e')"
    using that Cons.prems p nz by (intro Cons.IH) (auto simp: has_deadline_def)
  then show ?case
    using rest gone full by (simp add: p expire_loop_visit Let_def del: expire_loop.simps(2))
qed simp

text \<open>
  A shard with at most 20 keys that have a deadline is clean after one cycle, whatever the
  iteration order.
\<close>

lemma expire_shard_complete:
  assumes "wf_shard sh" and ord: "\<And>i. valid_order (ord i)"
    and "deadlines (sdata sh) \<le> expire_sample_size"
    and "map_of (sdata (expire_shard ord now sh)) k = Some e"
  shows "\<not> entry_expired e now"
proof
  assume exp: "entry_expired e now"
  let ?r = "expire_loop now (go_range (ord 15) (sdata sh)) sh 0 0"
  have wf: "wf_shard (fst ?r)"
    using expire_round_thinned [OF assms(1) ord] by (simp add: thinned_def)
  have t: "thinned now sh (expire_shard ord now sh)"
    unfolding expire_shard_def using assms(1) ord by (rule expire_rounds_thinned)
  have "map_of (sdata sh) k = Some e"
    using t assms(4) by (cases rule: thinnedE [where k = k]) simp_all
  then have "(k, e) \<in> set (go_range (ord 15) (sdata sh))"
    unfolding set_go_range [OF wf_shard_map [OF assms(1)] ord] by (rule map_of_in_set)
  moreover have "deadlines (go_range (ord 15) (sdata sh)) = deadlines (sdata sh)"
    using assms(1) ord by (intro deadlines_mset mset_go_range) (simp_all add: wf_shard_map)
  ultimately have none: "map_of (sdata (fst ?r)) k = None"
    using exp assms(3) by (intro expire_loop_complete) auto
  have "expire_shard ord now sh = fst ?r \<or> expire_shard ord now sh = expire_rounds 15 ord now (fst ?r)"
  proof -
    have "max_rounds = Suc 15" by simp
    then show ?thesis
      by (simp only: expire_shard_def expire_rounds.simps(2) Let_def case_prod_unfold) simp
  qed
  moreover have "map_of (sdata (expire_rounds 15 ord now (fst ?r))) k = None"
    using expire_rounds_thinned [OF wf ord] none by (rule thinned_none)
  ultimately show False using none assms(4) by auto
qed

end
