(* ===== verification/Store_Snapshot.thy ===== *)
theory Store_Snapshot
  imports Store_Lists Store_Hashes Store_Sets Store_Admin
begin

section \<open>Snapshots of the store in memory\<close>

text \<open>
  Models \<open>internal/store/snapshot.go\<close>: \<open>Snapshot\<close> copies the live entries out (and
  removes the expired ones it meets), \<open>Restore\<close> replaces the contents of a store.
  The abstract state \<open>abs_store\<close> is what a client can observe at a point in time: hashes
  and sets without their order. \<open>snapshot_represents\<close> and \<open>restore_live_range\<close> state
  that restoring a snapshot gives the observable state back.

  Copies of byte slices are values here, so \<open>cloneBytes\<close> and \<open>cloneByteSlices\<close> are
  the identity on contents. The order in which a hash or a set is copied is a parameter that
  may depend on the key.
\<close>

subsection \<open>Snapshot\<close>

abbreviation value_string :: char where "value_string \<equiv> CHR ''S''"
abbreviation value_list :: char where "value_list \<equiv> CHR ''L''"
abbreviation value_hash :: char where "value_hash \<equiv> CHR ''H''"
abbreviation value_set :: char where "value_set \<equiv> CHR ''T''"

record snap_entry =
  snap_key :: bytes
  snap_type :: char
  snap_expire_at :: time
  snap_value :: bytes
  snap_list :: "bytes list"
  snap_hash :: "bytes gomap"
  snap_set :: "bytes list"

definition clone_bytes :: "bytes \<Rightarrow> bytes" where
  "clone_bytes b = b"

definition clone_byte_slices :: "bytes list \<Rightarrow> bytes list" where
  "clone_byte_slices l = map clone_bytes l"

definition clone_hash :: "(bytes list \<Rightarrow> bytes list) \<Rightarrow> bytes gomap \<Rightarrow> bytes gomap" where
  "clone_hash ord h = foldl (\<lambda>out (k, v). AList.update k (clone_bytes v) out) [] (go_range ord h)"

definition clone_set :: "(bytes list \<Rightarrow> bytes list) \<Rightarrow> bytes list \<Rightarrow> bytes list" where
  "clone_set ord ms = ord ms"

definition empty_snap :: snap_entry where
  "empty_snap = \<lparr>snap_key = [], snap_type = CHR 0x00, snap_expire_at = zero_time, snap_value = [],
                 snap_list = [], snap_hash = [], snap_set = []\<rparr>"

definition snapshot_entry ::
  "(bytes list \<Rightarrow> bytes list) \<Rightarrow> bytes \<Rightarrow> entry \<Rightarrow> snap_entry option" where
  "snapshot_entry ord key e =
     (let out = empty_snap\<lparr>snap_key := key, snap_expire_at := expire_at e\<rparr>
      in case evalue e of
           VString v \<Rightarrow> Some (out\<lparr>snap_type := value_string, snap_value := clone_bytes v\<rparr>)
         | VList l \<Rightarrow> Some (out\<lparr>snap_type := value_list, snap_list := clone_byte_slices l\<rparr>)
         | VHash h \<Rightarrow> Some (out\<lparr>snap_type := value_hash, snap_hash := clone_hash ord h\<rparr>)
         | VSet ms \<Rightarrow> Some (out\<lparr>snap_type := value_set, snap_set := clone_set ord ms\<rparr>)
         | VNil \<Rightarrow> None)"

text \<open>The inner loop over one shard's map, then the loop over the shards.\<close>

fun snapshot_loop ::
  "time \<Rightarrow> (bytes \<Rightarrow> bytes list \<Rightarrow> bytes list) \<Rightarrow> entry gomap \<Rightarrow> shard \<Rightarrow> snap_entry list \<Rightarrow>
   shard \<times> snap_entry list" where
  "snapshot_loop now vord [] sh out = (sh, out)"
| "snapshot_loop now vord ((k, e) # rest) sh out =
     (if entry_expired e now
      then snapshot_loop now vord rest (bump_expired (fst (delete_entry k sh))) out
      else case snapshot_entry (vord k) k e of
             Some se \<Rightarrow> snapshot_loop now vord rest sh (out @ [se])
           | None \<Rightarrow> snapshot_loop now vord rest sh out)"

fun snapshot_shards ::
  "time \<Rightarrow> (nat \<Rightarrow> bytes list \<Rightarrow> bytes list) \<Rightarrow> (bytes \<Rightarrow> bytes list \<Rightarrow> bytes list) \<Rightarrow> nat \<Rightarrow>
   shard list \<Rightarrow> snap_entry list \<Rightarrow> shard list \<times> snap_entry list" where
  "snapshot_shards now ord vord i [] out = ([], out)"
| "snapshot_shards now ord vord i (sh # shs) out =
     (let (sh', out) = snapshot_loop now vord (go_range (ord i) (sdata sh)) sh out;
          (shs', out) = snapshot_shards now ord vord (Suc i) shs out
      in (sh' # shs', out))"

definition store_snapshot ::
  "(nat \<Rightarrow> bytes list \<Rightarrow> bytes list) \<Rightarrow> (bytes \<Rightarrow> bytes list \<Rightarrow> bytes list) \<Rightarrow> time \<Rightarrow>
   store \<Rightarrow> store \<times> snap_entry list" where
  "store_snapshot ord vord now s =
     (let (shs, out) = snapshot_shards now ord vord 0 (shards s) [] in (s\<lparr>shards := shs\<rparr>, out))"

subsection \<open>Restore\<close>

datatype snapshot_err = EmptyKey | UnknownType char

definition make_set :: "bytes list \<Rightarrow> bytes list" where
  "make_set ms = foldl (\<lambda>out m. if m \<in> set out then out else out @ [m]) [] ms"

definition value_from_snapshot ::
  "(bytes list \<Rightarrow> bytes list) \<Rightarrow> snap_entry \<Rightarrow> snapshot_err + gvalue" where
  "value_from_snapshot ord snap =
     (if snap_type snap = value_string then Inr (VString (clone_bytes (snap_value snap)))
      else if snap_type snap = value_list then Inr (VList (clone_byte_slices (snap_list snap)))
      else if snap_type snap = value_hash then Inr (VHash (clone_hash ord (snap_hash snap)))
      else if snap_type snap = value_set then Inr (VSet (make_set (snap_set snap)))
      else Inl (UnknownType (snap_type snap)))"

definition sh_put :: "bytes \<Rightarrow> entry \<Rightarrow> shard \<Rightarrow> shard \<times> unit" where
  "sh_put key e sh = (set_entry key e sh, ())"

definition snap_expired :: "time \<Rightarrow> snap_entry \<Rightarrow> bool" where
  "snap_expired now snap \<longleftrightarrow> \<not> is_zero (snap_expire_at snap) \<and> snap_expire_at snap < now"

fun restore_loop ::
  "time \<Rightarrow> (bytes \<Rightarrow> bytes list \<Rightarrow> bytes list) \<Rightarrow> snap_entry list \<Rightarrow> store \<Rightarrow>
   store \<times> snapshot_err option" where
  "restore_loop now vord [] s = (s, None)"
| "restore_loop now vord (snap # snaps) s =
     (if snap_key snap = [] then (s, Some EmptyKey)
      else if snap_expired now snap then restore_loop now vord snaps s
      else case value_from_snapshot (vord (snap_key snap)) snap of
             Inl err \<Rightarrow> (s, Some err)
           | Inr val \<Rightarrow>
               restore_loop now vord snaps
                 (fst (on_shard (snap_key snap)
                         (sh_put (snap_key snap)
                            \<lparr>evalue = val, expire_at = snap_expire_at snap\<rparr>) s)))"

definition store_restore ::
  "(bytes \<Rightarrow> bytes list \<Rightarrow> bytes list) \<Rightarrow> time \<Rightarrow> snap_entry list \<Rightarrow> store \<Rightarrow>
   store \<times> snapshot_err option" where
  "store_restore vord now snaps s = restore_loop now vord snaps (store_flush s)"

subsection \<open>What a client can observe\<close>

datatype value_view =
    StringView bytes
  | ListView "bytes list"
  | HashView "bytes \<rightharpoonup> bytes"
  | SetView "bytes set"
  | NoView

fun abs_value :: "gvalue \<Rightarrow> value_view" where
  "abs_value (VString b) = StringView b"
| "abs_value (VList l) = ListView l"
| "abs_value (VHash h) = HashView (map_of h)"
| "abs_value (VSet ms) = SetView (set ms)"
| "abs_value VNil = NoView"

definition abs_entry :: "entry \<Rightarrow> value_view \<times> time" where
  "abs_entry e = (abs_value (evalue e), expire_at e)"

definition abs_store :: "time \<Rightarrow> store \<Rightarrow> bytes \<rightharpoonup> value_view \<times> time" where
  "abs_store now s k = map_option abs_entry (live_at now (lookup s k))"

subsection \<open>Copies\<close>

lemma clone_byte_slices_id [simp]: "clone_byte_slices l = l"
  by (simp add: clone_byte_slices_def clone_bytes_def map_idI)

lemma foldl_update_map:
  "map_of (foldl (\<lambda>out (k, v). AList.update k v out) out m) = map_of out ++ map_of (rev m)"
  by (induction m arbitrary: out) (auto simp: map_add_def fun_eq_iff split: option.split)

lemma foldl_update_wf:
  "wf_map out \<Longrightarrow> wf_map (foldl (\<lambda>out (k, v). AList.update k v out) out m)"
  by (induction m arbitrary: out) auto

lemma map_of_rev_distinct: "wf_map m \<Longrightarrow> map_of (rev m) = map_of m"
  by (metis map_of_eqI mset_eq_of_map_of_eq set_rev distinct_rev rev_map map_of_inject_set)

lemma map_of_clone_hash [simp]:
  "wf_map h \<Longrightarrow> valid_order ord \<Longrightarrow> map_of (clone_hash ord h) = map_of h"
  by (simp add: clone_hash_def clone_bytes_def foldl_update_map map_of_rev_distinct
      distinct_valid_order)

lemma wf_clone_hash [simp]: "wf_map (clone_hash ord h)"
  by (simp add: clone_hash_def clone_bytes_def foldl_update_wf)

lemma make_set_aux:
  "set (foldl (\<lambda>out m. if m \<in> set out then out else out @ [m]) out ms) = set out \<union> set ms"
  "distinct out \<Longrightarrow> distinct (foldl (\<lambda>out m. if m \<in> set out then out else out @ [m]) out ms)"
  by (induction ms arbitrary: out) auto

lemma set_make_set [simp]: "set (make_set ms) = set ms"
  by (simp add: make_set_def make_set_aux)

lemma distinct_make_set [simp]: "distinct (make_set ms)"
  by (simp add: make_set_def make_set_aux)

subsection \<open>What a snapshot holds\<close>

lemma snapshot_entry_Some: "wf_value (evalue e) \<Longrightarrow> \<exists>se. snapshot_entry ord k e = Some se"
  by (cases "evalue e") (auto simp: snapshot_entry_def Let_def)

lemma snapshot_loop_out:
  assumes "\<forall>p \<in> set m. wf_value (evalue (snd p))"
  shows "snd (snapshot_loop now vord m sh out)
         = out @ map (\<lambda>(k, e). the (snapshot_entry (vord k) k e))
                   (filter (\<lambda>(k, e). \<not> entry_expired e now) m)"
  using assms
proof (induction now vord m sh out rule: snapshot_loop.induct)
  case (1 now vord sh out)
  then show ?case by simp
next
  case (2 now vord k e rest sh out)
  obtain se where "snapshot_entry (vord k) k e = Some se"
    using snapshot_entry_Some 2(4) by fastforce
  with 2 show ?case by auto
qed

lemma snapshot_loop_thinned:
  assumes "wf_shard sh" and "wf_map m"
    and "\<forall>p \<in> set m. \<forall>e'. map_of (sdata sh) (fst p) = Some e' \<longrightarrow> e' = snd p"
  shows "thinned now sh (fst (snapshot_loop now vord m sh out))"
  using assms
proof (induction now vord m sh out rule: snapshot_loop.induct)
  case (1 now vord sh out)
  then show ?case by simp
next
  case (2 now vord k e rest sh out)
  show ?case
  proof (cases "entry_expired e now")
    case True
    let ?sh = "bump_expired (fst (delete_entry k sh))"
    have t: "thinned now sh ?sh" using 2(4,6) True by (force intro!: thinned_delete)
    have "thinned now ?sh (fst (snapshot_loop now vord rest ?sh out))"
      using t 2(5,6) by (intro 2(1) True) (auto simp: thinned_def split: if_splits)
    with t have "thinned now sh (fst (snapshot_loop now vord rest ?sh out))"
      by (rule thinned_trans)
    with True show ?thesis by simp
  next
    case False
    then show ?thesis
      using 2(2,3) 2(4,5,6) by (cases "snapshot_entry (vord k) k e") simp_all
  qed
qed


definition range_shards :: "(nat \<Rightarrow> bytes list \<Rightarrow> bytes list) \<Rightarrow> nat \<Rightarrow> shard list \<Rightarrow> entry gomap" where
  "range_shards ord i shs =
     concat (map (\<lambda>j. go_range (ord (i + j)) (sdata (shs ! j))) [0..<length shs])"

lemma range_shards_simps [simp]:
  "range_shards ord i [] = []"
  "range_shards ord i (sh # shs) = go_range (ord i) (sdata sh) @ range_shards ord (Suc i) shs"
  by (simp_all add: range_shards_def upt_conv_Cons map_Suc_upt [symmetric] comp_def
      del: upt_Suc)

lemma range_store_shards: "range_store ord s = range_shards ord 0 (shards s)"
  by (simp add: range_store_def range_shards_def)

definition snap_of :: "(bytes \<Rightarrow> bytes list \<Rightarrow> bytes list) \<Rightarrow> bytes \<times> entry \<Rightarrow> snap_entry" where
  "snap_of vord p = the (snapshot_entry (vord (fst p)) (fst p) (snd p))"

lemma snapshot_shards_facts:
  assumes "\<And>i. valid_order (ord i)" and "\<forall>sh \<in> set shs. wf_shard sh"
  shows "list_all2 (thinned now) shs (fst (snapshot_shards now ord vord i shs out))"
    and "snd (snapshot_shards now ord vord i shs out)
         = out @ map (snap_of vord) (filter (\<lambda>(k, e). \<not> entry_expired e now) (range_shards ord i shs))"
proof -
  have "list_all2 (thinned now) shs (fst (snapshot_shards now ord vord i shs out)) \<and>
    snd (snapshot_shards now ord vord i shs out)
      = out @ map (snap_of vord) (filter (\<lambda>(k, e). \<not> entry_expired e now) (range_shards ord i shs))"
    using assms(2)
  proof (induction shs arbitrary: i out)
    case Nil
    then show ?case by simp
  next
    case (Cons sh shs)
    let ?m = "go_range (ord i) (sdata sh)"
    have wf: "wf_shard sh" and ord: "valid_order (ord i)" using Cons.prems assms(1) by auto
    have m: "set ?m = set (sdata sh)" "wf_map ?m"
      using wf ord by (simp_all add: wf_shard_map distinct_valid_order)
    have t: "thinned now sh (fst (snapshot_loop now vord ?m sh out))"
      using wf m by (intro snapshot_loop_thinned)
        (auto simp: map_of_eq_Some_iff wf_shard_map
          dest: eq_key_imp_eq_value [OF wf_shard_map [OF wf]])
    have "snd (snapshot_loop now vord ?m sh out)
      = out @ map (snap_of vord) (filter (\<lambda>(k, e). \<not> entry_expired e now) ?m)"
      using wf m by (subst snapshot_loop_out)
        (auto simp: wf_shard_def snap_of_def case_prod_unfold)
    then show ?case
      using t Cons.IH [of "Suc i" "snd (snapshot_loop now vord ?m sh out)"] Cons.prems
      by (simp add: case_prod_unfold Let_def)
  qed
  then show "list_all2 (thinned now) shs (fst (snapshot_shards now ord vord i shs out))"
    and "snd (snapshot_shards now ord vord i shs out)
         = out @ map (snap_of vord) (filter (\<lambda>(k, e). \<not> entry_expired e now) (range_shards ord i shs))"
    by blast+
qed

text \<open>
  \<open>Snapshot\<close> only removes entries that have expired, and lists every live entry once.
\<close>

lemma thinned_store_snapshot:
  assumes "wf_store s" and "\<And>i. valid_order (ord i)"
  shows "thinned_store (\<lambda>_. now) s (fst (store_snapshot ord vord now s))"
proof -
  have "\<forall>sh \<in> set (shards s). wf_shard sh"
    using wf_store_nth [OF assms(1)] by (auto simp: in_set_conv_nth)
  from snapshot_shards_facts(1) [of ord, OF assms(2) this] show ?thesis
    by (auto simp: store_snapshot_def thinned_store_def case_prod_unfold Let_def
        list_all2_conv_all_nth)
qed

definition live_range :: "(nat \<Rightarrow> bytes list \<Rightarrow> bytes list) \<Rightarrow> time \<Rightarrow> store \<Rightarrow> entry gomap" where
  "live_range ord now s = filter (\<lambda>(k, e). \<not> entry_expired e now) (range_store ord s)"

lemma snapshot_out:
  assumes "wf_store s" and "\<And>i. valid_order (ord i)"
  shows "snd (store_snapshot ord vord now s) = map (snap_of vord) (live_range ord now s)"
proof -
  have "\<forall>sh \<in> set (shards s). wf_shard sh"
    using wf_store_nth [OF assms(1)] by (auto simp: in_set_conv_nth)
  from snapshot_shards_facts(2) [of ord, OF assms(2) this, of now vord 0 "[]"] show ?thesis
    by (simp add: store_snapshot_def case_prod_unfold range_store_shards live_range_def)
qed

lemma wf_map_filter: "wf_map m \<Longrightarrow> wf_map (filter P m)"
  by (simp add: distinct_map_filter)

lemma in_live_range:
  assumes "wf_store s" and "\<And>i. valid_order (ord i)"
  shows "(k, e) \<in> set (live_range ord now s) \<longleftrightarrow> live_at now (lookup s k) = Some e"
  using assms by (auto simp: live_range_def in_all_entries live_at_def split: option.splits if_splits)

lemma wf_map_live_range:
  assumes "wf_store s" and "\<And>i. valid_order (ord i)"
  shows "wf_map (live_range ord now s)"
  unfolding live_range_def using assms by (intro wf_map_filter distinct_keys_range_store)


subsection \<open>Restoring a snapshot\<close>

lemma put_exact_op:
  "wf_value (evalue e) \<Longrightarrow> exact_op key (sh_put key e) now (\<lambda>_. (Some e, ()))"
  by unfold_locales (auto simp: sh_put_def)

lemma put_store:
  assumes "wf_store s" and "wf_value (evalue e)"
  shows "wf_store (fst (on_shard key (sh_put key e) s))"
    and "lookup (fst (on_shard key (sh_put key e) s)) = (lookup s)(key \<mapsto> e)"
proof -
  note op = put_exact_op [OF assms(2), of key 0]
  show "wf_store (fst (on_shard key (sh_put key e) s))"
    using keyed_op.wf_store_op [OF kv_op.axioms(1) [OF exact_op.axioms(1) [OF op]] assms(1)] .
  show "lookup (fst (on_shard key (sh_put key e) s)) = (lookup s)(key \<mapsto> e)"
    using kv_op.lookup_op [OF exact_op.axioms(1) [OF op] assms(1)] by simp
qed

text \<open>
  A snapshot entry stands for a stored one when it has its key and deadline and a value that
  reads the same. Both the entries \<open>Snapshot\<close> lists and those \<open>Decode\<close> reads back
  do, and that is all \<open>Restore\<close> needs.
\<close>

definition snap_view :: "snap_entry \<Rightarrow> value_view" where
  "snap_view se =
     (if snap_type se = value_string then StringView (snap_value se)
      else if snap_type se = value_list then ListView (snap_list se)
      else if snap_type se = value_hash then HashView (map_of (snap_hash se))
      else if snap_type se = value_set then SetView (set (snap_set se))
      else NoView)"

definition represents :: "snap_entry \<Rightarrow> bytes \<times> entry \<Rightarrow> bool" where
  "represents se p \<longleftrightarrow>
     snap_key se = fst p \<and> snap_expire_at se = expire_at (snd p) \<and> wf_map (snap_hash se) \<and>
     snap_view se = abs_value (evalue (snd p)) \<and> snap_view se \<noteq> NoView"

lemma represents_snap_of:
  assumes "wf_value (evalue e)" and "valid_order (vord k)"
  shows "represents (snap_of vord (k, e)) (k, e)"
  using assms
  by (cases "evalue e")
     (simp_all add: represents_def snap_of_def snapshot_entry_def empty_snap_def Let_def
       snap_view_def clone_bytes_def clone_set_def set_valid_order)

lemma represents_expired: "represents se (k, e) \<Longrightarrow> snap_expired now se = entry_expired e now"
  by (auto simp: snap_expired_def entry_expired_def represents_def)

lemma value_from_represents:
  assumes "represents se (k, e)" and "valid_order ord"
  obtains v where "value_from_snapshot ord se = Inr v"
    and "abs_value v = abs_value (evalue e)" and "wf_value v"
  using assms that
  by (fastforce simp: represents_def snap_view_def value_from_snapshot_def clone_bytes_def
      split: if_splits)

text \<open>What a list of entries is to a client at time \<open>t\<close>.\<close>

definition abs_entries :: "time \<Rightarrow> entry gomap \<Rightarrow> bytes \<rightharpoonup> value_view \<times> time" where
  "abs_entries t m k = map_option abs_entry (live_at t (map_of m k))"

lemma restore_loop_represents:
  assumes "\<And>k. valid_order (vord k)" and "now \<le> t"
    and "list_all2 represents snaps m" and "wf_store s" and "wf_map m"
    and "\<forall>(k, e) \<in> set m. k \<noteq> [] \<and> lookup s k = None"
  shows "snd (restore_loop now vord snaps s) = None \<and>
    wf_store (fst (restore_loop now vord snaps s)) \<and>
    abs_store t (fst (restore_loop now vord snaps s)) k
      = (if k \<in> set (keys m) then abs_entries t m k else abs_store t s k)"
  using assms(3-6)
proof (induction snaps m arbitrary: s rule: list_all2_induct)
  case Nil
  then show ?case by simp
next
  case (Cons se snaps p m)
  obtain k' e where p: "p = (k', e)" by force
  have e: "k' \<noteq> []" "lookup s k' = None" using Cons.prems(3) p by auto
  have rep: "represents se (k', e)" using Cons.hyps p by simp
  have snap: "snap_key se = k'" "snap_expire_at se = expire_at e"
    "snap_expired now se = entry_expired e now"
    using rep represents_expired by (auto simp: represents_def)
  have k': "k' \<notin> set (keys m)" "wf_map m" using Cons.prems(2) p by simp_all
  show ?case
  proof (cases "entry_expired e now")
    case True
    have "entry_expired e t" using True assms(2) by (rule entry_expired_mono)
    then have none: "abs_entries t (p # m) k' = None" "abs_store t s k' = None"
      using e by (simp_all add: abs_entries_def p live_at_Some abs_store_def)
    then show ?thesis
      using Cons.IH [of s] Cons.prems e True p k'
      by (auto simp: snap abs_entries_def)
  next
    case False
    obtain v where v: "value_from_snapshot (vord k') se = Inr v"
      "abs_value v = abs_value (evalue e)" "wf_value v"
      using value_from_represents [OF rep assms(1)] .
    let ?e = "\<lparr>evalue = v, expire_at = expire_at e\<rparr>"
    let ?s = "fst (on_shard k' (sh_put k' ?e) s)"
    have s': "wf_store ?s" "lookup ?s = (lookup s)(k' \<mapsto> ?e)"
      using put_store [of s ?e k'] Cons.prems(1) v(3) by simp_all
    have "abs_store t ?s k' = abs_entries t (p # m) k'"
      using v(2) by (simp add: abs_store_def abs_entries_def s' p live_at_Some abs_entry_def
          entry_expired_def)
    moreover have "abs_store t ?s k = abs_store t s k" if "k \<noteq> k'"
      using that by (simp add: abs_store_def s')
    moreover have "\<forall>(k, e) \<in> set m. k \<noteq> [] \<and> lookup ?s k = None"
      using Cons.prems(3) k' p by (force simp: s')
    note Cons.IH [OF s'(1) k'(2) this]
    ultimately show ?thesis
      using e(1) False v(1) k' by (auto simp: p snap abs_entries_def)
  qed
qed

lemma restore_loop_empty_key:
  assumes "\<And>k. valid_order (vord k)"
    and "list_all2 represents snaps m" and "[] \<in> set (keys m)"
  shows "snd (restore_loop now vord snaps s) = Some EmptyKey"
  using assms(2,3)
proof (induction snaps m arbitrary: s rule: list_all2_induct)
  case Nil
  then show ?case by simp
next
  case (Cons se snaps p m)
  obtain k' e where p: "p = (k', e)" by force
  have rep: "represents se (k', e)" using Cons.hyps p by simp
  obtain v where "value_from_snapshot (vord k') se = Inr v"
    using value_from_represents [OF rep assms(1)] .
  moreover have "snap_key se = k'" using rep by (simp add: represents_def)
  ultimately show ?case using Cons.IH Cons.prems p by auto
qed

text \<open>
  Restoring entries that represent the live part of a store gives every client the same
  view of it, from then on; the only obstacle is a live entry under the empty key.
\<close>

lemma abs_entries_live_range:
  assumes "wf_store s" and "\<And>i. valid_order (ord i)" and "now0 \<le> t"
  shows "abs_entries t (live_range ord now0 s) = abs_store t s"
proof
  fix k
  have wf: "wf_map (live_range ord now0 s)"
    using assms(1,2) by (rule wf_map_live_range)
  have mem: "(k, e) \<in> set (live_range ord now0 s) \<longleftrightarrow> live_at now0 (lookup s k) = Some e" for e
    using assms(1,2) by (rule in_live_range)
  have "map_of (live_range ord now0 s) k = live_at now0 (lookup s k)"
    using mem map_of_eq_Some_iff [OF wf] by (metis not_Some_eq)
  then show "abs_entries t (live_range ord now0 s) k = abs_store t s k"
    using assms(3) by (simp add: abs_entries_def abs_store_def live_at_live_at)
qed

lemma restore_live_range:
  assumes "wf_store s" "wf_store r" and ord: "\<And>i. valid_order (ord i)" "\<And>k. valid_order (vord k)"
    and "now0 \<le> now" "now \<le> t"
    and "list_all2 represents snaps (live_range ord now0 s)"
    and "live_at now0 (lookup s []) = None"
  shows "snd (store_restore vord now snaps r) = None"
    and "wf_store (fst (store_restore vord now snaps r))"
    and "abs_store t (fst (store_restore vord now snaps r)) = abs_store t s"
proof -
  let ?m = "live_range ord now0 s"
  have m: "wf_map ?m" "\<forall>(k, e) \<in> set ?m. k \<noteq> [] \<and> lookup (store_flush r) k = None"
    using assms(2,8) wf_map_live_range [OF assms(1) ord(1)] in_live_range [OF assms(1) ord(1)]
    by auto
  have R: "snd (restore_loop now vord snaps (store_flush r)) = None \<and>
    wf_store (fst (restore_loop now vord snaps (store_flush r))) \<and>
    abs_store t (fst (restore_loop now vord snaps (store_flush r))) k
      = (if k \<in> set (keys ?m) then abs_entries t ?m k else abs_store t (store_flush r) k)" for k
    using ord(2) assms(6,7) wf_store_flush [OF assms(2)] m by (rule restore_loop_represents)
  show "snd (store_restore vord now snaps r) = None"
    and "wf_store (fst (store_restore vord now snaps r))"
    using R by (simp_all add: store_restore_def)
  show "abs_store t (fst (store_restore vord now snaps r)) = abs_store t s"
  proof
    fix k
    have "abs_entries t ?m k = None" if "k \<notin> set (keys ?m)"
      using that by (simp add: abs_entries_def map_of_eq_None_iff [THEN iffD2])
    then have "abs_store t (fst (store_restore vord now snaps r)) k = abs_entries t ?m k"
      using R [of k] assms(2) by (auto simp: store_restore_def abs_store_def)
    also have "\<dots> = abs_store t s k"
      using abs_entries_live_range [OF assms(1) ord(1)] assms(5,6) by simp
    finally show "abs_store t (fst (store_restore vord now snaps r)) k = abs_store t s k" .
  qed
qed

lemma restore_empty_key:
  assumes "wf_store s" and ord: "\<And>i. valid_order (ord i)" "\<And>k. valid_order (vord k)"
    and "list_all2 represents snaps (live_range ord now0 s)"
    and "live_at now0 (lookup s []) \<noteq> None"
  shows "snd (store_restore vord now snaps r) = Some EmptyKey"
proof -
  obtain e where "([], e) \<in> set (live_range ord now0 s)"
    using assms(5) in_live_range [OF assms(1) ord(1)] by fastforce
  then have "[] \<in> set (keys (live_range ord now0 s))" by force
  then show ?thesis
    unfolding store_restore_def by (rule restore_loop_empty_key [OF ord(2) assms(4)])
qed

lemma snapshot_represents:
  assumes "wf_store s" and "\<And>i. valid_order (ord i)" "\<And>k. valid_order (vord k)"
  shows "list_all2 represents (snd (store_snapshot ord vord now s)) (live_range ord now s)"
proof -
  have "represents (snap_of vord p) p" if "p \<in> set (live_range ord now s)" for p
  proof -
    obtain k e where p: "p = (k, e)" by force
    with that have "live_at now (lookup s k) = Some e"
      using in_live_range [OF assms(1,2)] by simp
    then have "wf_value (evalue e)"
      using wf_store_lookup_value [OF assms(1)] live_at_SomeD by blast
    then show ?thesis unfolding p using assms(3) by (rule represents_snap_of)
  qed
  then show ?thesis
    unfolding snapshot_out [OF assms(1,2)] by (auto simp: list_all2_conv_all_nth)
qed

end
