(* ===== verification/Commands.thy ===== *)
theory Commands
  imports Protocol Store_Snapshot "HOL-Library.Monad_Syntax"
begin

section \<open>The command handlers\<close>

text \<open>
  Models \<open>internal/command\<close>: one definition per handler, in the order of the files
  \<open>handlers.go\<close>, \<open>handlers_admin.go\<close>, \<open>handlers_hash.go\<close>,
  \<open>handlers_list.go\<close>, \<open>handlers_set.go\<close> and \<open>handlers_string.go\<close>, then the table
  and \<open>Dispatch\<close> of \<open>command.go\<close>.

  A handler reads the clock, iterates over Go maps and calls \<open>strings.ToUpper\<close> and
  \<open>path.Match\<close>; the record \<open>env\<close> holds what these answer during one command:
  \<open>clock i\<close> is the \<open>i\<close>-th reading. \<open>SAVE\<close> is registered only when the server gives
  a function to save with; that function also acts on the rest of the server's state, which is
  the type variable \<open>'x\<close>.
\<close>

record env =
  clock :: "nat \<Rightarrow> time"
  shard_order :: "nat \<Rightarrow> bytes list \<Rightarrow> bytes list"
  map_order :: "bytes list \<Rightarrow> bytes list"
  upper :: "bytes \<Rightarrow> bytes"
  glob :: "bytes \<Rightarrow> bytes \<Rightarrow> bool option"

text \<open>
  An index or a slice expression out of range panics, and a handler that panics has no result:
  \<open>None\<close>. \<open>arg_at args i\<close> is \<open>args[i]\<close> and \<open>args_from args i\<close> is \<open>args[i:]\<close>. Where a loop
  walks over the arguments and checks the length before it looks ahead, the pattern of the
  recursive function is both the check and the access.
\<close>

definition arg_at :: "bytes list \<Rightarrow> nat \<Rightarrow> bytes option" where
  "arg_at args i = (if i < length args then Some (args ! i) else None)"

definition args_from :: "bytes list \<Rightarrow> nat \<Rightarrow> bytes list option" where
  "args_from args i = (if i \<le> length args then Some (drop i args) else None)"

type_synonym handler = "env \<Rightarrow> bytes list \<Rightarrow> store \<Rightarrow> (store \<times> reply) option"

fun err_text :: "store_err \<Rightarrow> bytes" where
  "err_text ErrWrongType = ''WRONGTYPE Operation against a key holding the wrong kind of value''"
| "err_text ErrNotInteger = ''ERR value is not an integer or out of range''"

abbreviation int_of_bool :: "bool \<Rightarrow> int" where
  "int_of_bool b \<equiv> (if b then 1 else 0)"

text \<open>A reply for an absent value, and the other shapes several handlers share.\<close>

definition bulk_or_null :: "bytes option \<Rightarrow> reply" where
  "bulk_or_null vo = (case vo of None \<Rightarrow> BulkReply [] True | Some v \<Rightarrow> BulkReply v False)"

definition bulk_array :: "bytes list \<Rightarrow> reply" where
  "bulk_array items = ArrayReply (map (\<lambda>it. BulkReply it False) items) False"

definition reply_or_err :: "('a \<Rightarrow> reply) \<Rightarrow> store_err + 'a \<Rightarrow> reply" where
  "reply_or_err f r = (case r of Inl err \<Rightarrow> ErrorReply (err_text err) | Inr x \<Rightarrow> f x)"

subsection \<open>\<open>handlers.go\<close>\<close>

definition cmd_ping :: handler where
  "cmd_ping env args s =
     (if length args > 0 then do { msg \<leftarrow> arg_at args 0; Some (s, BulkReply msg False) }
      else Some (s, StatusReply ''PONG''))"

definition cmd_get :: handler where
  "cmd_get env args s =
     (if length args \<noteq> 1 then Some (s, ErrorReply ''ERR GET requiere 1 argumento'')
      else do {
        key \<leftarrow> arg_at args 0;
        let (s, r) = store_get key (clock env 0) s;
        Some (s, reply_or_err bulk_or_null r)
      })"

text \<open>
  The options of \<open>SET\<close>. The loop stops at the first malformed or second option, so it reads
  the clock at most once.
\<close>

fun parse_set_expiry :: "env \<Rightarrow> bytes list \<Rightarrow> bool \<Rightarrow> time \<Rightarrow> time option" where
  "parse_set_expiry env [] was_set at = Some at"
| "parse_set_expiry env (opt # rest) was_set at =
     (let opt = to_upper (upper env) opt
      in if opt \<in> {''EX'', ''PX'', ''EXAT'', ''PXAT''} then
           (if was_set then None
            else case rest of
                   [] \<Rightarrow> None
                 | val # rest \<Rightarrow>
                     (case parse_int val of
                        None \<Rightarrow> None
                      | Some n \<Rightarrow>
                          parse_set_expiry env rest True
                            (if opt = ''EX'' then time_add (clock env 0) (seconds n)
                             else if opt = ''PX'' then time_add (clock env 0) (milliseconds n)
                             else if opt = ''EXAT'' then time_unix n
                             else time_unix_milli n)))
         else None)"

definition cmd_set :: handler where
  "cmd_set env args s =
     (if length args < 2 then Some (s, ErrorReply ''ERR SET requiere 2 argumentos'')
      else do {
        opts \<leftarrow> args_from args 2;
        case parse_set_expiry env opts False zero_time of
          None \<Rightarrow> Some (s, ErrorReply ''ERR syntax error'')
        | Some at \<Rightarrow> do {
            key \<leftarrow> arg_at args 0;
            val \<leftarrow> arg_at args 1;
            Some (store_set_ex key val at s, StatusReply ''OK'')
          }
      })"

text \<open>\<open>i\<close> counts the readings of the clock, \<open>n\<close> the keys that existed.\<close>

fun del_loop :: "env \<Rightarrow> nat \<Rightarrow> bytes list \<Rightarrow> int \<Rightarrow> store \<Rightarrow> store \<times> int" where
  "del_loop env i [] n s = (s, n)"
| "del_loop env i (a # as) n s =
     (let (s, existed) = store_del a (clock env i) s
      in del_loop env (Suc i) as (if existed then n + 1 else n) s)"

definition cmd_del :: handler where
  "cmd_del env args s =
     (if length args < 1 then Some (s, ErrorReply ''ERR DEL requiere al menos 1 argumento'')
      else let (s, n) = del_loop env 0 args 0 s in Some (s, IntReply n))"

definition cmd_exists :: handler where
  "cmd_exists env args s =
     (if length args \<noteq> 1 then Some (s, ErrorReply ''ERR EXISTS requiere 1 argumento'')
      else do {
        key \<leftarrow> arg_at args 0;
        let (s, b) = store_exists key (clock env 0) s;
        Some (s, IntReply (int_of_bool b))
      })"

definition cmd_expire :: handler where
  "cmd_expire env args s =
     (if length args \<noteq> 2 then Some (s, ErrorReply ''ERR EXPIRE requiere 2 argumentos'')
      else do {
        ttl \<leftarrow> arg_at args 1;
        case parse_int ttl of
          None \<Rightarrow> Some (s, ErrorReply ''ERR el TTL debe ser un entero'')
        | Some secs \<Rightarrow> do {
            key \<leftarrow> arg_at args 0;
            let (s, b) = store_expire key (seconds secs) (clock env 0) (clock env 1) s;
            Some (s, IntReply (int_of_bool b))
          }
      })"

definition cmd_pexpireat :: handler where
  "cmd_pexpireat env args s =
     (if length args \<noteq> 2 then Some (s, ErrorReply ''ERR PEXPIREAT requiere 2 argumentos'')
      else do {
        at \<leftarrow> arg_at args 1;
        case parse_int at of
          None \<Rightarrow> Some (s, ErrorReply ''ERR el timestamp debe ser un entero'')
        | Some ms \<Rightarrow> do {
            key \<leftarrow> arg_at args 0;
            let (s, b) = store_expire_at key (time_unix_milli ms) (clock env 0) s;
            Some (s, IntReply (int_of_bool b))
          }
      })"

text \<open>The remaining time is rounded up to seconds.\<close>

definition ttl_seconds :: "duration \<Rightarrow> int" where
  "ttl_seconds rem = go_div (i64 (rem + 1000000000 - 1)) 1000000000"

definition cmd_ttl :: handler where
  "cmd_ttl env args s =
     (if length args \<noteq> 1 then Some (s, ErrorReply ''ERR TTL requiere 1 argumento'')
      else do {
        key \<leftarrow> arg_at args 0;
        let (s, (rem, exists, has_expiry)) = store_ttl key (clock env 0) s;
        Some (s, if \<not> exists then IntReply (-2)
                 else if \<not> has_expiry then IntReply (-1)
                 else IntReply (ttl_seconds rem))
      })"

definition cmd_persist :: handler where
  "cmd_persist env args s =
     (if length args \<noteq> 1 then Some (s, ErrorReply ''ERR PERSIST requiere 1 argumento'')
      else do {
        key \<leftarrow> arg_at args 0;
        let (s, b) = store_persist key (clock env 0) s;
        Some (s, IntReply (int_of_bool b))
      })"

definition cmd_save ::
  "(store \<Rightarrow> 'x \<Rightarrow> store \<times> 'x \<times> bytes option) \<Rightarrow> bytes list \<Rightarrow> store \<Rightarrow> 'x \<Rightarrow> store \<times> 'x \<times> reply" where
  "cmd_save save args s x =
     (if length args \<noteq> 0 then (s, x, ErrorReply ''ERR SAVE no recibe argumentos'')
      else case save s x of
             (s, x, Some err) \<Rightarrow> (s, x, ErrorReply (''ERR '' @ err))
           | (s, x, None) \<Rightarrow> (s, x, StatusReply ''OK''))"

subsection \<open>\<open>handlers_admin.go\<close>\<close>

definition cmd_type :: handler where
  "cmd_type env args s =
     (if length args \<noteq> 1 then Some (s, ErrorReply ''ERR TYPE requiere 1 argumento'')
      else do {
        key \<leftarrow> arg_at args 0;
        let (s, name) = store_type key (clock env 0) s;
        Some (s, StatusReply name)
      })"

definition cmd_keys :: handler where
  "cmd_keys env args s =
     (if length args \<noteq> 1
      then Some (s, ErrorReply (''ERR KEYS requiere 1 patr'' @ [CHR 0xC3, CHR 0xB3] @ ''n''))
      else do {
        pattern \<leftarrow> arg_at args 0;
        case store_keys (shard_order env) (glob env) pattern (clock env 0) s of
          None \<Rightarrow>
            Some (s, ErrorReply (''ERR patr'' @ [CHR 0xC3, CHR 0xB3] @ ''n inv'' @ [CHR 0xC3, CHR 0xA1] @ ''lido''))
        | Some items \<Rightarrow> Some (s, bulk_array items)
      })"

definition cmd_dbsize :: handler where
  "cmd_dbsize env args s =
     (if length args \<noteq> 0 then Some (s, ErrorReply ''ERR DBSIZE no acepta argumentos'')
      else Some (s, IntReply (int (store_len (shard_order env) (clock env 0) s))))"

definition cmd_flushall :: handler where
  "cmd_flushall env args s =
     (if length args \<noteq> 0 then Some (s, ErrorReply ''ERR FLUSHALL no acepta argumentos'')
      else Some (store_flush s, StatusReply ''OK''))"

subsection \<open>\<open>handlers_hash.go\<close>\<close>

definition cmd_hset :: handler where
  "cmd_hset env args s =
     (if length args \<noteq> 3 then Some (s, ErrorReply ''ERR HSET requiere 3 argumentos'')
      else do {
        key \<leftarrow> arg_at args 0;
        field \<leftarrow> arg_at args 1;
        val \<leftarrow> arg_at args 2;
        let (s, r) = store_hset key field val (clock env 0) s;
        Some (s, reply_or_err (\<lambda>is_new. IntReply (int_of_bool is_new)) r)
      })"

definition cmd_hget :: handler where
  "cmd_hget env args s =
     (if length args \<noteq> 2 then Some (s, ErrorReply ''ERR HGET requiere 2 argumentos'')
      else do {
        key \<leftarrow> arg_at args 0;
        field \<leftarrow> arg_at args 1;
        let (s, r) = store_hget key field (clock env 0) s;
        Some (s, reply_or_err bulk_or_null r)
      })"

definition cmd_hdel :: handler where
  "cmd_hdel env args s =
     (if length args < 2
      then Some (s, ErrorReply ''ERR HDEL requiere clave y al menos un campo'')
      else do {
        fields \<leftarrow> args_from args 1;
        key \<leftarrow> arg_at args 0;
        let (s, r) = store_hdel key fields (clock env 0) s;
        Some (s, reply_or_err (\<lambda>n. IntReply (int n)) r)
      })"

definition cmd_hgetall :: handler where
  "cmd_hgetall env args s =
     (if length args \<noteq> 1 then Some (s, ErrorReply ''ERR HGETALL requiere 1 argumento'')
      else do {
        key \<leftarrow> arg_at args 0;
        let (s, r) = store_hgetall (map_order env) key (clock env 0) s;
        Some (s, reply_or_err bulk_array r)
      })"

definition cmd_hlen :: handler where
  "cmd_hlen env args s =
     (if length args \<noteq> 1 then Some (s, ErrorReply ''ERR HLEN requiere 1 argumento'')
      else do {
        key \<leftarrow> arg_at args 0;
        let (s, r) = store_hlen key (clock env 0) s;
        Some (s, reply_or_err (\<lambda>n. IntReply (int n)) r)
      })"

subsection \<open>\<open>handlers_list.go\<close>\<close>

definition cmd_lpush :: handler where
  "cmd_lpush env args s =
     (if length args < 2
      then Some (s, ErrorReply ''ERR LPUSH requiere clave y al menos un valor'')
      else do {
        key \<leftarrow> arg_at args 0;
        vals \<leftarrow> args_from args 1;
        let (s, r) = store_lpush key vals (clock env 0) s;
        Some (s, reply_or_err (\<lambda>n. IntReply (int n)) r)
      })"

definition cmd_rpush :: handler where
  "cmd_rpush env args s =
     (if length args < 2
      then Some (s, ErrorReply ''ERR RPUSH requiere clave y al menos un valor'')
      else do {
        key \<leftarrow> arg_at args 0;
        vals \<leftarrow> args_from args 1;
        let (s, r) = store_rpush key vals (clock env 0) s;
        Some (s, reply_or_err (\<lambda>n. IntReply (int n)) r)
      })"

definition cmd_lpop :: handler where
  "cmd_lpop env args s =
     (if length args \<noteq> 1 then Some (s, ErrorReply ''ERR LPOP requiere 1 argumento'')
      else do {
        key \<leftarrow> arg_at args 0;
        let (s, r) = store_lpop key (clock env 0) s;
        Some (s, reply_or_err bulk_or_null r)
      })"

definition cmd_rpop :: handler where
  "cmd_rpop env args s =
     (if length args \<noteq> 1 then Some (s, ErrorReply ''ERR RPOP requiere 1 argumento'')
      else do {
        key \<leftarrow> arg_at args 0;
        let (s, r) = store_rpop key (clock env 0) s;
        Some (s, reply_or_err bulk_or_null r)
      })"

definition cmd_llen :: handler where
  "cmd_llen env args s =
     (if length args \<noteq> 1 then Some (s, ErrorReply ''ERR LLEN requiere 1 argumento'')
      else do {
        key \<leftarrow> arg_at args 0;
        let (s, r) = store_llen key (clock env 0) s;
        Some (s, reply_or_err (\<lambda>n. IntReply (int n)) r)
      })"

definition cmd_lrange :: handler where
  "cmd_lrange env args s =
     (if length args \<noteq> 3 then Some (s, ErrorReply ''ERR LRANGE requiere 3 argumentos'')
      else do {
        start \<leftarrow> arg_at args 1;
        stop \<leftarrow> arg_at args 2;
        case (parse_int start, parse_int stop) of
          (Some start, Some stop) \<Rightarrow> do {
            key \<leftarrow> arg_at args 0;
            let (s, r) = store_lrange key start stop (clock env 0) s;
            Some (s, reply_or_err bulk_array r)
          }
        | _ \<Rightarrow>
            Some (s, ErrorReply (''ERR los '' @ [CHR 0xC3, CHR 0xAD] @ ''ndices deben ser enteros''))
      })"

subsection \<open>\<open>handlers_set.go\<close>\<close>

definition cmd_sadd :: handler where
  "cmd_sadd env args s =
     (if length args < 2
      then Some (s, ErrorReply ''ERR SADD requiere clave y al menos un miembro'')
      else do {
        key \<leftarrow> arg_at args 0;
        members \<leftarrow> args_from args 1;
        let (s, r) = store_sadd key members (clock env 0) s;
        Some (s, reply_or_err (\<lambda>n. IntReply (int n)) r)
      })"

definition cmd_srem :: handler where
  "cmd_srem env args s =
     (if length args < 2
      then Some (s, ErrorReply ''ERR SREM requiere clave y al menos un miembro'')
      else do {
        key \<leftarrow> arg_at args 0;
        members \<leftarrow> args_from args 1;
        let (s, r) = store_srem key members (clock env 0) s;
        Some (s, reply_or_err (\<lambda>n. IntReply (int n)) r)
      })"

definition cmd_sismember :: handler where
  "cmd_sismember env args s =
     (if length args \<noteq> 2 then Some (s, ErrorReply ''ERR SISMEMBER requiere 2 argumentos'')
      else do {
        key \<leftarrow> arg_at args 0;
        member \<leftarrow> arg_at args 1;
        let (s, r) = store_sismember key member (clock env 0) s;
        Some (s, reply_or_err (\<lambda>b. IntReply (int_of_bool b)) r)
      })"

definition cmd_smembers :: handler where
  "cmd_smembers env args s =
     (if length args \<noteq> 1 then Some (s, ErrorReply ''ERR SMEMBERS requiere 1 argumento'')
      else do {
        key \<leftarrow> arg_at args 0;
        let (s, r) = store_smembers (map_order env) key (clock env 0) s;
        Some (s, reply_or_err bulk_array r)
      })"

definition cmd_scard :: handler where
  "cmd_scard env args s =
     (if length args \<noteq> 1 then Some (s, ErrorReply ''ERR SCARD requiere 1 argumento'')
      else do {
        key \<leftarrow> arg_at args 0;
        let (s, r) = store_scard key (clock env 0) s;
        Some (s, reply_or_err (\<lambda>n. IntReply (int n)) r)
      })"

subsection \<open>\<open>handlers_string.go\<close>\<close>

definition incr_by_reply :: "env \<Rightarrow> bytes \<Rightarrow> int \<Rightarrow> store \<Rightarrow> store \<times> reply" where
  "incr_by_reply env key delta s =
     (let (s, r) = store_incr_by key delta (clock env 0) s in (s, reply_or_err IntReply r))"

definition cmd_incr :: handler where
  "cmd_incr env args s =
     (if length args \<noteq> 1 then Some (s, ErrorReply ''ERR INCR requiere 1 argumento'')
      else do { key \<leftarrow> arg_at args 0; Some (incr_by_reply env key 1 s) })"

definition cmd_decr :: handler where
  "cmd_decr env args s =
     (if length args \<noteq> 1 then Some (s, ErrorReply ''ERR DECR requiere 1 argumento'')
      else do { key \<leftarrow> arg_at args 0; Some (incr_by_reply env key (-1) s) })"

definition cmd_incrby :: handler where
  "cmd_incrby env args s =
     (if length args \<noteq> 2 then Some (s, ErrorReply ''ERR INCRBY requiere 2 argumentos'')
      else do {
        delta \<leftarrow> arg_at args 1;
        case parse_int delta of
          None \<Rightarrow> Some (s, ErrorReply ''ERR el incremento debe ser un entero'')
        | Some delta \<Rightarrow> do { key \<leftarrow> arg_at args 0; Some (incr_by_reply env key delta s) }
      })"

definition cmd_decrby :: handler where
  "cmd_decrby env args s =
     (if length args \<noteq> 2 then Some (s, ErrorReply ''ERR DECRBY requiere 2 argumentos'')
      else do {
        delta \<leftarrow> arg_at args 1;
        case parse_int delta of
          None \<Rightarrow> Some (s, ErrorReply ''ERR el decremento debe ser un entero'')
        | Some delta \<Rightarrow> do { key \<leftarrow> arg_at args 0; Some (incr_by_reply env key (i64 (- delta)) s) }
      })"

text \<open>The loop takes the arguments two by two, and the last one alone would be out of range.\<close>

fun mset_loop :: "bytes list \<Rightarrow> store \<Rightarrow> store option" where
  "mset_loop (k # v # rest) s = mset_loop rest (store_set k v s)"
| "mset_loop [k] s = None"
| "mset_loop [] s = Some s"

definition cmd_mset :: handler where
  "cmd_mset env args s =
     (if length args < 2 \<or> length args mod 2 \<noteq> 0
      then Some (s, ErrorReply ''ERR MSET requiere pares clave valor'')
      else do { s \<leftarrow> mset_loop args s; Some (s, StatusReply ''OK'') })"

fun mget_loop :: "env \<Rightarrow> nat \<Rightarrow> bytes list \<Rightarrow> store \<Rightarrow> store \<times> reply list" where
  "mget_loop env i [] s = (s, [])"
| "mget_loop env i (a # as) s =
     (let (s, r) = store_get a (clock env i) s;
          elem = (case r of Inr (Some v) \<Rightarrow> BulkReply v False | _ \<Rightarrow> BulkReply [] True);
          (s, elems) = mget_loop env (Suc i) as s
      in (s, elem # elems))"

definition cmd_mget :: handler where
  "cmd_mget env args s =
     (if length args < 1 then Some (s, ErrorReply ''ERR MGET requiere al menos 1 clave'')
      else let (s, elems) = mget_loop env 0 args s in Some (s, ArrayReply elems False))"

definition cmd_setnx :: handler where
  "cmd_setnx env args s =
     (if length args \<noteq> 2 then Some (s, ErrorReply ''ERR SETNX requiere 2 argumentos'')
      else do {
        key \<leftarrow> arg_at args 0;
        val \<leftarrow> arg_at args 1;
        let (s, b) = store_set_nx key val (clock env 0) s;
        Some (s, IntReply (int_of_bool b))
      })"

subsection \<open>The dispatcher\<close>

definition handlers :: "(bytes \<times> handler) list" where
  "handlers =
     [(''PING'', cmd_ping), (''GET'', cmd_get), (''SET'', cmd_set), (''DEL'', cmd_del),
      (''EXISTS'', cmd_exists), (''EXPIRE'', cmd_expire), (''PEXPIREAT'', cmd_pexpireat),
      (''TTL'', cmd_ttl), (''PERSIST'', cmd_persist), (''LPUSH'', cmd_lpush),
      (''RPUSH'', cmd_rpush), (''LPOP'', cmd_lpop), (''RPOP'', cmd_rpop), (''LLEN'', cmd_llen),
      (''LRANGE'', cmd_lrange), (''HSET'', cmd_hset), (''HGET'', cmd_hget),
      (''HDEL'', cmd_hdel), (''HGETALL'', cmd_hgetall), (''HLEN'', cmd_hlen),
      (''SADD'', cmd_sadd), (''SREM'', cmd_srem), (''SISMEMBER'', cmd_sismember),
      (''SMEMBERS'', cmd_smembers), (''SCARD'', cmd_scard), (''INCR'', cmd_incr),
      (''DECR'', cmd_decr), (''INCRBY'', cmd_incrby), (''DECRBY'', cmd_decrby),
      (''MSET'', cmd_mset), (''MGET'', cmd_mget), (''SETNX'', cmd_setnx), (''TYPE'', cmd_type),
      (''KEYS'', cmd_keys), (''DBSIZE'', cmd_dbsize), (''FLUSHALL'', cmd_flushall)]"

type_synonym 'x save_func = "store \<Rightarrow> 'x \<Rightarrow> store \<times> 'x \<times> bytes option"

definition dispatch ::
  "'x save_func option \<Rightarrow> env \<Rightarrow> command \<Rightarrow> store \<Rightarrow> 'x \<Rightarrow> (store \<times> 'x \<times> reply) option" where
  "dispatch save env cmd s x =
     (let name = to_upper (upper env) (cmd_name cmd)
      in case (if name = ''SAVE'' then save else None) of
           Some sv \<Rightarrow> Some (cmd_save sv (cmd_args cmd) s x)
         | None \<Rightarrow>
             (case map_of handlers name of
                Some h \<Rightarrow> do { (s, r) \<leftarrow> h env (cmd_args cmd) s; Some (s, x, r) }
              | None \<Rightarrow> Some (s, x, ErrorReply (''ERR comando desconocido: '' @ cmd_name cmd))))"

end
