(* ===== verification/Command_Contract.thy ===== *)
theory Command_Contract
  imports Commands
begin

section \<open>The contracts of the handlers\<close>

text \<open>
  The contracts a handler may fulfil, as locales: \<open>store_cmd\<close> (it never panics, keeps the store
  well formed and its reply cannot break the framing of the wire), \<open>read_cmd\<close> (it changes nothing
  a client can observe), \<open>careful_cmd\<close> (an error changes nothing a client can observe) and
  \<open>pure_cmd\<close> (while no key has a deadline, its reply and effect are a
  function of the stored map alone, whatever the clock). Every entry of the table of handlers is
  an interpretation of the first, and the lemmas at the end lift the contracts to
  \<open>Dispatch\<close>.
\<close>

subsection \<open>Replies that keep to their line\<close>

definition line_ok :: "bytes \<Rightarrow> bool" where
  "line_ok s \<longleftrightarrow> (\<forall>c \<in> set s. \<not> is_eol c)"

fun reply_safe :: "reply \<Rightarrow> bool" where
  "reply_safe (StatusReply msg) = line_ok msg"
| "reply_safe (ErrorReply msg) = line_ok msg"
| "reply_safe (IntReply n) = True"
| "reply_safe (BulkReply v null) = True"
| "reply_safe (ArrayReply elems null) = list_all reply_safe elems"

lemma line_ok_simps [simp]:
  "line_ok []"
  "line_ok (c # s) \<longleftrightarrow> c \<noteq> CHR 0x0D \<and> c \<noteq> CHR 0x0A \<and> line_ok s"
  "line_ok (s @ s') \<longleftrightarrow> line_ok s \<and> line_ok s'"
  by (auto simp: line_ok_def is_eol_def)

lemma reply_safe_err [simp]: "line_ok (err_text e)"
  by (cases e) simp_all

lemma reply_safe_reply_or_err [simp]:
  "(\<And>x. reply_safe (f x)) \<Longrightarrow> reply_safe (reply_or_err f r)"
  by (auto simp: reply_or_err_def split: sum.split)

lemma reply_safe_shapes [simp]: "reply_safe (bulk_or_null v)" "reply_safe (bulk_array l)"
  by (auto simp: bulk_or_null_def bulk_array_def list_all_iff split: option.split)

lemma line_ok_type [simp]: "line_ok (value_type_name v)"
  by (cases v) simp_all

subsection \<open>The store operations, bundled\<close>

lemmas store_defs =
  store_set_def store_set_ex_def store_get_def store_exists_def store_del_def
  store_expire_def store_expire_at_def store_persist_def store_ttl_def store_entry_memory_def
  store_incr_by_def store_set_nx_def store_type_def
  store_lpush_def store_rpush_def store_lpop_def store_rpop_def store_llen_def store_lrange_def
  store_hset_def store_hget_def store_hdel_def store_hgetall_def store_hlen_def
  store_sadd_def store_srem_def store_sismember_def store_smembers_def store_scard_def

lemma incr_by_i64: "in_i64 delta \<Longrightarrow> sh_incr_by key delta now = sh_incr_by key (i64 delta) now"
  by simp

lemma wf_store_incr_by: "wf_store s \<Longrightarrow> in_i64 delta \<Longrightarrow> wf_store (fst (on_shard key (sh_incr_by key delta now) s))"
  using incr_by.wf_store_op [of s key delta now] by simp

lemmas store_wf =
  set.wf_store_op set_ex.wf_store_op get.wf_store_op present.wf_store_op del.wf_store_op
  expire_at.wf_store_op persist.wf_store_op ttl.wf_store_op entry_memory.wf_store_op
  set_nx.wf_store_op wf_store_incr_by type_op.wf_store_op
  lpush.wf_store_op rpush.wf_store_op lpop.wf_store_op rpop.wf_store_op llen.wf_store_op
  lrange.wf_store_op hset.wf_store_op hget.wf_store_op hdel.wf_store_op hgetall.wf_store_op
  hlen.wf_store_op sadd.wf_store_op srem.wf_store_op sismember.wf_store_op
  smembers.wf_store_op scard.wf_store_op wf_store_flush

lemmas store_read_only =
  get.read_only present.read_only ttl.read_only entry_memory.read_only type_op.read_only
  llen.read_only lrange.read_only hget.read_only hgetall.read_only hlen.read_only
  sismember.read_only smembers.read_only scard.read_only

subsection \<open>Every handler returns and keeps the invariant\<close>

text \<open>\<open>run\<close> is what a handler returns; the first law of the contract is that it does return.\<close>

definition run :: "handler \<Rightarrow> env \<Rightarrow> bytes list \<Rightarrow> store \<Rightarrow> store \<times> reply" where
  "run h env args s = the (h env args s)"

lemma arg_in_range [simp]: "i < length args \<Longrightarrow> arg_at args i = Some (args ! i)"
  by (simp add: arg_at_def)

lemma arg_first [simp]: "\<not> length args < 2 \<Longrightarrow> arg_at args 0 = Some (args ! 0)"
  by (rule arg_in_range) linarith

lemma args_from_in_range [simp]: "i \<le> length args \<Longrightarrow> args_from args i = Some (drop i args)"
  by (simp add: args_from_def)

lemma drop_one [simp]: "drop (Suc 0) xs = tl xs"
  by (simp add: drop_Suc)

locale store_cmd =
  fixes h :: handler
  assumes returns: "h env args s \<noteq> None"
    and keeps_wf: "wf_store s \<Longrightarrow> wf_store (fst (run h env args s))"
    and safe_reply: "wf_store s \<Longrightarrow> reply_safe (snd (run h env args s))"
begin

lemma run_some: "h env args s = Some (run h env args s)"
  using returns [of env args s] by (simp add: run_def)

end

lemmas cmd_defs =
  run_def cmd_ping_def cmd_get_def cmd_set_def cmd_del_def cmd_exists_def cmd_expire_def
  cmd_pexpireat_def cmd_ttl_def cmd_persist_def cmd_type_def cmd_keys_def cmd_dbsize_def
  cmd_flushall_def cmd_hset_def cmd_hget_def cmd_hdel_def cmd_hgetall_def cmd_hlen_def
  cmd_lpush_def cmd_rpush_def cmd_lpop_def cmd_rpop_def cmd_llen_def cmd_lrange_def
  cmd_sadd_def cmd_srem_def cmd_sismember_def cmd_smembers_def cmd_scard_def
  incr_by_reply_def cmd_incr_def cmd_decr_def cmd_incrby_def cmd_decrby_def cmd_mset_def
  cmd_mget_def cmd_setnx_def

lemmas cmd_split = option.splits

lemma wf_store_del_loop: "wf_store s \<Longrightarrow> wf_store (fst (del_loop env i as n s))"
  by (induction env i as n s rule: del_loop.induct)
     (simp_all add: store_defs store_wf case_prod_unfold Let_def)

text \<open>What the loop of \<open>MSET\<close> does to the store when the arguments are pairs.\<close>

fun mset_sets :: "bytes list \<Rightarrow> store \<Rightarrow> store" where
  "mset_sets (k # v # rest) s = mset_sets rest (store_set k v s)"
| "mset_sets _ s = s"

lemma mset_loop_sets [simp]: "length args mod 2 = 0 \<Longrightarrow> mset_loop args s = Some (mset_sets args s)"
  by (induction args s rule: mset_loop.induct) simp_all

lemma wf_store_mset_sets: "wf_store s \<Longrightarrow> wf_store (mset_sets args s)"
  by (induction args s rule: mset_sets.induct) (simp_all add: store_defs store_wf)

lemma mget_loop_facts:
  "wf_store s \<Longrightarrow> wf_store (fst (mget_loop env i as s)) \<and>
   list_all reply_safe (snd (mget_loop env i as s))"
  by (induction as arbitrary: i s)
     (simp_all add: store_defs store_wf case_prod_unfold Let_def split: sum.split option.split)

lemma in_i64_consts [simp]: "in_i64 1" "in_i64 (-1)"
  by (simp_all add: in_i64_def)

lemmas cmd_simps =
  cmd_defs store_defs store_wf wf_store_del_loop wf_store_mset_sets mget_loop_facts
  case_prod_unfold Let_def

interpretation ping: store_cmd cmd_ping
  by unfold_locales (simp_all add: cmd_simps)
interpretation get_cmd: store_cmd cmd_get
  by unfold_locales (simp_all add: cmd_simps)
interpretation set_cmd: store_cmd cmd_set
  by unfold_locales (simp_all add: cmd_simps split: cmd_split)
interpretation del_cmd: store_cmd cmd_del
  by unfold_locales (simp_all add: cmd_simps)
interpretation exists_cmd: store_cmd cmd_exists
  by unfold_locales (simp_all add: cmd_simps)
interpretation expire_cmd: store_cmd cmd_expire
  by unfold_locales (simp_all add: cmd_simps split: cmd_split)
interpretation pexpireat_cmd: store_cmd cmd_pexpireat
  by unfold_locales (simp_all add: cmd_simps split: cmd_split)
interpretation ttl_cmd: store_cmd cmd_ttl
  by unfold_locales (simp_all add: cmd_simps)
interpretation persist_cmd: store_cmd cmd_persist
  by unfold_locales (simp_all add: cmd_simps)
interpretation type_cmd: store_cmd cmd_type
  by unfold_locales (simp_all add: cmd_simps type_op.result_op split: option.split)
interpretation keys_cmd: store_cmd cmd_keys
  by unfold_locales (simp_all add: cmd_simps split: cmd_split)
interpretation dbsize_cmd: store_cmd cmd_dbsize
  by unfold_locales (simp_all add: cmd_simps)
interpretation flushall_cmd: store_cmd cmd_flushall
  by unfold_locales (simp_all add: cmd_simps)
interpretation hset_cmd: store_cmd cmd_hset
  by unfold_locales (simp_all add: cmd_simps)
interpretation hget_cmd: store_cmd cmd_hget
  by unfold_locales (simp_all add: cmd_simps)
interpretation hdel_cmd: store_cmd cmd_hdel
  by unfold_locales (simp_all add: cmd_simps)
interpretation hgetall_cmd: store_cmd cmd_hgetall
  by unfold_locales (simp_all add: cmd_simps)
interpretation hlen_cmd: store_cmd cmd_hlen
  by unfold_locales (simp_all add: cmd_simps)
interpretation lpush_cmd: store_cmd cmd_lpush
  by unfold_locales (simp_all add: cmd_simps)
interpretation rpush_cmd: store_cmd cmd_rpush
  by unfold_locales (simp_all add: cmd_simps)
interpretation lpop_cmd: store_cmd cmd_lpop
  by unfold_locales (simp_all add: cmd_simps)
interpretation rpop_cmd: store_cmd cmd_rpop
  by unfold_locales (simp_all add: cmd_simps)
interpretation llen_cmd: store_cmd cmd_llen
  by unfold_locales (simp_all add: cmd_simps)
interpretation lrange_cmd: store_cmd cmd_lrange
  by unfold_locales (simp_all add: cmd_simps split: cmd_split)
interpretation sadd_cmd: store_cmd cmd_sadd
  by unfold_locales (simp_all add: cmd_simps)
interpretation srem_cmd: store_cmd cmd_srem
  by unfold_locales (simp_all add: cmd_simps)
interpretation sismember_cmd: store_cmd cmd_sismember
  by unfold_locales (simp_all add: cmd_simps)
interpretation smembers_cmd: store_cmd cmd_smembers
  by unfold_locales (simp_all add: cmd_simps)
interpretation scard_cmd: store_cmd cmd_scard
  by unfold_locales (simp_all add: cmd_simps)
interpretation incr_cmd: store_cmd cmd_incr
  by unfold_locales (simp_all add: cmd_simps)
interpretation decr_cmd: store_cmd cmd_decr
  by unfold_locales (simp_all add: cmd_simps)
interpretation incrby_cmd: store_cmd cmd_incrby
  by unfold_locales (auto simp: cmd_simps dest: parse_int_range split: cmd_split)
interpretation decrby_cmd: store_cmd cmd_decrby
  by unfold_locales (simp_all add: cmd_simps split: cmd_split)
interpretation mset_cmd: store_cmd cmd_mset
  by unfold_locales (simp_all add: cmd_simps)
interpretation mget_cmd: store_cmd cmd_mget
  by unfold_locales (simp_all add: cmd_simps)
interpretation setnx_cmd: store_cmd cmd_setnx
  by unfold_locales (simp_all add: cmd_simps)

lemmas handler_contracts =
  ping.store_cmd_axioms get_cmd.store_cmd_axioms set_cmd.store_cmd_axioms
  del_cmd.store_cmd_axioms exists_cmd.store_cmd_axioms expire_cmd.store_cmd_axioms
  pexpireat_cmd.store_cmd_axioms ttl_cmd.store_cmd_axioms persist_cmd.store_cmd_axioms
  type_cmd.store_cmd_axioms keys_cmd.store_cmd_axioms dbsize_cmd.store_cmd_axioms
  flushall_cmd.store_cmd_axioms hset_cmd.store_cmd_axioms hget_cmd.store_cmd_axioms
  hdel_cmd.store_cmd_axioms hgetall_cmd.store_cmd_axioms hlen_cmd.store_cmd_axioms
  lpush_cmd.store_cmd_axioms rpush_cmd.store_cmd_axioms lpop_cmd.store_cmd_axioms
  rpop_cmd.store_cmd_axioms llen_cmd.store_cmd_axioms lrange_cmd.store_cmd_axioms
  sadd_cmd.store_cmd_axioms srem_cmd.store_cmd_axioms sismember_cmd.store_cmd_axioms
  smembers_cmd.store_cmd_axioms scard_cmd.store_cmd_axioms incr_cmd.store_cmd_axioms
  decr_cmd.store_cmd_axioms incrby_cmd.store_cmd_axioms decrby_cmd.store_cmd_axioms
  mset_cmd.store_cmd_axioms mget_cmd.store_cmd_axioms setnx_cmd.store_cmd_axioms

lemma handlers_store_cmd: "\<forall>p \<in> set handlers. store_cmd (snd p)"
  by (simp add: handlers_def handler_contracts)

lemma handler_store_cmd: "map_of handlers name = Some h \<Longrightarrow> store_cmd h"
  using handlers_store_cmd by (fastforce dest: map_of_SomeD)

subsection \<open>Read commands\<close>

locale read_cmd = store_cmd +
  assumes reads_only: "wf_store s \<Longrightarrow> (\<And>i. clock env i \<le> t) \<Longrightarrow> faded t s (fst (run h env args s))"

lemma mget_loop_read:
  "wf_store s \<Longrightarrow> (\<And>i. clock env i \<le> t) \<Longrightarrow> faded t s (fst (mget_loop env i as s))"
proof (induction as arbitrary: i s)
  case Nil
  then show ?case by simp
next
  case (Cons a as)
  let ?s = "fst (on_shard a (sh_get a (clock env i)) s)"
  have "faded t s ?s" and "faded t ?s (fst (mget_loop env (Suc i) as ?s))"
    using Cons by (simp_all add: store_read_only store_wf)
  then have "faded t s (fst (mget_loop env (Suc i) as ?s))" by (rule faded_trans)
  then show ?case by (simp add: store_defs case_prod_unfold Let_def)
qed

lemmas read_simps = cmd_defs store_defs store_read_only mget_loop_read case_prod_unfold Let_def

interpretation ping: read_cmd cmd_ping
  by unfold_locales (simp add: read_simps)
interpretation get_cmd: read_cmd cmd_get
  by unfold_locales (simp add: read_simps)
interpretation exists_cmd: read_cmd cmd_exists
  by unfold_locales (simp add: read_simps)
interpretation ttl_cmd: read_cmd cmd_ttl
  by unfold_locales (simp add: read_simps)
interpretation type_cmd: read_cmd cmd_type
  by unfold_locales (simp add: read_simps)
interpretation keys_cmd: read_cmd cmd_keys
  by unfold_locales (simp add: read_simps split: option.split)
interpretation dbsize_cmd: read_cmd cmd_dbsize
  by unfold_locales (simp add: read_simps)
interpretation hget_cmd: read_cmd cmd_hget
  by unfold_locales (simp add: read_simps)
interpretation hgetall_cmd: read_cmd cmd_hgetall
  by unfold_locales (simp add: read_simps)
interpretation hlen_cmd: read_cmd cmd_hlen
  by unfold_locales (simp add: read_simps)
interpretation llen_cmd: read_cmd cmd_llen
  by unfold_locales (simp add: read_simps)
interpretation lrange_cmd: read_cmd cmd_lrange
  by unfold_locales (simp add: read_simps split: option.split)
interpretation sismember_cmd: read_cmd cmd_sismember
  by unfold_locales (simp add: read_simps)
interpretation smembers_cmd: read_cmd cmd_smembers
  by unfold_locales (simp add: read_simps)
interpretation scard_cmd: read_cmd cmd_scard
  by unfold_locales (simp add: read_simps)
interpretation mget_cmd: read_cmd cmd_mget
  by unfold_locales (simp add: read_simps)

subsection \<open>Errors change nothing\<close>

locale careful_cmd = store_cmd +
  assumes error_inert: "wf_store s \<Longrightarrow> (\<And>i. clock env i \<le> t) \<Longrightarrow>
    snd (run h env args s) = ErrorReply msg \<Longrightarrow> faded t s (fst (run h env args s))"

sublocale read_cmd \<subseteq> careful_cmd
  by unfold_locales (rule reads_only)

definition inert_spec :: "(entry option \<Rightarrow> entry option \<times> (store_err + 'a)) \<Rightarrow> bool" where
  "inert_spec spec \<longleftrightarrow> (\<forall>eo err. snd (spec eo) = Inl err \<longrightarrow> fst (spec eo) = eo)"

lemma inert_specs [simp]:
  "inert_spec (spec_incr_by delta)" "inert_spec (spec_push g)" "inert_spec (spec_pop get rest)"
  "inert_spec (spec_hset field val)" "inert_spec (spec_hdel flds)"
  "inert_spec (spec_sadd members)" "inert_spec (spec_srem members)"
  by (auto simp: inert_spec_def split_option_all case_prod_unfold Let_def
      split: gvalue.splits option.splits list.splits if_splits)

lemma faded_error:
  assumes "kv_op key f now spec" and "inert_spec spec" and "wf_store s" and "now \<le> t"
    and "snd (on_shard key f s) = Inl err"
  shows "faded t s (fst (on_shard key f s))"
proof (rule kv_op.faded_op [OF assms(1,3,4)])
  have "snd (spec (live_at now (lookup s key))) = Inl err"
    using kv_op.result_op [OF assms(1,3)] assms(5) by simp
  then show "fst (spec (live_at now (lookup s key))) = live_at now (lookup s key)"
    using assms(2) unfolding inert_spec_def by blast
qed

lemma incr_by_kv_op: "in_i64 delta \<Longrightarrow> kv_op key (sh_incr_by key delta now) now (spec_incr_by delta)"
  using incr_by.kv_op_axioms [of key delta now] by simp

lemmas write_errors =
  incr_by_kv_op [THEN faded_error, OF _ inert_specs(1)]
  lpush.kv_op_axioms [THEN faded_error, OF inert_specs(2)]
  rpush.kv_op_axioms [THEN faded_error, OF inert_specs(2)]
  lpop.kv_op_axioms [THEN faded_error, OF inert_specs(3)]
  rpop.kv_op_axioms [THEN faded_error, OF inert_specs(3)]
  hset.kv_op_axioms [THEN faded_error, OF inert_specs(4)]
  hdel.kv_op_axioms [THEN faded_error, OF inert_specs(5)]
  sadd.kv_op_axioms [THEN faded_error, OF inert_specs(6)]
  srem.kv_op_axioms [THEN faded_error, OF inert_specs(7)]

lemma reply_or_err_Error:
  "reply_or_err f r = ErrorReply msg \<Longrightarrow> (\<And>x. f x \<noteq> ErrorReply msg) \<Longrightarrow> \<exists>err. r = Inl err"
  by (cases r) (auto simp: reply_or_err_def)

lemma bulk_or_null_not_error [simp]: "bulk_or_null v \<noteq> ErrorReply msg"
  by (simp add: bulk_or_null_def split: option.split)

lemmas careful_simps = cmd_defs store_defs case_prod_unfold Let_def

interpretation set_cmd: careful_cmd cmd_set
  by unfold_locales (auto simp: careful_simps split: if_splits option.splits)
interpretation del_cmd: careful_cmd cmd_del
  by unfold_locales (auto simp: careful_simps split: if_splits)
interpretation expire_cmd: careful_cmd cmd_expire
  by unfold_locales (auto simp: careful_simps split: if_splits option.splits)
interpretation pexpireat_cmd: careful_cmd cmd_pexpireat
  by unfold_locales (auto simp: careful_simps split: if_splits option.splits)
interpretation persist_cmd: careful_cmd cmd_persist
  by unfold_locales (auto simp: careful_simps split: if_splits)
interpretation flushall_cmd: careful_cmd cmd_flushall
  by unfold_locales (auto simp: careful_simps split: if_splits)
interpretation setnx_cmd: careful_cmd cmd_setnx
  by unfold_locales (auto simp: careful_simps split: if_splits)
interpretation mset_cmd: careful_cmd cmd_mset
  by unfold_locales (auto simp: careful_simps split: if_splits)
interpretation lpush_cmd: careful_cmd cmd_lpush
  by unfold_locales
     (auto simp: careful_simps split: if_splits dest!: reply_or_err_Error intro: write_errors)
interpretation rpush_cmd: careful_cmd cmd_rpush
  by unfold_locales
     (auto simp: careful_simps split: if_splits dest!: reply_or_err_Error intro: write_errors)
interpretation lpop_cmd: careful_cmd cmd_lpop
  by unfold_locales
     (auto simp: careful_simps split: if_splits dest!: reply_or_err_Error intro: write_errors)
interpretation rpop_cmd: careful_cmd cmd_rpop
  by unfold_locales
     (auto simp: careful_simps split: if_splits dest!: reply_or_err_Error intro: write_errors)
interpretation hset_cmd: careful_cmd cmd_hset
  by unfold_locales
     (auto simp: careful_simps split: if_splits dest!: reply_or_err_Error intro: write_errors)
interpretation hdel_cmd: careful_cmd cmd_hdel
  by unfold_locales
     (auto simp: careful_simps split: if_splits dest!: reply_or_err_Error intro: write_errors)
interpretation sadd_cmd: careful_cmd cmd_sadd
  by unfold_locales
     (auto simp: careful_simps split: if_splits dest!: reply_or_err_Error intro: write_errors)
interpretation srem_cmd: careful_cmd cmd_srem
  by unfold_locales
     (auto simp: careful_simps split: if_splits dest!: reply_or_err_Error intro: write_errors)
interpretation incr_cmd: careful_cmd cmd_incr
  by unfold_locales
     (auto simp: careful_simps split: if_splits dest!: reply_or_err_Error intro: write_errors)
interpretation decr_cmd: careful_cmd cmd_decr
  by unfold_locales
     (auto simp: careful_simps split: if_splits dest!: reply_or_err_Error intro: write_errors)
interpretation incrby_cmd: careful_cmd cmd_incrby
  by unfold_locales
     (auto simp: careful_simps split: if_splits option.splits
       dest!: reply_or_err_Error intro: write_errors parse_int_range)
interpretation decrby_cmd: careful_cmd cmd_decrby
  by unfold_locales
     (auto simp: careful_simps split: if_splits option.splits
       dest!: reply_or_err_Error intro: write_errors)

lemma handlers_careful: "\<forall>p \<in> set handlers. careful_cmd (snd p)"
  by (simp add: handlers_def ping.careful_cmd_axioms get_cmd.careful_cmd_axioms
      set_cmd.careful_cmd_axioms del_cmd.careful_cmd_axioms exists_cmd.careful_cmd_axioms
      expire_cmd.careful_cmd_axioms pexpireat_cmd.careful_cmd_axioms ttl_cmd.careful_cmd_axioms
      persist_cmd.careful_cmd_axioms type_cmd.careful_cmd_axioms keys_cmd.careful_cmd_axioms
      dbsize_cmd.careful_cmd_axioms flushall_cmd.careful_cmd_axioms hset_cmd.careful_cmd_axioms
      hget_cmd.careful_cmd_axioms hdel_cmd.careful_cmd_axioms hgetall_cmd.careful_cmd_axioms
      hlen_cmd.careful_cmd_axioms lpush_cmd.careful_cmd_axioms rpush_cmd.careful_cmd_axioms
      lpop_cmd.careful_cmd_axioms rpop_cmd.careful_cmd_axioms llen_cmd.careful_cmd_axioms
      lrange_cmd.careful_cmd_axioms sadd_cmd.careful_cmd_axioms srem_cmd.careful_cmd_axioms
      sismember_cmd.careful_cmd_axioms smembers_cmd.careful_cmd_axioms
      scard_cmd.careful_cmd_axioms incr_cmd.careful_cmd_axioms decr_cmd.careful_cmd_axioms
      incrby_cmd.careful_cmd_axioms decrby_cmd.careful_cmd_axioms mset_cmd.careful_cmd_axioms
      mget_cmd.careful_cmd_axioms setnx_cmd.careful_cmd_axioms)

subsection \<open>Commands that do not depend on the clock\<close>

definition zero_deadline :: "entry option \<Rightarrow> bool" where
  "zero_deadline eo \<longleftrightarrow> (\<forall>e. eo = Some e \<longrightarrow> is_zero (expire_at e))"

definition no_deadlines :: "store \<Rightarrow> bool" where
  "no_deadlines s \<longleftrightarrow> (\<forall>k. zero_deadline (lookup s k))"

definition keeps_zero :: "(entry option \<Rightarrow> entry option \<times> 'r) \<Rightarrow> bool" where
  "keeps_zero spec \<longleftrightarrow> (\<forall>eo. zero_deadline eo \<longrightarrow> zero_deadline (fst (spec eo)))"

lemma zero_deadline_simps [simp]:
  "zero_deadline None"
  "zero_deadline (Some e) = is_zero (expire_at e)"
  by (simp_all add: zero_deadline_def)

lemma live_at_zero_deadline [simp]: "zero_deadline eo \<Longrightarrow> live_at t eo = eo"
  by (cases eo) simp_all

lemma no_deadlinesD [simp]: "no_deadlines s \<Longrightarrow> zero_deadline (lookup s k)"
  by (simp add: no_deadlines_def)

context kv_op
begin

lemma pure_op:
  assumes "wf_store s" and "no_deadlines s"
  shows "lookup (fst (on_shard key f s)) = (lookup s)(key := fst (spec (lookup s key)))"
    and "snd (on_shard key f s) = snd (spec (lookup s key))"
    and "keeps_zero spec \<Longrightarrow> no_deadlines (fst (on_shard key f s))"
  using assms by (simp_all add: lookup_op result_op no_deadlines_def keeps_zero_def)

end

lemma keeps_zero_specs [simp]:
  "keeps_zero (\<lambda>eo. (Some (string_entry val zero_time), ()))"
  "keeps_zero (\<lambda>eo. (None, eo \<noteq> None))"
  "keeps_zero spec_persist" "keeps_zero (spec_set_nx val)" "keeps_zero (spec_incr_by delta)"
  "keeps_zero (spec_push g)" "keeps_zero (spec_pop get rest)"
  "keeps_zero (spec_hset field val)" "keeps_zero (spec_hdel flds)"
  "keeps_zero (spec_sadd members)" "keeps_zero (spec_srem members)"
  by (simp_all add: keeps_zero_def zero_deadline_def split_option_all string_entry_def
      list_entry_def hash_entry_def set_entry_of_def Let_def case_prod_unfold
      split: gvalue.split option.split list.split)

text \<open>\<open>g\<close> is a condition on the arguments.\<close>

locale pure_cmd = store_cmd +
  fixes g :: "bytes list \<Rightarrow> bool"
  assumes pure_reply: "wf_store s \<Longrightarrow> wf_store r \<Longrightarrow> no_deadlines s \<Longrightarrow> no_deadlines r \<Longrightarrow>
      lookup r = lookup s \<Longrightarrow> g args \<Longrightarrow>
      snd (run h env' args r) = snd (run h env args s)"
    and pure_effect: "wf_store s \<Longrightarrow> wf_store r \<Longrightarrow> no_deadlines s \<Longrightarrow> no_deadlines r \<Longrightarrow>
      lookup r = lookup s \<Longrightarrow> g args \<Longrightarrow>
      lookup (fst (run h env' args r)) = lookup (fst (run h env args s))"
    and pure_zero: "wf_store s \<Longrightarrow> no_deadlines s \<Longrightarrow> g args \<Longrightarrow> no_deadlines (fst (run h env args s))"

lemma no_deadlines_cong: "lookup r = lookup s \<Longrightarrow> no_deadlines r = no_deadlines s"
  by (simp add: no_deadlines_def)

lemma incr_by_pure:
  assumes "wf_store s" "no_deadlines s" "in_i64 delta"
  shows "lookup (fst (on_shard key (sh_incr_by key delta now) s))
         = (lookup s)(key := fst (spec_incr_by delta (lookup s key)))"
    and "snd (on_shard key (sh_incr_by key delta now) s) = snd (spec_incr_by delta (lookup s key))"
    and "no_deadlines (fst (on_shard key (sh_incr_by key delta now) s))"
  using incr_by.pure_op [OF assms(1,2), where key = key and delta = delta and now = now] assms(3)
  by simp_all

lemmas pure_ops =
  set.pure_op(1,2) set.pure_op(3) [OF _ _ keeps_zero_specs(1)]
  del.pure_op(1,2) del.pure_op(3) [OF _ _ keeps_zero_specs(2)]
  persist.pure_op(1,2) persist.pure_op(3) [OF _ _ keeps_zero_specs(3)]
  set_nx.pure_op(1,2) set_nx.pure_op(3) [OF _ _ keeps_zero_specs(4)] incr_by_pure
  lpush.pure_op(1,2) lpush.pure_op(3) [OF _ _ keeps_zero_specs(6)]
  rpush.pure_op(1,2) rpush.pure_op(3) [OF _ _ keeps_zero_specs(6)]
  lpop.pure_op(1,2) lpop.pure_op(3) [OF _ _ keeps_zero_specs(7)]
  rpop.pure_op(1,2) rpop.pure_op(3) [OF _ _ keeps_zero_specs(7)]
  hset.pure_op(1,2) hset.pure_op(3) [OF _ _ keeps_zero_specs(8)]
  hdel.pure_op(1,2) hdel.pure_op(3) [OF _ _ keeps_zero_specs(9)]
  sadd.pure_op(1,2) sadd.pure_op(3) [OF _ _ keeps_zero_specs(10)]
  srem.pure_op(1,2) srem.pure_op(3) [OF _ _ keeps_zero_specs(11)]

lemma pure_del_loop:
  "wf_store s \<Longrightarrow> wf_store r \<Longrightarrow> no_deadlines s \<Longrightarrow> lookup r = lookup s \<Longrightarrow>
   snd (del_loop env' j as n r) = snd (del_loop env i as n s) \<and>
   lookup (fst (del_loop env' j as n r)) = lookup (fst (del_loop env i as n s)) \<and>
   no_deadlines (fst (del_loop env i as n s))"
proof (induction as arbitrary: i j n s r)
  case Nil
  then show ?case by simp
next
  case (Cons a as)
  let ?s = "on_shard a (sh_del a (clock env i)) s" and ?r = "on_shard a (sh_del a (clock env' j)) r"
  have r: "no_deadlines r" using no_deadlines_cong [of r s] Cons.prems by simp
  have "lookup (fst ?r) = lookup (fst ?s)" "snd ?r = snd ?s" "no_deadlines (fst ?s)"
    using Cons.prems r by (simp_all add: pure_ops)
  with Cons.IH [of "fst ?s" "fst ?r" "Suc j" "if snd ?s then n + 1 else n" "Suc i"] Cons.prems(1,2)
  show ?case by (simp add: store_defs store_wf case_prod_unfold Let_def)
qed

lemma pure_mset_sets:
  "wf_store s \<Longrightarrow> wf_store r \<Longrightarrow> no_deadlines s \<Longrightarrow> lookup r = lookup s \<Longrightarrow>
   lookup (mset_sets args r) = lookup (mset_sets args s) \<and> no_deadlines (mset_sets args s)"
proof (induction args s arbitrary: r rule: mset_sets.induct)
  case (1 k v rest s)
  let ?s = "fst (on_shard k (sh_set k v) s)" and ?r = "fst (on_shard k (sh_set k v) r)"
  have r: "no_deadlines r" using no_deadlines_cong [of r s] 1 by simp
  have "lookup ?r = lookup ?s" "no_deadlines ?s" "wf_store ?s" "wf_store ?r"
    using 1 r by (simp_all add: pure_ops store_wf)
  with 1(1) [of ?r] show ?case by (simp add: store_defs)
qed simp_all

lemma sh_set_ex_zero: "sh_set_ex key val zero_time = sh_set key val"
  by (rule ext) (simp add: sh_set_ex_def sh_set_def)

lemma no_deadlines_flush: "wf_store s \<Longrightarrow> no_deadlines (store_flush s)"
  by (simp add: no_deadlines_def)

lemmas pure_simps =
  cmd_defs store_defs pure_ops sh_set_ex_zero no_deadlines_flush case_prod_unfold Let_def

interpretation set_cmd: pure_cmd cmd_set "\<lambda>args. length args = 2"
  by unfold_locales (simp_all add: pure_simps)
interpretation del_cmd: pure_cmd cmd_del "\<lambda>_. True"
proof
  fix s r :: store and env env' :: env and args :: "bytes list"
  assume wf: "wf_store s" and nd: "no_deadlines s"
  from pure_del_loop [OF wf wf nd refl, of env' 0 args 0 env 0]
  show "no_deadlines (fst (run cmd_del env args s))" using nd by (simp add: run_def cmd_del_def case_prod_unfold Let_def)
  assume "wf_store r" "lookup r = lookup s"
  from pure_del_loop [OF wf this(1) nd this(2), of env' 0 args 0 env 0]
  show "snd (run cmd_del env' args r) = snd (run cmd_del env args s)"
    and "lookup (fst (run cmd_del env' args r)) = lookup (fst (run cmd_del env args s))"
    using \<open>lookup r = lookup s\<close> by (simp_all add: run_def cmd_del_def case_prod_unfold Let_def)
qed
interpretation persist_cmd: pure_cmd cmd_persist "\<lambda>_. True"
  by unfold_locales (simp_all add: pure_simps)
interpretation lpush_cmd: pure_cmd cmd_lpush "\<lambda>_. True"
  by unfold_locales (simp_all add: pure_simps)
interpretation rpush_cmd: pure_cmd cmd_rpush "\<lambda>_. True"
  by unfold_locales (simp_all add: pure_simps)
interpretation lpop_cmd: pure_cmd cmd_lpop "\<lambda>_. True"
  by unfold_locales (simp_all add: pure_simps)
interpretation rpop_cmd: pure_cmd cmd_rpop "\<lambda>_. True"
  by unfold_locales (simp_all add: pure_simps)
interpretation hset_cmd: pure_cmd cmd_hset "\<lambda>_. True"
  by unfold_locales (simp_all add: pure_simps)
interpretation hdel_cmd: pure_cmd cmd_hdel "\<lambda>_. True"
  by unfold_locales (simp_all add: pure_simps)
interpretation sadd_cmd: pure_cmd cmd_sadd "\<lambda>_. True"
  by unfold_locales (simp_all add: pure_simps)
interpretation srem_cmd: pure_cmd cmd_srem "\<lambda>_. True"
  by unfold_locales (simp_all add: pure_simps)
interpretation incr_cmd: pure_cmd cmd_incr "\<lambda>_. True"
  by unfold_locales (simp_all add: pure_simps)
interpretation decr_cmd: pure_cmd cmd_decr "\<lambda>_. True"
  by unfold_locales (simp_all add: pure_simps)
interpretation incrby_cmd: pure_cmd cmd_incrby "\<lambda>_. True"
  by unfold_locales (simp_all add: pure_simps parse_int_range split: option.split)
interpretation decrby_cmd: pure_cmd cmd_decrby "\<lambda>_. True"
  by unfold_locales (simp_all add: pure_simps split: option.split)
interpretation mset_cmd: pure_cmd cmd_mset "\<lambda>_. True"
proof
  fix s r :: store and env env' :: env and args :: "bytes list"
  assume wf: "wf_store s" and nd: "no_deadlines s"
  from pure_mset_sets [OF wf wf nd refl, of args]
  show "no_deadlines (fst (run cmd_mset env args s))" using nd by (simp add: run_def cmd_mset_def)
  assume "wf_store r" "lookup r = lookup s"
  from pure_mset_sets [OF wf this(1) nd this(2), of args]
  show "snd (run cmd_mset env' args r) = snd (run cmd_mset env args s)"
    and "lookup (fst (run cmd_mset env' args r)) = lookup (fst (run cmd_mset env args s))"
    using \<open>lookup r = lookup s\<close> by (simp_all add: run_def cmd_mset_def)
qed
interpretation setnx_cmd: pure_cmd cmd_setnx "\<lambda>_. True"
  by unfold_locales (simp_all add: pure_simps)
interpretation flushall_cmd: pure_cmd cmd_flushall "\<lambda>_. True"
  by unfold_locales (auto simp: pure_simps fun_eq_iff)

end
