(* ===== verification/Aof_File.thy ===== *)
theory Aof_File
  imports Protocol
begin

section \<open>The append-only file\<close>

text \<open>
  Models \<open>internal/persistence/aof.go\<close>. The file is its bytes and how many of them a
  successful \<open>Sync\<close> has made durable; a crash keeps the durable bytes and any part of the
  others. Results of the operating system (a failed write that leaves part of the record, a
  failed sync, an unreadable file) are arguments. \<open>replay_loop\<close> is the loop of
  \<open>ReplayAOF\<close> over the bytes of the file; the callback \<open>appl\<close> is an argument, as
  in the code, and threads the state it changes.

  The lemmas show that what \<open>Append\<close> writes is what \<open>ReplayAOF\<close> reads, that a
  record cut short by a crash is dropped without an error and nothing before it is lost, and
  what each fsync policy guarantees.
\<close>

subsection \<open>Policies\<close>

datatype fsync_policy = FsyncAlways | FsyncEverysec | FsyncNo

definition parse_fsync_policy :: "(bytes \<Rightarrow> bytes) \<Rightarrow> bytes \<Rightarrow> fsync_policy option" where
  "parse_fsync_policy lc raw =
     (let s = to_lower lc raw
      in if s = ''always'' then Some FsyncAlways
         else if s = ''everysec'' then Some FsyncEverysec
         else if s = ''no'' then Some FsyncNo
         else None)"

subsection \<open>Writing\<close>

definition encode_command :: "(bytes \<Rightarrow> bytes) \<Rightarrow> command \<Rightarrow> bytes" where
  "encode_command uc cmd =
     (let parts = to_upper uc (cmd_name cmd) # cmd_args cmd
      in ''*'' @ format_int (int (length parts)) @ crlf
         @ concat (map (\<lambda>part. ''$'' @ format_int (int (length part)) @ crlf @ part @ crlf) parts))"

record aof =
  aof_bytes :: bytes
  aof_durable :: nat
  aof_policy :: fsync_policy
  aof_last_sync :: time

text \<open>
  \<open>opened\<close>: what the file holds already, and how many bytes of that the disk has; \<open>OpenAOF\<close> does
  not sync.
\<close>

definition open_aof ::
  "bytes \<Rightarrow> fsync_policy \<Rightarrow> bytes option \<Rightarrow> (bytes + bytes \<times> nat) \<Rightarrow> bytes + aof" where
  "open_aof path policy mkdir_err opened =
     (if path = [] then Inl ''empty AOF path''
      else case mkdir_err of
             Some e \<Rightarrow> Inl e
           | None \<Rightarrow>
               (case opened of
                  Inl e \<Rightarrow> Inl e
                | Inr (content, synced) \<Rightarrow>
                    Inr \<lparr>aof_bytes = content, aof_durable = min synced (length content),
                         aof_policy = policy, aof_last_sync = zero_time\<rparr>))"

text \<open>
  \<open>file.Write\<close>: \<open>Some (n, e)\<close> is a write that fails with \<open>e\<close> after \<open>n\<close> bytes.
  \<open>file.Sync\<close>: \<open>Some e\<close> is a failure.
\<close>

definition file_write :: "bytes \<Rightarrow> (nat \<times> bytes) option \<Rightarrow> aof \<Rightarrow> aof \<times> bytes option" where
  "file_write buf fault a =
     (case fault of
        None \<Rightarrow> (a\<lparr>aof_bytes := aof_bytes a @ buf\<rparr>, None)
      | Some (n, e) \<Rightarrow> (a\<lparr>aof_bytes := aof_bytes a @ take n buf\<rparr>, Some e))"

definition file_sync :: "bytes option \<Rightarrow> aof \<Rightarrow> aof \<times> bytes option" where
  "file_sync fault a =
     (case fault of
        None \<Rightarrow> (a\<lparr>aof_durable := length (aof_bytes a)\<rparr>, None)
      | Some e \<Rightarrow> (a, Some e))"

text \<open>\<open>since\<close> and \<open>now\<close> are the two readings of the clock.\<close>

definition aof_append ::
  "(bytes \<Rightarrow> bytes) \<Rightarrow> command \<Rightarrow> time \<Rightarrow> time \<Rightarrow> (nat \<times> bytes) option \<Rightarrow> bytes option \<Rightarrow> aof \<Rightarrow>
   aof \<times> bytes option" where
  "aof_append uc cmd since now write_fault sync_fault a =
     (case file_write (encode_command uc cmd) write_fault a of
        (a, Some e) \<Rightarrow> (a, Some e)
      | (a, None) \<Rightarrow>
          (let sync =
             (case file_sync sync_fault a of
                (a, Some e) \<Rightarrow> (a, Some e)
              | (a, None) \<Rightarrow> (a\<lparr>aof_last_sync := now\<rparr>, None))
           in case aof_policy a of
                FsyncAlways \<Rightarrow> sync
              | FsyncEverysec \<Rightarrow>
                  if time_sub since (aof_last_sync a) \<ge> 1000000000 then sync else (a, None)
              | FsyncNo \<Rightarrow> (a, None)))"

definition aof_close :: "bytes option \<Rightarrow> bytes option \<Rightarrow> aof \<Rightarrow> aof \<times> bytes option" where
  "aof_close sync_fault close_err a =
     (case file_sync sync_fault a of
        (a, Some e) \<Rightarrow> (a, Some e)
      | (a, None) \<Rightarrow> (a, close_err))"

subsection \<open>Replaying\<close>

datatype replay_err = ReplayRead io_err | ReplayApply bytes

function replay_loop ::
  "(bytes \<Rightarrow> bytes) \<Rightarrow> (command \<Rightarrow> 's \<Rightarrow> 's \<times> bytes option) \<Rightarrow> io_err \<Rightarrow> bytes \<Rightarrow> 's \<Rightarrow>
   's \<times> replay_err option" where
  "replay_loop uc appl fin inp st =
     (case resp_parse uc fin inp of
        Inl e \<Rightarrow> (st, if is_eof e then None else Some (ReplayRead e))
      | Inr (cmd, rest) \<Rightarrow>
          (case appl cmd st of
             (st, Some e) \<Rightarrow> (st, Some (ReplayApply e))
           | (st, None) \<Rightarrow> replay_loop uc appl fin rest st))"
  by pat_completeness auto
termination
proof (relation "measure (\<lambda>(_, _, _, inp, _). length inp)")
  show "((uc, appl, fin, rest, st'), uc, appl, fin, inp, st)
        \<in> measure (\<lambda>(_, _, _, inp, _). length inp)"
    if "resp_parse uc fin inp = Inr p" "(cmd, rest) = p" for uc appl fin inp st st' p cmd rest
    using consumesD [OF consumes_resp_parse that(1) [folded that(2)]] by auto
qed simp

declare replay_loop.simps [simp del]

text \<open>\<open>opened\<close>: \<open>None\<close> is a file that does not exist.\<close>

definition replay_aof ::
  "(bytes \<Rightarrow> bytes) \<Rightarrow> (command \<Rightarrow> 's \<Rightarrow> 's \<times> bytes option) \<Rightarrow> (bytes + bytes option) \<Rightarrow>
   io_err \<Rightarrow> 's \<Rightarrow> 's \<times> replay_err option" where
  "replay_aof uc appl opened fin st =
     (case opened of
        Inl e \<Rightarrow> (st, Some (ReplayRead (OtherErr e)))
      | Inr None \<Rightarrow> (st, None)
      | Inr (Some content) \<Rightarrow> replay_loop uc appl fin content st)"

lemmas aof_eval [go_eval] =
  parse_fsync_policy_def encode_command_def file_write_def file_sync_def aof_append_def

subsection \<open>A record is a request\<close>

definition command_parts :: "(bytes \<Rightarrow> bytes) \<Rightarrow> command \<Rightarrow> bytes list" where
  "command_parts uc cmd = to_upper uc (cmd_name cmd) # cmd_args cmd"

lemma encode_command_request: "encode_command uc cmd = request_wire (command_parts uc cmd)"
proof -
  have "(\<lambda>part. ''$'' @ format_int (int (length part)) @ crlf @ part @ crlf) = bulk_wire"
    by (rule ext) (simp add: bulk_wire_def header_def)
  then show ?thesis
    by (simp only: encode_command_def request_wire_def command_parts_def header_def Let_def)
      (simp add: header_def)
qed

text \<open>A command that fits the limits of the protocol and is already in upper case.\<close>

definition command_ok :: "(bytes \<Rightarrow> bytes) \<Rightarrow> command \<Rightarrow> bool" where
  "command_ok uc cmd \<longleftrightarrow>
     parts_ok (command_parts uc cmd) \<and> to_upper uc (cmd_name cmd) = cmd_name cmd"

lemma command_of_parts_parts: "command_ok uc cmd \<Longrightarrow> command_of_parts uc (command_parts uc cmd) = cmd"
  by (simp add: command_ok_def command_of_parts_def command_parts_def)

interpretation aof_record: framing "command_ok uc" "encode_command uc" "resp_parse uc EOF"
    "\<lambda>cmd. cmd" is_eof for uc
proof
  fix cmd rest assume ok: "command_ok uc cmd"
  then show "resp_parse uc EOF (encode_command uc cmd @ rest) = Inr (cmd, rest)"
    using request.roundtrip [of "command_parts uc cmd" uc rest]
    by (simp add: encode_command_request command_of_parts_parts)
      (simp add: command_ok_def)
next
  fix cmd p assume "command_ok uc cmd" and "strict_prefix p (encode_command uc cmd)"
  then show "\<exists>e. resp_parse uc EOF p = Inl e \<and> is_eof e"
    unfolding encode_command_request command_ok_def by (blast intro: request.truncated)
qed

definition encode_commands :: "(bytes \<Rightarrow> bytes) \<Rightarrow> command list \<Rightarrow> bytes" where
  "encode_commands uc cmds = concat (map (encode_command uc) cmds)"

text \<open>What applying a list of commands does; the first error stops it.\<close>

fun apply_all ::
  "(command \<Rightarrow> 's \<Rightarrow> 's \<times> bytes option) \<Rightarrow> command list \<Rightarrow> 's \<Rightarrow> 's \<times> replay_err option" where
  "apply_all appl [] st = (st, None)"
| "apply_all appl (cmd # cmds) st =
     (case appl cmd st of
        (st, Some e) \<Rightarrow> (st, Some (ReplayApply e))
      | (st, None) \<Rightarrow> apply_all appl cmds st)"

lemma resp_parse_empty: "resp_parse uc EOF [] = Inl EOF"
  by (simp add: resp_parse_def read_crlf_def)

text \<open>
  Whole records followed by a strict prefix of one more, the file after a crash in
  \<open>Append\<close>: the records are applied in order and the rest is ignored.
\<close>

lemma replay_loop_records:
  assumes "list_all (command_ok uc) cmds"
    and "tail = [] \<or> (\<exists>cmd. command_ok uc cmd \<and> strict_prefix tail (encode_command uc cmd))"
  shows "replay_loop uc appl EOF (encode_commands uc cmds @ tail) st = apply_all appl cmds st"
  using assms(1)
proof (induction cmds arbitrary: st)
  case Nil
  obtain e where "resp_parse uc EOF tail = Inl e" "is_eof e"
    using assms(2) aof_record.truncated resp_parse_empty is_eof_simps(1) by metis
  then show ?case by (simp add: replay_loop.simps [of uc appl EOF tail] encode_commands_def)
next
  case (Cons cmd cmds)
  have "resp_parse uc EOF (encode_command uc cmd @ encode_commands uc cmds @ tail)
        = Inr (cmd, encode_commands uc cmds @ tail)"
    using Cons.prems by (intro aof_record.roundtrip) simp
  then show ?case
    using Cons by (subst replay_loop.simps) (simp add: encode_commands_def split: option.split)
qed

lemma encode_commands_append:
  "encode_commands uc (xs @ ys) = encode_commands uc xs @ encode_commands uc ys"
  by (simp add: encode_commands_def)

text \<open>Every prefix of a file of records has that shape.\<close>

lemma prefix_records:
  assumes "list_all (command_ok uc) cmds" and "prefix p (encode_commands uc cmds)"
  shows "\<exists>n tail. n \<le> length cmds \<and> p = encode_commands uc (take n cmds) @ tail \<and>
           (if n = length cmds then tail = [] else strict_prefix tail (encode_command uc (cmds ! n)))"
  using assms
proof (induction cmds arbitrary: p)
  case Nil
  then show ?case by (simp add: encode_commands_def)
next
  case (Cons cmd cmds)
  let ?w = "encode_command uc cmd"
  show ?case
  proof (cases "strict_prefix p ?w")
    case True
    then show ?thesis
      by (intro exI [of _ 0] exI [of _ p]) (simp add: encode_commands_def)
  next
    case False
    then obtain q where q: "p = ?w @ q" "prefix q (encode_commands uc cmds)"
      using Cons.prems(2) by (auto simp: encode_commands_def prefix_append strict_prefix_def)
    then obtain n tail where "n \<le> length cmds" "q = encode_commands uc (take n cmds) @ tail"
      "if n = length cmds then tail = [] else strict_prefix tail (encode_command uc (cmds ! n))"
      using Cons.IH [of q] Cons.prems(1) by auto
    then show ?thesis
      using q(1) by (intro exI [of _ "Suc n"] exI [of _ tail]) (auto simp: encode_commands_def)
  qed
qed

text \<open>
  A crash: whatever part of the file is left, it holds the durable records whole, and the
  replay applies them and perhaps more, in order.
\<close>

lemma replay_loop_crash:
  assumes "list_all (command_ok uc) cmds" and "k \<le> length cmds"
    and "prefix p (encode_commands uc cmds)"
    and "length (encode_commands uc (take k cmds)) \<le> length p"
  shows "\<exists>n. k \<le> n \<and> n \<le> length cmds \<and>
           replay_loop uc appl EOF p st = apply_all appl (take n cmds) st"
proof -
  obtain n tail where n: "n \<le> length cmds" "p = encode_commands uc (take n cmds) @ tail"
    "if n = length cmds then tail = [] else strict_prefix tail (encode_command uc (cmds ! n))"
    using prefix_records [OF assms(1,3)] by blast
  have "k \<le> n"
  proof (rule ccontr)
    assume "\<not> k \<le> n"
    then have "n < length cmds" and k: "n < k" using assms(2) by simp_all
    have "take k cmds = take n (take k cmds) @ take k cmds ! n # drop (Suc n) (take k cmds)"
      using assms(2) k by (intro id_take_nth_drop) simp
    then have split: "take k cmds = take n cmds @ cmds ! n # drop (Suc n) (take k cmds)"
      using k by (simp add: min_absorb1)
    have "length (encode_commands uc (take k cmds))
        = length (encode_commands uc (take n cmds)) + length (encode_command uc (cmds ! n))
          + length (encode_commands uc (drop (Suc n) (take k cmds)))"
      by (subst split) (simp add: encode_commands_def)
    moreover have "length tail < length (encode_command uc (cmds ! n))"
      using n(3) \<open>n < length cmds\<close> strict_prefix_length_less by auto
    ultimately show False using assms(4) n(2) by simp
  qed
  moreover have "list_all (command_ok uc) (take n cmds)"
    using assms(1) by (auto simp: list_all_iff dest: in_set_takeD)
  moreover have "tail = [] \<or> (\<exists>cmd. command_ok uc cmd \<and> strict_prefix tail (encode_command uc cmd))"
    using n(1,3) assms(1) by (auto simp: list_all_length split: if_splits)
  ultimately show ?thesis
    using n(1,2) replay_loop_records by metis
qed

subsection \<open>What \<open>Append\<close> guarantees\<close>

lemma aof_append_bytes:
  "aof_bytes (fst (aof_append uc cmd since now wfault sfault a))
   = aof_bytes a @ (case wfault of None \<Rightarrow> encode_command uc cmd | Some (n, e) \<Rightarrow> take n (encode_command uc cmd))"
  by (auto simp: aof_append_def file_write_def file_sync_def Let_def
      split: option.split fsync_policy.split)

lemma aof_append_ok:
  assumes "snd (aof_append uc cmd since now wfault sfault a) = None"
  shows "wfault = None"
    and "aof_policy a = FsyncAlways \<Longrightarrow>
         aof_durable (fst (aof_append uc cmd since now wfault sfault a))
         = length (aof_bytes (fst (aof_append uc cmd since now wfault sfault a)))"
    and "aof_policy a = FsyncEverysec \<Longrightarrow> time_sub since (aof_last_sync a) \<ge> 1000000000 \<Longrightarrow>
         aof_durable (fst (aof_append uc cmd since now wfault sfault a))
         = length (aof_bytes (fst (aof_append uc cmd since now wfault sfault a)))"
  using assms
  by (auto simp: aof_append_def file_write_def file_sync_def Let_def
      split: option.splits fsync_policy.splits if_splits)

lemma aof_append_frame:
  assumes "aof_append uc cmd since now wfault sfault a = (a', err)"
    and "aof_durable a \<le> length (aof_bytes a)"
  shows "aof_policy a' = aof_policy a" and "aof_durable a \<le> aof_durable a'"
    and "aof_durable a' \<le> length (aof_bytes a')"
  using assms
  by (auto simp: aof_append_def file_write_def file_sync_def Let_def
      split: option.splits fsync_policy.splits if_splits)

text \<open>
  Any number of calls of \<open>Append\<close>, each with its readings of the clock and its faults; the list
  says which were acknowledged.
\<close>

type_synonym append_call =
  "command \<times> time \<times> time \<times> (nat \<times> bytes) option \<times> bytes option"

fun append_all :: "(bytes \<Rightarrow> bytes) \<Rightarrow> append_call list \<Rightarrow> aof \<Rightarrow> aof \<times> bool list" where
  "append_all uc [] a = (a, [])"
| "append_all uc ((cmd, since, now, wfault, sfault) # calls) a =
     (let (a, err) = aof_append uc cmd since now wfault sfault a; (a, acked) = append_all uc calls a
      in (a, (err = None) # acked))"

definition call_fault :: "append_call \<Rightarrow> (nat \<times> bytes) option" where
  "call_fault call = (case call of (_, _, _, wfault, _) \<Rightarrow> wfault)"

lemma append_all_always:
  assumes "aof_bytes a = encode_commands uc cmds" and "aof_policy a = FsyncAlways"
    and "aof_durable a \<le> length (aof_bytes a)"
    and "\<forall>call \<in> set (butlast calls). call_fault call = None"
  shows "prefix (aof_bytes (fst (append_all uc calls a))) (encode_commands uc (cmds @ map fst calls)) \<and>
    aof_durable a \<le> aof_durable (fst (append_all uc calls a)) \<and>
    (\<forall>i < length calls. snd (append_all uc calls a) ! i \<longrightarrow>
       length (encode_commands uc (cmds @ take (Suc i) (map fst calls)))
         \<le> aof_durable (fst (append_all uc calls a)))"
  using assms
proof (induction calls arbitrary: a cmds)
  case Nil
  then show ?case by simp
next
  case (Cons call calls)
  obtain cmd since now wfault sfault where call: "call = (cmd, since, now, wfault, sfault)"
    by (cases call) auto
  let ?w = "encode_command uc cmd"
  define a1 err where "a1 = fst (aof_append uc cmd since now wfault sfault a)"
    and "err = snd (aof_append uc cmd since now wfault sfault a)"
  then have ap: "aof_append uc cmd since now wfault sfault a = (a1, err)" by simp
  note frame = aof_append_frame [OF ap Cons.prems(3), unfolded Cons.prems(2)]
  have bytes: "aof_bytes a1
      = encode_commands uc cmds @ (case wfault of None \<Rightarrow> ?w | Some (n, e) \<Rightarrow> take n ?w)"
    using aof_append_bytes [of uc cmd since now wfault sfault a] Cons.prems(1) by (simp add: ap)
  have acked: "wfault = None \<and> aof_durable a1 = length (aof_bytes a1)" if "err = None"
    using aof_append_ok(1,2) [of uc cmd since now wfault sfault a, unfolded ap] Cons.prems(2) that
    by simp
  show ?case
  proof (cases wfault)
    case None
    have b: "aof_bytes a1 = encode_commands uc (cmds @ [cmd])"
      using bytes None by (simp add: encode_commands_def)
    have "\<forall>call \<in> set (butlast calls). call_fault call = None"
      using Cons.prems(4) by (cases calls) auto
    from this have ih: "prefix (aof_bytes (fst (append_all uc calls a1)))
          (encode_commands uc ((cmds @ [cmd]) @ map fst calls))"
      "aof_durable a1 \<le> aof_durable (fst (append_all uc calls a1))"
      "\<And>i. i < length calls \<Longrightarrow> snd (append_all uc calls a1) ! i \<Longrightarrow>
         length (encode_commands uc ((cmds @ [cmd]) @ take (Suc i) (map fst calls)))
           \<le> aof_durable (fst (append_all uc calls a1))"
      using Cons.IH [OF b frame(1,3)] by blast+
    have "length (encode_commands uc (cmds @ [cmd])) \<le> aof_durable (fst (append_all uc calls a1))"
      if "err = None"
      using acked [OF that] ih(2) b by simp
    then show ?thesis
      using ih frame(2) by (auto simp: call ap case_prod_unfold Let_def nth_Cons' All_less_Suc2)
  next
    case (Some fault)
    then have last: "calls = []" using Cons.prems(4) by (cases calls) (auto simp: call call_fault_def)
    have "err \<noteq> None" using acked Some by blast
    moreover have "prefix (aof_bytes a1) (encode_commands uc (cmds @ [cmd]))"
      using bytes Some by (cases fault) (simp add: encode_commands_def take_is_prefix)
    ultimately show ?thesis using frame(2) by (auto simp: call last ap)
  qed
qed

end
