(* ===== verification/Snapshot_Format.thy ===== *)
theory Snapshot_Format
  imports Framing Store_Snapshot
begin

section \<open>Snapshot files\<close>

text \<open>
  Models \<open>internal/persistence/snapshot.go\<close>: the binary format (\<open>Encode\<close>,
  \<open>Decode\<close> and their helpers) and the files (\<open>Save\<close>, \<open>Load\<close>). The directory is a
  map from paths to contents, and each call to the operating system has its result as an
  argument. The lemmas show that each part of the format is a message in the sense of
  \<open>framing\<close>, that a decoded entry represents the stored one it was made from, and that a
  save is atomic.
\<close>

subsection \<open>Errors\<close>

datatype snap_io_err =
    SnapRead io_err
  | UnknownHeader
  | TooManyEntries nat
  | TooManyElements nat
  | TooManyFields nat
  | FieldTooLarge nat
  | BadType char
  | SnapRestore snapshot_err
  | EmptyPath
  | SnapOs bytes

definition snap_eof :: "snap_io_err \<Rightarrow> bool" where
  "snap_eof e \<longleftrightarrow> (\<exists>io. e = SnapRead io \<and> is_eof io)"

lemma snap_eof_read [simp]: "snap_eof (SnapRead io) = is_eof io"
  by (simp add: snap_eof_def)

abbreviation max_snapshot_entries :: nat where "max_snapshot_entries \<equiv> 1024 * 1024"
abbreviation max_snapshot_field :: nat where "max_snapshot_field \<equiv> 64 * 1024 * 1024"

definition snapshot_magic :: bytes where
  "snapshot_magic = ''LLAVERO'' @ [CHR 0x01]"

subsection \<open>Writing\<close>

text \<open>A \<open>uint64\<close> in little-endian order.\<close>

definition write_u64 :: "nat \<Rightarrow> bytes" where
  "write_u64 n = map (\<lambda>i. char_of (n div 256 ^ i mod 256)) [0..<8]"

definition write_i64 :: "int \<Rightarrow> bytes" where
  "write_i64 x = write_u64 (nat (x mod 18446744073709551616))"

definition write_bytes :: "bytes \<Rightarrow> bytes" where
  "write_bytes b = write_u64 (length b) @ b"

definition write_byte_list :: "bytes list \<Rightarrow> bytes" where
  "write_byte_list items = write_u64 (length items) @ concat (map write_bytes items)"

definition deadline_nanos :: "time \<Rightarrow> int" where
  "deadline_nanos at = (if \<not> is_zero at then unix_nano at else 0)"

definition encode_entry ::
  "(bytes list \<Rightarrow> bytes list) \<Rightarrow> snap_entry \<Rightarrow> snap_io_err + bytes" where
  "encode_entry ord e =
     (let head = [snap_type e] @ write_i64 (deadline_nanos (snap_expire_at e))
                 @ write_bytes (snap_key e)
      in if snap_type e = value_string then Inr (head @ write_bytes (snap_value e))
         else if snap_type e = value_list then Inr (head @ write_byte_list (snap_list e))
         else if snap_type e = value_hash then
           Inr (head @ write_u64 (length (snap_hash e))
                @ concat (map (\<lambda>(field, val). write_bytes field @ write_bytes val)
                            (go_range ord (snap_hash e))))
         else if snap_type e = value_set then Inr (head @ write_byte_list (snap_set e))
         else Inl (BadType (snap_type e)))"

fun encode_entries ::
  "(bytes \<Rightarrow> bytes list \<Rightarrow> bytes list) \<Rightarrow> snap_entry list \<Rightarrow> snap_io_err + bytes" where
  "encode_entries vord [] = Inr []"
| "encode_entries vord (e # es) =
     (case encode_entry (vord (snap_key e)) e of
        Inl err \<Rightarrow> Inl err
      | Inr b \<Rightarrow> (case encode_entries vord es of Inl err \<Rightarrow> Inl err | Inr bs \<Rightarrow> Inr (b @ bs)))"

definition snapshot_encode ::
  "(bytes \<Rightarrow> bytes list \<Rightarrow> bytes list) \<Rightarrow> snap_entry list \<Rightarrow> snap_io_err + bytes" where
  "snapshot_encode vord entries =
     (case encode_entries vord entries of
        Inl err \<Rightarrow> Inl err
      | Inr bs \<Rightarrow> Inr (snapshot_magic @ write_u64 (length entries) @ bs))"

subsection \<open>Reading\<close>

type_synonym 'a snap_reader = "(snap_io_err, 'a) reader"

definition read_exact :: "io_err \<Rightarrow> nat \<Rightarrow> bytes snap_reader" where
  "read_exact fin n inp =
     (case read_full fin n inp of Inl e \<Rightarrow> Inl (SnapRead e) | Inr r \<Rightarrow> Inr r)"

fun le_value :: "bytes \<Rightarrow> nat" where
  "le_value [] = 0"
| "le_value (c # cs) = byte_val c + 256 * le_value cs"

definition read_u64 :: "io_err \<Rightarrow> nat snap_reader" where
  "read_u64 fin inp =
     (case read_exact fin 8 inp of Inl e \<Rightarrow> Inl e | Inr (b, rest) \<Rightarrow> Inr (le_value b, rest))"

definition read_i64 :: "io_err \<Rightarrow> int snap_reader" where
  "read_i64 fin inp =
     (case read_exact fin 8 inp of Inl e \<Rightarrow> Inl e | Inr (b, rest) \<Rightarrow> Inr (i64 (int (le_value b)), rest))"

definition read_bytes :: "io_err \<Rightarrow> bytes snap_reader" where
  "read_bytes fin inp =
     (case read_u64 fin inp of
        Inl e \<Rightarrow> Inl e
      | Inr (n, inp) \<Rightarrow>
          if n > max_snapshot_field then Inl (FieldTooLarge n) else read_exact fin n inp)"

definition read_byte_list :: "io_err \<Rightarrow> bytes list snap_reader" where
  "read_byte_list fin inp =
     (case read_u64 fin inp of
        Inl e \<Rightarrow> Inl e
      | Inr (cnt, inp) \<Rightarrow>
          if cnt > max_snapshot_entries then Inl (TooManyElements cnt)
          else read_many (read_bytes fin) cnt inp)"

definition read_pair :: "io_err \<Rightarrow> (bytes \<times> bytes) snap_reader" where
  "read_pair fin inp =
     (case read_bytes fin inp of
        Inl e \<Rightarrow> Inl e
      | Inr (field, inp) \<Rightarrow>
          (case read_bytes fin inp of Inl e \<Rightarrow> Inl e | Inr (val, inp) \<Rightarrow> Inr ((field, val), inp)))"

definition read_hash :: "io_err \<Rightarrow> bytes gomap snap_reader" where
  "read_hash fin inp =
     (case read_u64 fin inp of
        Inl e \<Rightarrow> Inl e
      | Inr (cnt, inp) \<Rightarrow>
          if cnt > max_snapshot_entries then Inl (TooManyFields cnt)
          else (case read_many (read_pair fin) cnt inp of
                  Inl e \<Rightarrow> Inl e
                | Inr (ps, inp) \<Rightarrow> Inr (foldl (\<lambda>out (k, v). AList.update k v out) [] ps, inp)))"

definition deadline_from_nanos :: "int \<Rightarrow> time" where
  "deadline_from_nanos at = (if at > 0 then at else zero_time)"

definition decode_value :: "io_err \<Rightarrow> char \<Rightarrow> int \<Rightarrow> bytes \<Rightarrow> snap_entry snap_reader" where
  "decode_value fin t at key inp =
     (let entry = empty_snap\<lparr>snap_key := key, snap_type := t,
                    snap_expire_at := deadline_from_nanos at\<rparr>
      in if t = value_string then
           (case read_bytes fin inp of
              Inl e \<Rightarrow> Inl e | Inr (v, inp) \<Rightarrow> Inr (entry\<lparr>snap_value := v\<rparr>, inp))
         else if t = value_list then
           (case read_byte_list fin inp of
              Inl e \<Rightarrow> Inl e | Inr (l, inp) \<Rightarrow> Inr (entry\<lparr>snap_list := l\<rparr>, inp))
         else if t = value_hash then
           (case read_hash fin inp of
              Inl e \<Rightarrow> Inl e | Inr (h, inp) \<Rightarrow> Inr (entry\<lparr>snap_hash := h\<rparr>, inp))
         else if t = value_set then
           (case read_byte_list fin inp of
              Inl e \<Rightarrow> Inl e | Inr (ms, inp) \<Rightarrow> Inr (entry\<lparr>snap_set := ms\<rparr>, inp))
         else Inl (BadType t))"

definition decode_entry :: "io_err \<Rightarrow> snap_entry snap_reader" where
  "decode_entry fin inp =
     (case read_exact fin 1 inp of
        Inl e \<Rightarrow> Inl e
      | Inr (typ, inp) \<Rightarrow>
          (case read_i64 fin inp of
             Inl e \<Rightarrow> Inl e
           | Inr (at, inp) \<Rightarrow>
               (case read_bytes fin inp of
                  Inl e \<Rightarrow> Inl e
                | Inr (key, inp) \<Rightarrow> decode_value fin (hd typ) at key inp)))"

definition snapshot_decode :: "io_err \<Rightarrow> snap_entry list snap_reader" where
  "snapshot_decode fin inp =
     (case read_exact fin (length snapshot_magic) inp of
        Inl e \<Rightarrow> Inl e
      | Inr (magic, inp) \<Rightarrow>
          if magic \<noteq> snapshot_magic then Inl UnknownHeader
          else (case read_u64 fin inp of
                  Inl e \<Rightarrow> Inl e
                | Inr (cnt, inp) \<Rightarrow>
                    if cnt > max_snapshot_entries then Inl (TooManyEntries cnt)
                    else read_many (decode_entry fin) cnt inp))"

lemmas snapshot_eval [go_eval] =
  snapshot_magic_def write_u64_def write_i64_def write_bytes_def write_byte_list_def
  deadline_nanos_def deadline_from_nanos_def encode_entry_def snapshot_encode_def read_exact_def read_u64_def
  read_i64_def read_bytes_def read_byte_list_def read_pair_def read_hash_def decode_value_def decode_entry_def
  snapshot_decode_def

subsection \<open>Numbers and fields are messages\<close>

lemma message_exact: "length b = n \<Longrightarrow> message snap_eof (read_exact EOF n) b b"
  using read_full_short by (fastforce simp: message_def read_exact_def dest: strict_prefix_length_less)

lemma le_value_digits:
  "le_value (map (\<lambda>i. char_of (n div 256 ^ i mod 256)) [0..<k]) = n mod 256 ^ k"
proof (induction k arbitrary: n)
  case 0
  then show ?case by simp
next
  case (Suc k)
  have "[0..<Suc k] = 0 # map Suc [0..<k]"
    by (simp add: map_Suc_upt upt_conv_Cons del: upt_Suc)
  then have "le_value (map (\<lambda>i. char_of (n div 256 ^ i mod 256)) [0..<Suc k])
      = n mod 256 + 256 * (n div 256 mod 256 ^ k)"
    using Suc [of "n div 256"]
    by (simp add: comp_def div_mult2_eq del: upt_Suc)
  also have "\<dots> = n mod (256 * 256 ^ k)"
    by (simp add: mod_mult2_eq)
  finally show ?case by simp
qed

lemma le_value_write_u64 [simp]: "n < 18446744073709551616 \<Longrightarrow> le_value (write_u64 n) = n"
  using le_value_digits [of n 8] by (simp add: write_u64_def)

lemma length_write_u64 [simp]: "length (write_u64 n) = 8"
  by (simp add: write_u64_def)

lemma message_u64: "n < 18446744073709551616 \<Longrightarrow> message snap_eof (read_u64 EOF) (write_u64 n) n"
  using message_map [OF message_exact [of "write_u64 n" 8], of le_value]
  by (simp add: read_u64_def [abs_def])

lemma message_i64: "message snap_eof (read_i64 EOF) (write_i64 x) (i64 x)"
proof -
  have "nat (x mod 18446744073709551616) < 18446744073709551616" by simp
  moreover have "i64 (x mod 18446744073709551616) = i64 x" by (rule i64_cong) simp
  ultimately have "i64 (int (le_value (write_i64 x))) = i64 x"
    unfolding write_i64_def by simp
  moreover have "length (write_i64 x) = 8" by (simp add: write_i64_def)
  ultimately show ?thesis
    using message_map [OF message_exact [of "write_i64 x" 8], of "\<lambda>b. i64 (int (le_value b))"]
    by (simp add: read_i64_def [abs_def])
qed

definition field_ok :: "bytes \<Rightarrow> bool" where
  "field_ok b \<longleftrightarrow> length b \<le> max_snapshot_field"

lemma message_bytes:
  assumes "field_ok b"
  shows "message snap_eof (read_bytes EOF) (write_bytes b) b"
  unfolding read_bytes_def [abs_def] write_bytes_def
  using assms by (intro message_bind [OF message_u64]) (auto simp: field_ok_def intro: message_exact)

interpretation snap_field: framing field_ok write_bytes "read_bytes EOF" "\<lambda>b. b" snap_eof
  unfolding framing_iff_message by (simp add: message_bytes)

definition items_ok :: "bytes list \<Rightarrow> bool" where
  "items_ok l \<longleftrightarrow> length l \<le> max_snapshot_entries \<and> list_all field_ok l"

lemma message_fields: "list_all field_ok l \<Longrightarrow>
    message snap_eof (read_many (read_bytes EOF) (length l)) (concat (map write_bytes l)) l"
  by (rule message_many) (auto simp: list_all2_map1 list_all_iff message_bytes intro!: list.rel_refl_strong)

lemma message_byte_list:
  assumes "items_ok l"
  shows "message snap_eof (read_byte_list EOF) (write_byte_list l) l"
  unfolding read_byte_list_def [abs_def] write_byte_list_def
  using assms
  by (intro message_bind [OF message_u64]) (auto simp: items_ok_def intro: message_fields)

definition pair_ok :: "bytes \<times> bytes \<Rightarrow> bool" where
  "pair_ok p \<longleftrightarrow> field_ok (fst p) \<and> field_ok (snd p)"

definition write_pair :: "bytes \<times> bytes \<Rightarrow> bytes" where
  "write_pair p = write_bytes (fst p) @ write_bytes (snd p)"

lemma message_pair:
  assumes "pair_ok p"
  shows "message snap_eof (read_pair EOF) (write_pair p) p"
proof -
  let ?d2 = "\<lambda>field inp. case read_bytes EOF inp of
      Inl e \<Rightarrow> Inl e | Inr (val, inp) \<Rightarrow> Inr ((field, val), inp)"
  have "message snap_eof (?d2 (fst p)) (write_bytes (snd p)) (fst p, snd p)"
    using assms message_map [OF message_bytes, of "snd p" "\<lambda>v. (fst p, v)"]
    by (simp add: pair_ok_def)
  with message_bytes [of "fst p"] assms show ?thesis
    unfolding read_pair_def [abs_def] write_pair_def
    by (intro message_bind [where ?d2.0 = ?d2]) (simp_all add: pair_ok_def)
qed

lemma message_hash:
  assumes "length ps \<le> max_snapshot_entries" and "list_all pair_ok ps"
  shows "message snap_eof (read_hash EOF) (write_u64 (length ps) @ concat (map write_pair ps))
           (foldl (\<lambda>out (k, v). AList.update k v out) [] ps)"
proof -
  have "message snap_eof (read_many (read_pair EOF) (length ps)) (concat (map write_pair ps)) ps"
    using assms(2)
    by (intro message_many)
      (auto simp: list_all2_map1 list_all_iff message_pair intro!: list.rel_refl_strong)
  from message_map [OF this, of "foldl (\<lambda>out (k, v). AList.update k v out) []"] assms(1)
  show ?thesis
    unfolding read_hash_def [abs_def] by (intro message_bind [OF message_u64]) simp_all
qed

subsection \<open>Entries and whole snapshots\<close>

definition deadline_ok :: "time \<Rightarrow> bool" where
  "deadline_ok at \<longleftrightarrow> is_zero at \<or> 0 < at \<and> at \<le> max_int64"

text \<open>
  An entry that fits the format: the limits \<open>Decode\<close> enforces and a deadline that is the
  zero time or a positive number of nanoseconds in 64 bits.
\<close>

definition entry_ok :: "snap_entry \<Rightarrow> bool" where
  "entry_ok e \<longleftrightarrow>
     field_ok (snap_key e) \<and> deadline_ok (snap_expire_at e) \<and> wf_map (snap_hash e) \<and>
     (if snap_type e = value_string then field_ok (snap_value e)
      else if snap_type e = value_list then items_ok (snap_list e)
      else if snap_type e = value_hash then
        length (snap_hash e) \<le> max_snapshot_entries \<and> list_all pair_ok (snap_hash e)
      else snap_type e = value_set \<and> items_ok (snap_set e))"

definition decoded :: "(bytes list \<Rightarrow> bytes list) \<Rightarrow> snap_entry \<Rightarrow> snap_entry" where
  "decoded ord e =
     (let d = empty_snap\<lparr>snap_key := snap_key e, snap_type := snap_type e,
                snap_expire_at := snap_expire_at e\<rparr>
      in if snap_type e = value_string then d\<lparr>snap_value := snap_value e\<rparr>
         else if snap_type e = value_list then d\<lparr>snap_list := snap_list e\<rparr>
         else if snap_type e = value_hash then d\<lparr>snap_hash := clone_hash ord (snap_hash e)\<rparr>
         else d\<lparr>snap_set := snap_set e\<rparr>)"

lemma deadline_round:
  "deadline_ok at \<Longrightarrow> deadline_from_nanos (i64 (deadline_nanos at)) = at"
  by (auto simp: deadline_from_nanos_def deadline_ok_def deadline_nanos_def is_zero_def unix_nano_def in_i64_def)

lemma message_head:
  assumes "field_ok key" and "message snap_eof (body t (i64 at) key) w x"
  shows "message snap_eof
    (\<lambda>inp. case read_exact EOF 1 inp of
        Inl e \<Rightarrow> Inl e
      | Inr (typ, inp) \<Rightarrow>
          (case read_i64 EOF inp of
             Inl e \<Rightarrow> Inl e
           | Inr (at, inp) \<Rightarrow>
               (case read_bytes EOF inp of
                  Inl e \<Rightarrow> Inl e
                | Inr (key, inp) \<Rightarrow> body (hd typ) at key inp)))
    ([t] @ write_i64 at @ write_bytes key @ w) x"
proof -
  let ?d3 = "\<lambda>typ at inp. case read_bytes EOF inp of
      Inl e \<Rightarrow> Inl e | Inr (key, inp) \<Rightarrow> body (hd typ) at key inp"
  let ?d2 = "\<lambda>typ inp. case read_i64 EOF inp of Inl e \<Rightarrow> Inl e | Inr (at, inp) \<Rightarrow> ?d3 typ at inp"
  have "message snap_eof (?d3 [t] (i64 at)) (write_bytes key @ w) x"
    using message_bytes [OF assms(1)] assms(2)
    by (intro message_bind [where ?d2.0 = "body (hd [t]) (i64 at)"]) simp_all
  with message_i64 have "message snap_eof (?d2 [t]) (write_i64 at @ write_bytes key @ w) x"
    by (rule message_bind)
  moreover have "message snap_eof (read_exact EOF 1) [t] [t]" by (rule message_exact) simp
  ultimately show ?thesis by (intro message_bind [where ?d2.0 = ?d2])
qed

lemma entry_ok_kinds:
  assumes "entry_ok e" and "valid_order ord"
  obtains (text_value) "snap_type e = value_string" "field_ok (snap_value e)"
    | (list_value) "snap_type e = value_list" "items_ok (snap_list e)"
    | (hash_value) "snap_type e = value_hash"
        "length (go_range ord (snap_hash e)) \<le> max_snapshot_entries"
        "list_all pair_ok (go_range ord (snap_hash e))"
    | (set_value) "snap_type e = value_set" "items_ok (snap_set e)"
proof -
  have "wf_map (snap_hash e)" using assms(1) by (simp add: entry_ok_def)
  then have ps: "length (go_range ord (snap_hash e)) = length (snap_hash e)"
      "set (go_range ord (snap_hash e)) = set (snap_hash e)"
    using assms(2) by simp_all
  have "snap_type e = value_string \<and> field_ok (snap_value e)
      \<or> snap_type e = value_list \<and> items_ok (snap_list e)
      \<or> snap_type e = value_hash \<and> length (snap_hash e) \<le> max_snapshot_entries
        \<and> list_all pair_ok (snap_hash e)
      \<or> snap_type e = value_set \<and> items_ok (snap_set e)"
    using assms(1) unfolding entry_ok_def by (metis (full_types))
  then show thesis using that ps by (metis list_all_iff)
qed

lemma write_pair_eta: "(\<lambda>(field, val). write_bytes field @ write_bytes val) = write_pair"
  by (auto simp: write_pair_def fun_eq_iff)

text \<open>What follows the key, in each of the four kinds of value.\<close>

lemma message_value:
  assumes "entry_ok e" and "valid_order ord"
  defines "nanos \<equiv> deadline_nanos (snap_expire_at e)"
  shows "\<exists>w. encode_entry ord e
      = Inr ([snap_type e] @ write_i64 nanos @ write_bytes (snap_key e) @ w) \<and>
    message snap_eof (decode_value EOF (snap_type e) (i64 nanos) (snap_key e)) w (decoded ord e)"
proof -
  have at: "deadline_from_nanos (i64 nanos) = snap_expire_at e"
    unfolding nanos_def using assms(1) by (intro deadline_round) (simp add: entry_ok_def)
  note defs = encode_entry_def decode_value_def [abs_def] Let_def decoded_def nanos_def [symmetric] at
  show ?thesis
    using assms(1,2)
  proof (cases rule: entry_ok_kinds)
    case text_value
    then show ?thesis unfolding defs text_value(1) by simp (rule message_map, rule message_bytes)
  next
    case list_value
    then show ?thesis unfolding defs list_value(1) by simp (rule message_map, rule message_byte_list)
  next
    case hash_value
    then show ?thesis
      unfolding defs hash_value(1) write_pair_eta clone_hash_def clone_bytes_def
      using message_hash [OF hash_value(2,3)] assms(2)
      by (simp add: length_valid_order) (rule message_map)
  next
    case set_value
    then show ?thesis unfolding defs set_value(1) by simp (rule message_map, rule message_byte_list)
  qed
qed

lemma message_entry:
  assumes "entry_ok e" and "valid_order ord"
  shows "\<exists>w. encode_entry ord e = Inr w \<and> message snap_eof (decode_entry EOF) w (decoded ord e)"
proof -
  have "field_ok (snap_key e)" using assms(1) by (simp add: entry_ok_def)
  then show ?thesis
    using message_value [OF assms] message_head [of "snap_key e" "decode_value EOF"]
    unfolding decode_entry_def [abs_def] by blast
qed

lemma encode_entries_message:
  assumes "list_all entry_ok es" and "\<And>k. valid_order (vord k)"
  shows "\<exists>ws. encode_entries vord es = Inr (concat ws) \<and>
    list_all2 (message snap_eof (decode_entry EOF)) ws (map (\<lambda>e. decoded (vord (snap_key e)) e) es)"
  using assms(1)
proof (induction es)
  case Nil
  then show ?case by simp
next
  case (Cons e es)
  obtain w ws where "encode_entry (vord (snap_key e)) e = Inr w"
    "message snap_eof (decode_entry EOF) w (decoded (vord (snap_key e)) e)"
    "encode_entries vord es = Inr (concat ws)"
    "list_all2 (message snap_eof (decode_entry EOF)) ws (map (\<lambda>e. decoded (vord (snap_key e)) e) es)"
    using Cons message_entry [of e "vord (snap_key e)"] assms(2) by auto
  then show ?case by (intro exI [of _ "w # ws"]) simp
qed

definition snapshot_ok :: "snap_entry list \<Rightarrow> bool" where
  "snapshot_ok es \<longleftrightarrow> length es \<le> max_snapshot_entries \<and> list_all entry_ok es"

lemma snapshot_encode_message:
  assumes "snapshot_ok es" and "\<And>k. valid_order (vord k)"
  shows "\<exists>w. snapshot_encode vord es = Inr w \<and>
    message snap_eof (snapshot_decode EOF) w (map (\<lambda>e. decoded (vord (snap_key e)) e) es)"
proof -
  let ?es = "map (\<lambda>e. decoded (vord (snap_key e)) e) es"
  have ok: "length es \<le> max_snapshot_entries" "list_all entry_ok es"
    using assms(1) by (simp_all add: snapshot_ok_def)
  obtain ws where ws: "encode_entries vord es = Inr (concat ws)"
    "list_all2 (message snap_eof (decode_entry EOF)) ws ?es"
    using encode_entries_message [of es vord, OF ok(2) assms(2)] by blast
  let ?d2 = "\<lambda>cnt inp. if cnt > max_snapshot_entries then Inl (TooManyEntries cnt)
      else read_many (decode_entry EOF) cnt inp"
  let ?d1 = "\<lambda>magic inp. if magic \<noteq> snapshot_magic then Inl UnknownHeader
      else case read_u64 EOF inp of Inl e \<Rightarrow> Inl e | Inr (cnt, inp) \<Rightarrow> ?d2 cnt inp"
  have "message snap_eof (?d2 (length es)) (concat ws) ?es"
    using ok(1) message_many [OF ws(2)] by simp
  moreover have "message snap_eof (read_u64 EOF) (write_u64 (length es)) (length es)"
    using ok(1) by (intro message_u64) simp
  ultimately have "message snap_eof (\<lambda>inp. case read_u64 EOF inp of Inl e \<Rightarrow> Inl e | Inr (cnt, inp) \<Rightarrow> ?d2 cnt inp)
      (write_u64 (length es) @ concat ws) ?es"
    by (intro message_bind [where ?d2.0 = ?d2])
  then have "message snap_eof (?d1 snapshot_magic) (write_u64 (length es) @ concat ws) ?es"
    by simp
  moreover have "message snap_eof (read_exact EOF (length snapshot_magic)) snapshot_magic snapshot_magic"
    by (rule message_exact) simp
  ultimately have "message snap_eof (snapshot_decode EOF)
      (snapshot_magic @ write_u64 (length es) @ concat ws) ?es"
    unfolding snapshot_decode_def [abs_def] by (intro message_bind [where ?d2.0 = ?d1])
  then show ?thesis by (simp add: snapshot_encode_def ws(1))
qed

text \<open>The order in which a hash was written does not matter to what the entry represents.\<close>

lemma represents_decoded:
  assumes "represents e p" and "valid_order ord"
  shows "represents (decoded ord e) p"
proof -
  have "wf_map (snap_hash e)" using assms(1) by (simp add: represents_def)
  then show ?thesis
    using assms unfolding represents_def
    by (auto simp: decoded_def snap_view_def empty_snap_def Let_def split: if_splits)
qed

subsection \<open>Files\<close>

type_synonym directory = "bytes \<rightharpoonup> bytes"

text \<open>
  What the operating system answers during a \<open>Save\<close>: \<open>None\<close> is success. \<open>tmp_name\<close>
  is the name \<open>os.CreateTemp\<close> chose; a write that fails (in \<open>Encode\<close>, when the buffer
  fills up) or a flush that fails leaves \<open>partial\<close> in the temporary file.
\<close>

record save_os =
  mkdir_err :: "bytes option"
  create_err :: "bytes option"
  tmp_name :: bytes
  write_err :: "bytes option"
  partial_write :: bytes
  flush_err :: "bytes option"
  sync_err :: "bytes option"
  close_err :: "bytes option"
  rename_err :: "bytes option"
  remove_err :: "bytes option"

definition os_remove :: "bytes option \<Rightarrow> bytes \<Rightarrow> directory \<Rightarrow> directory" where
  "os_remove err name dir = (case err of None \<Rightarrow> dir(name := None) | Some _ \<Rightarrow> dir)"

definition os_rename :: "bytes \<Rightarrow> bytes \<Rightarrow> directory \<Rightarrow> directory" where
  "os_rename old new dir = dir(new := dir old, old := None)"

text \<open>
  \<open>content\<close> is what \<open>Encode\<close> produces. The deferred \<open>os.Remove\<close> runs on every return
  after the file was created, unless the rename succeeded.
\<close>

definition save_file ::
  "save_os \<Rightarrow> bytes \<Rightarrow> snap_io_err + bytes \<Rightarrow> directory \<Rightarrow> directory \<times> snap_io_err option" where
  "save_file os path content dir =
     (let fail = (\<lambda>data err.
            (os_remove (remove_err os) (tmp_name os) (dir(tmp_name os \<mapsto> data)), Some err))
      in case write_err os of
           Some e \<Rightarrow> fail (partial_write os) (SnapOs e)
         | None \<Rightarrow>
       (case content of
           Inl err \<Rightarrow> fail (partial_write os) err
         | Inr data \<Rightarrow>
       (case flush_err os of
           Some e \<Rightarrow> fail (partial_write os) (SnapOs e)
         | None \<Rightarrow>
       (case sync_err os of
           Some e \<Rightarrow> fail data (SnapOs e)
         | None \<Rightarrow>
       (case close_err os of
           Some e \<Rightarrow> fail data (SnapOs e)
         | None \<Rightarrow>
       (case rename_err os of
           Some e \<Rightarrow> fail data (SnapOs e)
         | None \<Rightarrow> (os_rename (tmp_name os) path (dir(tmp_name os \<mapsto> data)), None)))))))"

definition snapshot_save ::
  "(nat \<Rightarrow> bytes list \<Rightarrow> bytes list) \<Rightarrow> (bytes \<Rightarrow> bytes list \<Rightarrow> bytes list) \<Rightarrow>
   (bytes \<Rightarrow> bytes list \<Rightarrow> bytes list) \<Rightarrow> time \<Rightarrow> save_os \<Rightarrow> bytes \<Rightarrow> store \<Rightarrow> directory \<Rightarrow>
   store \<times> directory \<times> snap_io_err option" where
  "snapshot_save ord vord eord now os path s dir =
     (if path = [] then (s, dir, Some EmptyPath)
      else case mkdir_err os of
             Some e \<Rightarrow> (s, dir, Some (SnapOs e))
           | None \<Rightarrow>
               (case create_err os of
                  Some e \<Rightarrow> (s, dir, Some (SnapOs e))
                | None \<Rightarrow>
                    let (s, entries) = store_snapshot ord vord now s
                    in (s, save_file os path (snapshot_encode eord entries) dir)))"

text \<open>\<open>open_err\<close> is a failure to open other than a missing file; \<open>fin\<close> ends the reading.\<close>

definition snapshot_load ::
  "(bytes \<Rightarrow> bytes list \<Rightarrow> bytes list) \<Rightarrow> time \<Rightarrow> bytes option \<Rightarrow> io_err \<Rightarrow> bytes \<Rightarrow> directory \<Rightarrow>
   store \<Rightarrow> store \<times> snap_io_err option" where
  "snapshot_load vord now open_err fin path dir s =
     (if path = [] then (s, Some EmptyPath)
      else case dir path of
             None \<Rightarrow> (s, None)
           | Some content \<Rightarrow>
               (case open_err of
                  Some e \<Rightarrow> (s, Some (SnapOs e))
                | None \<Rightarrow>
                    (case snapshot_decode fin content of
                       Inl e \<Rightarrow> (s, Some e)
                     | Inr (entries, _) \<Rightarrow>
                         (case store_restore vord now entries s of
                            (s, None) \<Rightarrow> (s, None)
                          | (s, Some e) \<Rightarrow> (s, Some (SnapRestore e))))))"

text \<open>
  A save that fails leaves the file under \<open>path\<close>, and every other, as it was; one that
  succeeds replaces the whole file. Nothing is left behind if \<open>os.Remove\<close> works.
\<close>

lemma save_file_atomic:
  assumes "tmp_name os \<noteq> path" and "dir (tmp_name os) = None"
  shows "snd (save_file os path content dir) \<noteq> None \<Longrightarrow>
         fst (save_file os path content dir) path = dir path"
    and "snd (save_file os path content dir) = None \<Longrightarrow>
         content = Inr data \<Longrightarrow> fst (save_file os path content dir) = dir(path \<mapsto> data)"
    and "snd (save_file os path content dir) = None \<Longrightarrow> \<exists>data. content = Inr data"
    and "k \<noteq> path \<Longrightarrow> k \<noteq> tmp_name os \<Longrightarrow> fst (save_file os path content dir) k = dir k"
    and "remove_err os = None \<Longrightarrow> fst (save_file os path content dir) (tmp_name os) = None"
  using assms
  by (auto simp: save_file_def os_remove_def os_rename_def Let_def fun_eq_iff
      split: option.splits sum.splits if_splits)

end
