(* ===== verification/Pubsub_Broker.thy ===== *)
theory Pubsub_Broker
  imports Prelude
begin

section \<open>The publish/subscribe broker\<close>

text \<open>
  Models \<open>internal/pubsub/broker.go\<close>. A subscriber is identified by a number (in Go, by the
  pointer), a channel's set of subscribers is a list without duplicates, and the broker is the
  map \<open>subs\<close>. \<open>Publish\<close> takes its targets under the lock and delivers outside it; the
  order is that of the map. A \<open>Deliver\<close> that panics is recovered, so it never keeps the next
  target from being served. The locale \<open>subscription_table\<close> is what the server needs of it.
\<close>

type_synonym subscriber = nat
type_synonym broker = "subscriber list gomap"

definition new_broker :: broker where
  "new_broker = []"

definition broker_subscribe :: "subscriber \<Rightarrow> bytes \<Rightarrow> broker \<Rightarrow> broker \<times> bool" where
  "broker_subscribe sub channel b =
     (let (set, b) = (case map_of b channel of
                        None \<Rightarrow> ([], AList.update channel [] b)
                      | Some subs \<Rightarrow> (subs, b))
      in if sub \<in> List.set set then (b, False)
         else (AList.update channel (set @ [sub]) b, True))"

definition broker_unsubscribe :: "subscriber \<Rightarrow> bytes \<Rightarrow> broker \<Rightarrow> broker \<times> bool" where
  "broker_unsubscribe sub channel b =
     (case map_of b channel of
        None \<Rightarrow> (b, False)
      | Some subs \<Rightarrow>
          if sub \<notin> set subs then (b, False)
          else let subs = removeAll sub subs
               in (if subs = [] then AList.delete channel b else AList.update channel subs b, True))"

text \<open>The targets, in the order of the map, and their number.\<close>

definition broker_publish ::
  "(subscriber list \<Rightarrow> subscriber list) \<Rightarrow> bytes \<Rightarrow> broker \<Rightarrow> subscriber list \<times> int" where
  "broker_publish ord channel b =
     (let targets = ord (case map_of b channel of None \<Rightarrow> [] | Some subs \<Rightarrow> subs)
      in (targets, int (length targets)))"

text \<open>The invariant: no channel is listed twice or without a subscriber, and no subscriber
  twice in a channel.\<close>

definition wf_broker :: "broker \<Rightarrow> bool" where
  "wf_broker b \<longleftrightarrow> wf_map b \<and> (\<forall>subs \<in> snd ` set b. distinct subs \<and> subs \<noteq> [])"

definition subscribers :: "broker \<Rightarrow> bytes \<Rightarrow> subscriber set" where
  "subscribers b channel = (case map_of b channel of None \<Rightarrow> {} | Some subs \<Rightarrow> set subs)"

lemma wf_broker_new [simp]: "wf_broker new_broker"
  by (simp add: wf_broker_def new_broker_def)

lemma subscribers_new [simp]: "subscribers new_broker ch = {}"
  by (simp add: subscribers_def new_broker_def)

lemma wf_brokerD:
  assumes "wf_broker b" and "map_of b ch = Some subs"
  shows "distinct subs" and "subs \<noteq> []"
  using assms by (auto simp: wf_broker_def dest!: map_of_in_set)

lemma wf_broker_update:
  assumes "wf_broker b" and "distinct subs" and "subs \<noteq> []"
  shows "wf_broker (AList.update ch subs b)"
proof -
  have "set (AList.update ch subs b) \<subseteq> insert (ch, subs) (set b)" by (induction b) auto
  then show ?thesis using assms by (fastforce simp: wf_broker_def)
qed

lemma wf_broker_delete: "wf_broker b \<Longrightarrow> wf_broker (AList.delete ch b)"
  by (auto simp: wf_broker_def AList.delete_eq distinct_map_filter)

lemma update_absent_twice:
  "map_of b ch = None \<Longrightarrow> AList.update ch v (AList.update ch w b) = AList.update ch v b"
  by (induction b) auto

lemma removeAll_Nil_iff: "removeAll x xs = [] \<longleftrightarrow> set xs \<subseteq> {x}"
  by (induction xs) auto

text \<open>
  The contract: \<open>add\<close> and \<open>remove\<close> change one membership and report whether they did,
  \<open>members\<close> is what a publication reaches.
\<close>

locale subscription_table =
  fixes wf_tab :: "'t \<Rightarrow> bool" and members :: "'t \<Rightarrow> bytes \<Rightarrow> subscriber set"
    and add remove :: "subscriber \<Rightarrow> bytes \<Rightarrow> 't \<Rightarrow> 't \<times> bool"
  assumes wf_add: "wf_tab t \<Longrightarrow> wf_tab (fst (add x c t))"
    and wf_remove: "wf_tab t \<Longrightarrow> wf_tab (fst (remove x c t))"
    and members_add: "wf_tab t \<Longrightarrow>
      members (fst (add x c t)) d = (if d = c then insert x (members t d) else members t d)"
    and members_remove: "wf_tab t \<Longrightarrow>
      members (fst (remove x c t)) d = (if d = c then members t d - {x} else members t d)"
    and added: "wf_tab t \<Longrightarrow> snd (add x c t) \<longleftrightarrow> x \<notin> members t c"
    and removed: "wf_tab t \<Longrightarrow> snd (remove x c t) \<longleftrightarrow> x \<in> members t c"
begin

text \<open>Removing a subscriber from a list of channels, as a disconnection does.\<close>

lemma wf_remove_all: "wf_tab t \<Longrightarrow> wf_tab (foldl (\<lambda>t c. fst (remove x c t)) t cs)"
  by (induction cs arbitrary: t) (auto simp: wf_remove)

lemma members_remove_all:
  "wf_tab t \<Longrightarrow>
   members (foldl (\<lambda>t c. fst (remove x c t)) t cs) d
   = (if d \<in> set cs then members t d - {x} else members t d)"
  by (induction cs arbitrary: t) (auto simp: members_remove wf_remove)

end

interpretation broker: subscription_table wf_broker subscribers broker_subscribe broker_unsubscribe
proof
  fix b :: broker and x c d assume wf: "wf_broker b"
  show "wf_broker (fst (broker_subscribe x c b))"
    using wf wf_brokerD(1)
    by (auto simp: broker_subscribe_def update_absent_twice Let_def
        intro!: wf_broker_update split: option.split)
  show "wf_broker (fst (broker_unsubscribe x c b))"
    using wf wf_brokerD(1)
    by (auto simp: broker_unsubscribe_def Let_def
        intro!: wf_broker_update wf_broker_delete distinct_removeAll split: option.split)
  show "subscribers (fst (broker_subscribe x c b)) d
        = (if d = c then insert x (subscribers b d) else subscribers b d)"
    by (auto simp: broker_subscribe_def subscribers_def Let_def split: option.split)
  show "subscribers (fst (broker_unsubscribe x c b)) d
        = (if d = c then subscribers b d - {x} else subscribers b d)"
    by (auto simp: broker_unsubscribe_def subscribers_def Let_def removeAll_Nil_iff
        split: option.split)
  show "snd (broker_subscribe x c b) \<longleftrightarrow> x \<notin> subscribers b c"
    by (auto simp: broker_subscribe_def subscribers_def Let_def split: option.split)
  show "snd (broker_unsubscribe x c b) \<longleftrightarrow> x \<in> subscribers b c"
    by (auto simp: broker_unsubscribe_def subscribers_def Let_def split: option.split)
qed

text \<open>A publication reaches every subscriber of the channel once.\<close>

lemma broker_publish_targets:
  assumes "wf_broker b" and "\<And>xs. mset (ord xs) = mset xs"
  shows "set (fst (broker_publish ord ch b)) = subscribers b ch"
    and "distinct (fst (broker_publish ord ch b))"
    and "snd (broker_publish ord ch b) = int (card (subscribers b ch))"
proof -
  let ?subs = "case map_of b ch of None \<Rightarrow> [] | Some subs \<Rightarrow> subs"
  have subs: "set ?subs = subscribers b ch" "distinct ?subs"
    using wf_brokerD(1) [OF assms(1)] by (auto simp: subscribers_def split: option.split)
  have "mset (ord ?subs) = mset ?subs" by (rule assms(2))
  then have "set (ord ?subs) = set ?subs" "distinct (ord ?subs) = distinct ?subs"
    by (metis set_mset_mset, metis mset_eq_imp_distinct_iff)
  with subs show "set (fst (broker_publish ord ch b)) = subscribers b ch"
    and "distinct (fst (broker_publish ord ch b))"
    by (simp_all add: broker_publish_def Let_def)
  then show "snd (broker_publish ord ch b) = int (card (subscribers b ch))"
    by (simp add: broker_publish_def Let_def) (metis distinct_card)
qed

end
