(* ===== verification/Server_State.thy ===== *)
theory Server_State
  imports Command_Contract Aof_File Snapshot_Format Pubsub_Broker
begin

section \<open>The state of the server\<close>

text \<open>
  The records of \<open>internal/server\<close>: \<open>Options\<close>, \<open>metrics\<close> and \<open>slowEntry\<close>
  (\<open>observability.go\<close>), \<open>authLimiter\<close> (\<open>auth.go\<close>), \<open>client\<close>
  (\<open>pubsub.go\<close>) and \<open>Server\<close> (\<open>server.go\<close>). A client is identified by a number;
  what the server sends is appended to \<open>outbox\<close> as (client, reply) pairs, in the order of the
  calls to \<open>send\<close>. The snapshot directory and the append-only file are part of the state.

  \<open>senv\<close> holds what the outside answers while one command is handled: the environment of the
  handlers, the other readings of the clock, and the results of the operating system.
\<close>

record options =
  opt_addr :: bytes
  opt_snapshot_path :: bytes
  opt_save_interval :: duration
  opt_aof_path :: bytes
  opt_aof_sync :: bytes
  opt_auth_password :: bytes
  opt_tls_cert_path :: bytes
  opt_tls_key_path :: bytes
  opt_max_connections :: int
  opt_read_timeout :: duration
  opt_write_timeout :: duration
  opt_max_memory_bytes :: int
  opt_command_log :: bytes
  opt_slow_log_threshold :: duration
  opt_slow_log_max_len :: int
  opt_shutdown_timeout :: duration

record slow_entry =
  slow_id :: int
  slow_at :: time
  slow_duration :: duration
  slow_cmd :: "bytes list"

record metrics =
  started_at :: time
  total_commands :: nat
  total_errors :: nat
  total_connections :: nat
  current_connections :: nat
  rejected_connections :: nat
  keyspace_hits :: nat
  keyspace_misses :: nat
  oom_rejected_writes :: nat
  snapshot_successes :: nat
  snapshot_failures :: nat
  last_snapshot_micros :: int
  per_command :: "nat gomap"
  next_slow_id :: int
  slow_log :: "slow_entry list"

record auth_limiter =
  failures :: "int gomap"
  blocked :: "time gomap"

record client =
  client_id :: subscriber
  remote_addr :: bytes
  client_subs :: "bytes list"
  authed :: bool
  close_after_reply :: bool

record server =
  sopts :: options
  sstore :: store
  saof :: "aof option"
  sbroker :: broker
  slimit :: auth_limiter
  smetrics :: metrics
  sdir :: directory
  outbox :: "(subscriber \<times> reply) list"
  slots_used :: nat
  active_conns :: int
  sclosing :: bool
  drained :: bool

record senv =
  cmd_env :: env
  log_clock :: time
  memory_clock :: "nat \<Rightarrow> time"
  append_since :: time
  append_now :: time
  append_write :: "(nat \<times> bytes) option"
  append_sync :: "bytes option"
  save_os_result :: save_os
  save_clock :: time
  save_order :: "bytes \<Rightarrow> bytes list \<Rightarrow> bytes list"
  save_duration :: duration
  auth_clock :: "nat \<Rightarrow> time"
  observe_clock :: time
  sub_order :: "subscriber list \<Rightarrow> subscriber list"
  lower :: "bytes \<Rightarrow> bytes"
  whole_seconds :: "duration \<Rightarrow> int"
  quote_byte :: "char \<Rightarrow> bytes"
  cmd_duration :: duration
  deadline_fails :: bool
  send_fails :: bool

definition new_metrics :: "time \<Rightarrow> metrics" where
  "new_metrics now =
     \<lparr>started_at = now, total_commands = 0, total_errors = 0, total_connections = 0,
      current_connections = 0, rejected_connections = 0, keyspace_hits = 0, keyspace_misses = 0,
      oom_rejected_writes = 0, snapshot_successes = 0, snapshot_failures = 0,
      last_snapshot_micros = 0, per_command = [], next_slow_id = 0, slow_log = []\<rparr>"

definition new_auth_limiter :: auth_limiter where
  "new_auth_limiter = \<lparr>failures = [], blocked = []\<rparr>"

definition new_client :: "subscriber \<Rightarrow> bytes \<Rightarrow> client" where
  "new_client cid remote =
     \<lparr>client_id = cid, remote_addr = remote, client_subs = [], authed = False,
      close_after_reply = False\<rparr>"

text \<open>\<open>client.send\<close>: the reply is written to the connection, or an error the callers that
  do not look at it ignore.\<close>

definition send :: "subscriber \<Rightarrow> reply \<Rightarrow> server \<Rightarrow> server" where
  "send cid r sv = sv\<lparr>outbox := outbox sv @ [(cid, r)]\<rparr>"

definition on_metrics :: "(metrics \<Rightarrow> metrics) \<Rightarrow> server \<Rightarrow> server" where
  "on_metrics f sv = sv\<lparr>smetrics := f (smetrics sv)\<rparr>"

lemma on_metrics_frame [simp]:
  "sopts (on_metrics f sv) = sopts sv" "sstore (on_metrics f sv) = sstore sv"
  "saof (on_metrics f sv) = saof sv" "sbroker (on_metrics f sv) = sbroker sv"
  "slimit (on_metrics f sv) = slimit sv" "sdir (on_metrics f sv) = sdir sv"
  "outbox (on_metrics f sv) = outbox sv" "smetrics (on_metrics f sv) = f (smetrics sv)"
  "slots_used (on_metrics f sv) = slots_used sv" "active_conns (on_metrics f sv) = active_conns sv"
  "sclosing (on_metrics f sv) = sclosing sv" "drained (on_metrics f sv) = drained sv"
  by (simp_all add: on_metrics_def)

lemma send_frame [simp]:
  "sopts (send c r sv) = sopts sv" "sstore (send c r sv) = sstore sv"
  "saof (send c r sv) = saof sv" "sbroker (send c r sv) = sbroker sv"
  "slimit (send c r sv) = slimit sv" "sdir (send c r sv) = sdir sv"
  "outbox (send c r sv) = outbox sv @ [(c, r)]" "smetrics (send c r sv) = smetrics sv"
  "slots_used (send c r sv) = slots_used sv" "active_conns (send c r sv) = active_conns sv"
  "sclosing (send c r sv) = sclosing sv" "drained (send c r sv) = drained sv"
  by (simp_all add: send_def)

end
