(* ===== verification/Server_Metrics.thy ===== *)
theory Server_Metrics
  imports Server_State "HOL-Library.Char_ord" "HOL-Library.List_Lexorder"
begin

section \<open>Metrics, the slow log and the informative commands\<close>

text \<open>
  Models \<open>internal/server/observability.go\<close>. The counters are natural numbers: that an
  \<open>uint64\<close> wraps around after \<open>2 ^ 64\<close> events is not modelled. Lines of the process log
  are not state: \<open>should_log_command\<close> is the decision to write one. The truncation of
  \<open>Duration.Seconds\<close>, a floating-point number, is the parameter \<open>whole_seconds\<close>.
\<close>

definition default_slow_log_max_len :: int where
  "default_slow_log_max_len = 128"

definition valid_command_log_mode :: "bytes \<Rightarrow> bool" where
  "valid_command_log_mode mode \<longleftrightarrow> mode \<in> {''off'', ''errors'', ''slow'', ''all''}"

subsection \<open>Counters\<close>

definition record_connection_accepted :: "server \<Rightarrow> server" where
  "record_connection_accepted =
     on_metrics (\<lambda>m. m\<lparr>total_connections := Suc (total_connections m),
                       current_connections := Suc (current_connections m)\<rparr>)"

definition record_connection_rejected :: "server \<Rightarrow> server" where
  "record_connection_rejected =
     on_metrics (\<lambda>m. m\<lparr>rejected_connections := Suc (rejected_connections m)\<rparr>)"

definition record_connection_closed :: "server \<Rightarrow> server" where
  "record_connection_closed =
     on_metrics (\<lambda>m. if current_connections m > 0
                     then m\<lparr>current_connections := current_connections m - 1\<rparr> else m)"

definition is_error_reply :: "reply option \<Rightarrow> bool" where
  "is_error_reply r = (case r of Some (ErrorReply _) \<Rightarrow> True | _ \<Rightarrow> False)"

definition is_hit :: "reply \<Rightarrow> bool" where
  "is_hit item = (case item of BulkReply _ null \<Rightarrow> \<not> null | _ \<Rightarrow> False)"

definition lookup_stats :: "bytes \<Rightarrow> bytes list \<Rightarrow> reply option \<Rightarrow> nat \<times> nat" where
  "lookup_stats name args r =
     (case r of
        Some (BulkReply _ null) \<Rightarrow>
          if name = ''GET'' then (if null then (0, 1) else (1, 0)) else (0, 0)
      | Some (ArrayReply elems _) \<Rightarrow>
          if name = ''MGET''
          then (length (filter is_hit elems), length (filter (\<lambda>item. \<not> is_hit item) elems))
          else (0, 0)
      | Some (IntReply n) \<Rightarrow>
          if name = ''EXISTS''
          then (let total = length args; hits = min (nat (n mod 18446744073709551616)) total
                in (hits, total - hits))
          else (0, 0)
      | _ \<Rightarrow> (0, 0))"

definition redact_command :: "(bytes \<Rightarrow> bytes) \<Rightarrow> command \<Rightarrow> bytes list" where
  "redact_command uc cmd =
     (let name = to_upper uc (cmd_name cmd)
      in name # map (\<lambda>arg. if name \<in> {''INFO'', ''COMMAND'', ''CLIENT'', ''SELECT'', ''SLOWLOG''}
                           then arg else ''<redacted>'') (cmd_args cmd))"

definition is_slow_log_reset :: "command \<Rightarrow> bool" where
  "is_slow_log_reset cmd \<longleftrightarrow>
     equal_fold (cmd_name cmd) ''SLOWLOG'' \<and> length (cmd_args cmd) = 1 \<and>
     equal_fold (cmd_args cmd ! 0) ''RESET''"

definition should_log_command :: "server \<Rightarrow> bool \<Rightarrow> duration \<Rightarrow> bool" where
  "should_log_command sv is_err d =
     (let mode = opt_command_log (sopts sv); threshold = opt_slow_log_threshold (sopts sv)
      in if mode = ''all'' then True
         else if mode = ''errors'' then is_err
         else if mode = ''slow'' then threshold > 0 \<and> d \<ge> threshold
         else False)"

definition bump_command :: "bytes \<Rightarrow> nat gomap \<Rightarrow> nat gomap" where
  "bump_command name m =
     AList.update name (Suc (case map_of m name of None \<Rightarrow> 0 | Some n \<Rightarrow> n)) m"

text \<open>\<open>now\<close> is the reading of the clock for the slow log.\<close>

definition push_slow_log ::
  "(bytes \<Rightarrow> bytes) \<Rightarrow> time \<Rightarrow> nat \<Rightarrow> command \<Rightarrow> duration \<Rightarrow> metrics \<Rightarrow> metrics" where
  "push_slow_log uc now max_len cmd d m =
     (let i = next_slow_id m + 1;
          l = \<lparr>slow_id = i, slow_at = now, slow_duration = d, slow_cmd = redact_command uc cmd\<rparr>
              # slow_log m
      in m\<lparr>next_slow_id := i, slow_log := (if length l > max_len then take max_len l else l)\<rparr>)"

definition observe_command ::
  "senv \<Rightarrow> command \<Rightarrow> reply option \<Rightarrow> duration \<Rightarrow> server \<Rightarrow> server" where
  "observe_command e cmd r d sv =
     (let uc = upper (cmd_env e);
          name = to_upper uc (cmd_name cmd);
          (hits, misses) = lookup_stats name (cmd_args cmd) r;
          threshold = opt_slow_log_threshold (sopts sv);
          slow = threshold > 0 \<and> d \<ge> threshold \<and> \<not> is_slow_log_reset cmd
      in on_metrics (\<lambda>m.
           let m = m\<lparr>total_commands := Suc (total_commands m)\<rparr>;
               m = (if is_error_reply r then m\<lparr>total_errors := Suc (total_errors m)\<rparr> else m);
               m = m\<lparr>keyspace_hits := keyspace_hits m + hits,
                      keyspace_misses := keyspace_misses m + misses,
                      per_command := bump_command name (per_command m)\<rparr>
           in if slow
              then push_slow_log uc (observe_clock e) (nat (opt_slow_log_max_len (sopts sv))) cmd d m
              else m) sv)"

definition record_oom_rejected_write :: "server \<Rightarrow> server" where
  "record_oom_rejected_write =
     on_metrics (\<lambda>m. m\<lparr>oom_rejected_writes := Suc (oom_rejected_writes m)\<rparr>)"

definition microseconds :: "duration \<Rightarrow> int" where
  "microseconds d = go_div d 1000"

definition record_snapshot :: "duration \<Rightarrow> bool \<Rightarrow> server \<Rightarrow> server" where
  "record_snapshot d failed =
     on_metrics (\<lambda>m.
       let m = m\<lparr>last_snapshot_micros := microseconds d\<rparr>
       in if failed then m\<lparr>snapshot_failures := Suc (snapshot_failures m)\<rparr>
          else m\<lparr>snapshot_successes := Suc (snapshot_successes m)\<rparr>)"

definition record_protocol_error :: "server \<Rightarrow> server" where
  "record_protocol_error = on_metrics (\<lambda>m. m\<lparr>total_errors := Suc (total_errors m)\<rparr>)"

subsection \<open>\<open>INFO\<close> and \<open>STATS\<close>\<close>

definition info_line :: "bytes \<Rightarrow> int \<Rightarrow> bytes" where
  "info_line name n = name @ '':'' @ format_int n @ lf"

definition sync_text :: "fsync_policy \<Rightarrow> bytes" where
  "sync_text p = (case p of FsyncAlways \<Rightarrow> ''always'' | FsyncEverysec \<Rightarrow> ''everysec'' | FsyncNo \<Rightarrow> ''no'')"

definition bool_int :: "bool \<Rightarrow> int" where
  "bool_int v = (if v then 1 else 0)"

definition info_string :: "senv \<Rightarrow> server \<Rightarrow> bytes" where
  "info_string e sv =
     (let m = smetrics sv; o' = sopts sv; st = sstore sv
      in ''# Server'' @ lf
         @ info_line ''uptime_seconds'' (whole_seconds e (time_sub (observe_clock e) (started_at m)))
         @ lf @ ''# Clients'' @ lf
         @ info_line ''connected_clients'' (int (current_connections m))
         @ info_line ''total_connections_received'' (int (total_connections m))
         @ info_line ''rejected_connections'' (int (rejected_connections m))
         @ info_line ''max_connections'' (opt_max_connections o')
         @ lf @ ''# Stats'' @ lf
         @ info_line ''total_commands_processed'' (int (total_commands m))
         @ info_line ''total_errors'' (int (total_errors m))
         @ info_line ''keyspace_hits'' (int (keyspace_hits m))
         @ info_line ''keyspace_misses'' (int (keyspace_misses m))
         @ info_line ''expired_keys'' (int (total_expired_keys st))
         @ info_line ''oom_rejected_writes'' (int (oom_rejected_writes m))
         @ lf @ ''# Memory'' @ lf
         @ info_line ''used_memory_approx'' (approx_memory st)
         @ info_line ''maxmemory'' (opt_max_memory_bytes o')
         @ lf @ ''# Keyspace'' @ lf
         @ info_line ''keys'' (int (store_len (shard_order (cmd_env e)) (observe_clock e) st))
         @ lf @ ''# Persistence'' @ lf
         @ info_line ''snapshot_enabled'' (bool_int (opt_snapshot_path o' \<noteq> []))
         @ info_line ''aof_enabled'' (bool_int (saof sv \<noteq> None))
         @ ''aof_fsync:'' @ (case saof sv of None \<Rightarrow> [] | Some a \<Rightarrow> sync_text (aof_policy a)) @ lf
         @ info_line ''snapshot_successes'' (int (snapshot_successes m))
         @ info_line ''snapshot_failures'' (int (snapshot_failures m))
         @ info_line ''last_snapshot_duration_us'' (last_snapshot_micros m)
         @ lf @ ''# Commandstats'' @ lf
         @ concat (map (\<lambda>name. ''cmdstat_'' @ to_lower (lower e) name @ '':calls=''
               @ format_int (int (the (map_of (per_command m) name))) @ lf)
             (sort (keys (per_command m)))))"

definition cmd_info :: "senv \<Rightarrow> bytes list \<Rightarrow> server \<Rightarrow> reply" where
  "cmd_info e args sv =
     (if length args > 1 then ErrorReply ''ERR INFO takes zero or one section''
      else BulkReply (info_string e sv) False)"

definition cmd_stats :: "senv \<Rightarrow> bytes list \<Rightarrow> server \<Rightarrow> reply" where
  "cmd_stats e args sv =
     (if length args \<noteq> 0 then ErrorReply ''ERR STATS takes no arguments''
      else BulkReply (info_string e sv) False)"

subsection \<open>\<open>SLOWLOG\<close>\<close>

definition slow_entry_reply :: "slow_entry \<Rightarrow> reply" where
  "slow_entry_reply l =
     ArrayReply
       [IntReply (slow_id l), IntReply (unix_seconds (slow_at l)),
        IntReply (microseconds (slow_duration l)),
        ArrayReply (map (\<lambda>part. BulkReply part False) (slow_cmd l)) False] False"

definition slow_log_reply :: "nat \<Rightarrow> server \<Rightarrow> reply" where
  "slow_log_reply limit sv =
     (let entries = slow_log (smetrics sv);
          entries = (if limit < length entries then take limit entries else entries)
      in ArrayReply (map slow_entry_reply entries) False)"

definition cmd_slow_log :: "senv \<Rightarrow> bytes list \<Rightarrow> server \<Rightarrow> (server \<times> reply) option" where
  "cmd_slow_log e args sv =
     (if length args < 1 then Some (sv, ErrorReply ''ERR SLOWLOG requires a subcommand'')
      else do {
        raw \<leftarrow> arg_at args 0;
        let sub = to_upper (upper (cmd_env e)) raw;
        if sub = ''LEN'' then
          Some (if length args \<noteq> 1 then (sv, ErrorReply ''ERR SLOWLOG LEN takes no arguments'')
                else (sv, IntReply (int (length (slow_log (smetrics sv))))))
        else if sub = ''RESET'' then
          Some (if length args \<noteq> 1 then (sv, ErrorReply ''ERR SLOWLOG RESET takes no arguments'')
                else (on_metrics (\<lambda>m. m\<lparr>slow_log := []\<rparr>) sv, StatusReply ''OK''))
        else if sub = ''GET'' then
          (if length args > 2 then Some (sv, ErrorReply ''ERR SLOWLOG GET takes zero or one limit'')
           else if length args = 2 then do {
             limit \<leftarrow> arg_at args 1;
             Some
               (case parse_int limit of
                  None \<Rightarrow> (sv, ErrorReply ''ERR invalid SLOWLOG limit'')
                | Some n \<Rightarrow>
                    if n < 0 then (sv, ErrorReply ''ERR invalid SLOWLOG limit'')
                    else (sv, slow_log_reply (nat n) sv))
           }
           else Some (sv, slow_log_reply (nat (opt_slow_log_max_len (sopts sv))) sv))
        else Some (sv, ErrorReply ''ERR unknown SLOWLOG subcommand'')
      })"

text \<open>What it returns: it never reads an argument that is not there.\<close>

definition cmd_slow_log_result :: "senv \<Rightarrow> bytes list \<Rightarrow> server \<Rightarrow> server \<times> reply" where
  "cmd_slow_log_result e args sv = the (cmd_slow_log e args sv)"

lemma cmd_slow_log_some: "cmd_slow_log e args sv = Some (cmd_slow_log_result e args sv)"
  by (simp add: cmd_slow_log_result_def cmd_slow_log_def Let_def)

lemmas cmd_slow_log_eqs = cmd_slow_log_result_def cmd_slow_log_def

subsection \<open>Invariant of the slow log\<close>

text \<open>
  The log never exceeds its limit and its identifiers decrease from the last one given out:
  newest first, none repeated.
\<close>

definition slow_log_ok :: "nat \<Rightarrow> metrics \<Rightarrow> bool" where
  "slow_log_ok max_len m \<longleftrightarrow>
     length (slow_log m) \<le> max_len \<and>
     sorted_wrt (>) (map slow_id (slow_log m)) \<and>
     (\<forall>l \<in> set (slow_log m). slow_id l \<le> next_slow_id m)"

lemma slow_log_ok_new [simp]: "slow_log_ok n (new_metrics now)"
  by (simp add: slow_log_ok_def new_metrics_def)

lemma sorted_wrt_take: "sorted_wrt P xs \<Longrightarrow> sorted_wrt P (take n xs)"
  using sorted_wrt_append [of P "take n xs" "drop n xs"] by simp

lemma slow_log_ok_push:
  assumes "slow_log_ok n m"
  shows "slow_log_ok n (push_slow_log uc now n cmd d m)"
proof -
  let ?i = "next_slow_id m + 1"
  let ?l = "\<lparr>slow_id = ?i, slow_at = now, slow_duration = d, slow_cmd = redact_command uc cmd\<rparr>
            # slow_log m"
  have l: "sorted_wrt (>) (map slow_id ?l)" "\<forall>l \<in> set ?l. slow_id l \<le> ?i"
    using assms by (fastforce simp: slow_log_ok_def)+
  have "sorted_wrt (>) (map slow_id (take n ?l))"
    using sorted_wrt_take [OF l(1), of n] by (simp only: take_map)
  moreover have "\<forall>l \<in> set (take n ?l). slow_id l \<le> ?i"
    using l(2) by (blast dest: in_set_takeD)
  moreover have "(if length ?l > n then take n ?l else ?l) = take n ?l" by simp
  ultimately show ?thesis
    by (simp add: slow_log_ok_def push_slow_log_def Let_def del: take_Cons')
qed

lemma slow_log_ok_observe:
  assumes "slow_log_ok (nat (opt_slow_log_max_len (sopts sv))) (smetrics sv)"
  shows "slow_log_ok (nat (opt_slow_log_max_len (sopts sv))) (smetrics (observe_command e cmd r d sv))"
proof -
  have c: "slow_log_ok n m'" if "slow_log m' = slow_log m" "next_slow_id m' = next_slow_id m"
    "slow_log_ok n m" for n and m m' :: metrics
    using that by (simp add: slow_log_ok_def)
  show ?thesis
    using assms
    by (auto simp: observe_command_def Let_def case_prod_unfold
        intro!: slow_log_ok_push intro: c [of _ "smetrics sv"])
qed

text \<open>Nothing but the command's shape is kept, except for five administrative commands.\<close>

lemma redact_command_args:
  assumes "to_upper uc (cmd_name cmd) \<notin> {''INFO'', ''COMMAND'', ''CLIENT'', ''SELECT'', ''SLOWLOG''}"
  shows "redact_command uc cmd
         = to_upper uc (cmd_name cmd) # replicate (length (cmd_args cmd)) ''<redacted>''"
  using assms by (simp add: redact_command_def Let_def map_replicate_const)

end
