(* ===== verification/Server_Aof.thy ===== *)
theory Server_Aof
  imports Server_Metrics
begin

section \<open>Dispatching with the append-only file and the memory limit\<close>

text \<open>
  Models \<open>internal/server/aof.go\<close>. \<open>aof_command\<close> turns a command into the one that is
  logged and says whether it is logged at all; its outer \<open>None\<close> is a panic, as everywhere in
  these definitions (\<open>arg_at\<close> and \<open>args_from\<close> of \<open>Commands\<close>). The mutex \<open>mutationMu\<close> makes
  check, execution and append one step, so they are one function here.

  The lemmas show: a command that is not logged, and a command whose reply is an error, change
  nothing a client can observe; a logged command is accepted again by the replay; its growth
  estimate is an upper bound.
\<close>

subsection \<open>The logged command\<close>

text \<open>\<open>setExpiryMillis\<close>; \<open>now\<close> is the reading of the clock.\<close>

definition set_expiry_millis :: "(bytes \<Rightarrow> bytes) \<Rightarrow> time \<Rightarrow> bytes list \<Rightarrow> int option" where
  "set_expiry_millis uc now opts =
     (case opts of
        [opt, val] \<Rightarrow>
          (case parse_int val of
             None \<Rightarrow> None
           | Some n \<Rightarrow>
               let opt = to_upper uc opt
               in if opt = ''EX'' then Some (unix_milli (time_add now (seconds n)))
                  else if opt = ''PX'' then Some (unix_milli (time_add now (milliseconds n)))
                  else if opt = ''EXAT'' then Some (unix_milli (time_unix n))
                  else if opt = ''PXAT'' then Some n
                  else None)
      | _ \<Rightarrow> None)"

definition empty_command :: command where
  "empty_command = \<lparr>cmd_name = [], cmd_args = []\<rparr>"

definition normalized_command :: "bytes \<Rightarrow> bytes list \<Rightarrow> command" where
  "normalized_command name args = \<lparr>cmd_name = name, cmd_args = args\<rparr>"

definition aof_command :: "(bytes \<Rightarrow> bytes) \<Rightarrow> time \<Rightarrow> command \<Rightarrow> (command \<times> bool) option" where
  "aof_command uc now cmd =
     (let name = to_upper uc (cmd_name cmd); args = cmd_args cmd;
          same = (\<lambda>ok. Some (normalized_command name args, ok))
      in if name = ''SET'' then
           (if length args = 2 then same True
            else do {
              opts \<leftarrow> args_from args 2;
              case set_expiry_millis uc now opts of
                None \<Rightarrow> Some (empty_command, False)
              | Some at \<Rightarrow> do {
                  key \<leftarrow> arg_at args 0;
                  val \<leftarrow> arg_at args 1;
                  Some (\<lparr>cmd_name = ''SET'', cmd_args = [key, val, ''PXAT'', format_int at]\<rparr>, True)
                }
            })
         else if name = ''DEL'' then same (length args \<ge> 1)
         else if name = ''EXPIRE'' then
           (if length args \<noteq> 2 then Some (empty_command, False)
            else do {
              ttl \<leftarrow> arg_at args 1;
              case parse_int ttl of
                None \<Rightarrow> Some (empty_command, False)
              | Some secs \<Rightarrow> do {
                  key \<leftarrow> arg_at args 0;
                  Some (\<lparr>cmd_name = ''PEXPIREAT'',
                         cmd_args = [key, format_int (unix_milli (time_add now (seconds secs)))]\<rparr>, True)
                }
            })
         else if name = ''PEXPIREAT'' then
           (if length args \<noteq> 2 then Some (empty_command, False)
            else do {
              n \<leftarrow> arg_at args 1;
              case parse_int n of None \<Rightarrow> Some (empty_command, False) | Some _ \<Rightarrow> same True
            })
         else if name = ''PERSIST'' then same (length args = 1)
         else if name = ''LPUSH'' \<or> name = ''RPUSH'' then same (length args \<ge> 2)
         else if name = ''LPOP'' \<or> name = ''RPOP'' then same (length args = 1)
         else if name = ''HSET'' then same (length args = 3)
         else if name = ''HDEL'' then same (length args \<ge> 2)
         else if name = ''SADD'' \<or> name = ''SREM'' then same (length args \<ge> 2)
         else if name = ''INCR'' \<or> name = ''DECR'' then same (length args = 1)
         else if name = ''INCRBY'' \<or> name = ''DECRBY'' then
           (if length args \<noteq> 2 then Some (empty_command, False)
            else do {
              n \<leftarrow> arg_at args 1;
              case parse_int n of None \<Rightarrow> Some (empty_command, False) | Some _ \<Rightarrow> same True
            })
         else if name = ''MSET'' then same (length args \<ge> 2 \<and> length args mod 2 = 0)
         else if name = ''SETNX'' then same (length args = 2)
         else if name = ''FLUSHALL'' then same (length args = 0)
         else Some (empty_command, False))"

subsection \<open>The memory limit\<close>

definition args_size :: "bytes list \<Rightarrow> int" where
  "args_size args = sum_list (map (\<lambda>arg. int (length arg)) args)"

text \<open>The function \<open>estimatedGrowth\<close> of the package: an upper bound from the arguments alone.\<close>

definition command_growth :: "(bytes \<Rightarrow> bytes) \<Rightarrow> command \<Rightarrow> int option" where
  "command_growth uc cmd =
     (let name = to_upper uc (cmd_name cmd); args = cmd_args cmd
      in if name = ''SET'' \<or> name = ''SETNX'' then
           (if length args < 2 then Some 0
            else do {
              key \<leftarrow> arg_at args 0;
              val \<leftarrow> arg_at args 1;
              Some (int (length key + length val))
            })
         else if name = ''MSET'' then Some (args_size args)
         else if name = ''LPUSH'' \<or> name = ''RPUSH'' \<or> name = ''SADD'' then Some (args_size args)
         else if name = ''HSET'' then Some (args_size args)
         else if name = ''INCR'' \<or> name = ''DECR'' then
           (if length args \<noteq> 1 then Some 0
            else do { key \<leftarrow> arg_at args 0; Some (int (length key + 32)) })
         else if name = ''INCRBY'' \<or> name = ''DECRBY'' then
           (if length args \<noteq> 2 then Some 0
            else do { key \<leftarrow> arg_at args 0; Some (int (length key + 32)) })
         else Some 0)"

text \<open>The method of the same name also takes off what the command replaces. \<open>EntryMemory\<close>
  is a lookup, so it can remove an expired entry; \<open>clk i\<close> is its reading of the clock.\<close>

fun mset_growth :: "(nat \<Rightarrow> time) \<Rightarrow> nat \<Rightarrow> bytes list \<Rightarrow> int \<Rightarrow> store \<Rightarrow> store \<times> int" where
  "mset_growth clk i (k # v # rest) growth s =
     (let (s, m) = store_entry_memory k (clk i) s in mset_growth clk (Suc i) rest (growth - m) s)"
| "mset_growth clk i _ growth s = (s, growth)"

definition estimated_growth ::
  "(bytes \<Rightarrow> bytes) \<Rightarrow> (nat \<Rightarrow> time) \<Rightarrow> command \<Rightarrow> store \<Rightarrow> (store \<times> int) option" where
  "estimated_growth uc clk cmd s = do {
     growth \<leftarrow> command_growth uc cmd;
     let name = to_upper uc (cmd_name cmd);
     let args = cmd_args cmd;
     if name = ''SET'' then
       (if length args \<ge> 2
        then do {
          key \<leftarrow> arg_at args 0;
          let (s, m) = store_entry_memory key (clk 0) s;
          Some (s, growth - m)
        }
        else Some (s, growth))
     else if name = ''SETNX'' then
       (if length args \<ge> 2
        then do {
          key \<leftarrow> arg_at args 0;
          let (s, m) = store_entry_memory key (clk 0) s;
          Some (s, if m > 0 then 0 else growth)
        }
        else Some (s, growth))
     else if name = ''MSET'' then Some (mset_growth clk 0 args growth s)
     else Some (s, growth)
   }"

definition memory_limit_exceeded ::
  "(bytes \<Rightarrow> bytes) \<Rightarrow> (nat \<Rightarrow> time) \<Rightarrow> int \<Rightarrow> command \<Rightarrow> store \<Rightarrow> (store \<times> bool) option" where
  "memory_limit_exceeded uc clk max_memory cmd s = do {
     (s, growth) \<leftarrow> estimated_growth uc clk cmd s;
     Some (if growth \<le> 0 then (s, False) else (s, approx_memory s + growth > max_memory))
   }"

subsection \<open>Dispatching\<close>

definition snap_err_text :: "(char \<Rightarrow> bytes) \<Rightarrow> snap_io_err \<Rightarrow> bytes" where
  "snap_err_text quote e =
     (case e of
        EmptyPath \<Rightarrow> ''empty snapshot path''
      | BadType c \<Rightarrow> ''unknown snapshot type: '' @ quote c
      | SnapOs msg \<Rightarrow> msg
      | _ \<Rightarrow> [])"

text \<open>The function the server registers for \<open>SAVE\<close>, when it has a snapshot path.\<close>

definition save_func :: "senv \<Rightarrow> server \<Rightarrow> server save_func option" where
  "save_func e sv =
     (if opt_snapshot_path (sopts sv) = [] then None
      else Some (\<lambda>st sv.
        let (st, dir, err) =
              snapshot_save (shard_order (cmd_env e)) (\<lambda>_. map_order (cmd_env e)) (save_order e)
                (save_clock e) (save_os_result e) (opt_snapshot_path (sopts sv)) st (sdir sv)
        in (st, record_snapshot (save_duration e) (err \<noteq> None) (sv\<lparr>sdir := dir\<rparr>),
            map_option (snap_err_text (quote_byte e)) err)))"

definition server_dispatch :: "senv \<Rightarrow> command \<Rightarrow> server \<Rightarrow> (server \<times> reply) option" where
  "server_dispatch e cmd sv = do {
     (st, sv', r) \<leftarrow> dispatch (save_func e sv) (cmd_env e) cmd (sstore sv) sv;
     Some (sv'\<lparr>sstore := st\<rparr>, r)
   }"

definition dispatch_mutating_locked ::
  "senv \<Rightarrow> command \<Rightarrow> command \<Rightarrow> server \<Rightarrow> (server \<times> reply) option" where
  "dispatch_mutating_locked e cmd log_cmd sv = do {
     (sv, r) \<leftarrow> server_dispatch e cmd sv;
     Some
       (if is_error_reply (Some r) then (sv, r)
        else case saof sv of
               None \<Rightarrow> (sv, r)
             | Some a \<Rightarrow>
                 (case aof_append (upper (cmd_env e)) log_cmd (append_since e) (append_now e)
                         (append_write e) (append_sync e) a of
                    (a, Some err) \<Rightarrow> (sv\<lparr>saof := Some a\<rparr>, ErrorReply (''ERR AOF '' @ err))
                  | (a, None) \<Rightarrow> (sv\<lparr>saof := Some a\<rparr>, r)))
   }"

definition oom_reply :: reply where
  "oom_reply = ErrorReply ''OOM command not allowed when used memory > maxmemory''"

definition dispatch_with_aof :: "senv \<Rightarrow> command \<Rightarrow> server \<Rightarrow> (server \<times> reply) option" where
  "dispatch_with_aof e cmd sv = do {
     (log_cmd, loggable) \<leftarrow> aof_command (upper (cmd_env e)) (log_clock e) cmd;
     if loggable \<and> opt_max_memory_bytes (sopts sv) > 0 then do {
       (st, exceeded) \<leftarrow> memory_limit_exceeded (upper (cmd_env e)) (memory_clock e)
         (opt_max_memory_bytes (sopts sv)) log_cmd (sstore sv);
       let sv = sv\<lparr>sstore := st\<rparr>;
       if exceeded then Some (record_oom_rejected_write sv, oom_reply)
       else dispatch_mutating_locked e cmd log_cmd sv
     }
     else if saof sv = None \<or> \<not> loggable then server_dispatch e cmd sv
     else dispatch_mutating_locked e cmd log_cmd sv
   }"

text \<open>
  \<open>replayAOFCommand\<close> with the dispatcher that has no \<open>SAVE\<close>; each command is replayed in an
  environment of its own, taken from the list. A panic while replaying ends the process; the
  text \<open>''panic''\<close> stands for it.
\<close>

definition replay_aof_command ::
  "env \<Rightarrow> time \<Rightarrow> command \<Rightarrow> store \<Rightarrow> store \<times> bytes option" where
  "replay_aof_command env now cmd s =
     (case aof_command (upper env) now cmd of
        None \<Rightarrow> (s, Some ''panic'')
      | Some (_, ok) \<Rightarrow>
          if \<not> ok then (s, Some (''AOF contains non-reproducible command: '' @ cmd_name cmd))
          else (case dispatch None env cmd s () of
                  None \<Rightarrow> (s, Some ''panic'')
                | Some (s, _, _) \<Rightarrow> (s, None)))"

subsection \<open>Nothing panics behind a guard\<close>

text \<open>
  The handlers return, and so do the growth estimate and the dispatchers around them. What they
  return, without the option.
\<close>

lemma arg_bind: "Option.bind (arg_at args i) f = (if i < length args then f (args ! i) else None)"
  by (simp add: arg_at_def)

lemma args_from_bind:
  "Option.bind (args_from args i) f = (if i \<le> length args then f (drop i args) else None)"
  by (simp add: args_from_def)

lemmas aof_command_eqs = aof_command_def arg_bind args_from_bind

definition command_growth_result :: "(bytes \<Rightarrow> bytes) \<Rightarrow> command \<Rightarrow> int" where
  "command_growth_result uc cmd = the (command_growth uc cmd)"

lemma command_growth_some: "command_growth uc cmd = Some (command_growth_result uc cmd)"
  by (simp add: command_growth_result_def command_growth_def Let_def)

definition estimated_growth_result ::
  "(bytes \<Rightarrow> bytes) \<Rightarrow> (nat \<Rightarrow> time) \<Rightarrow> command \<Rightarrow> store \<Rightarrow> store \<times> int" where
  "estimated_growth_result uc clk cmd s = the (estimated_growth uc clk cmd s)"

lemma estimated_growth_some:
  "estimated_growth uc clk cmd s = Some (estimated_growth_result uc clk cmd s)"
  by (simp add: estimated_growth_result_def estimated_growth_def command_growth_some Let_def
      case_prod_unfold)

lemma estimated_growth_result_eq:
  "estimated_growth_result uc clk cmd s =
     (let growth = command_growth_result uc cmd;
          name = to_upper uc (cmd_name cmd); args = cmd_args cmd
      in if name = ''SET'' then
           (if length args \<ge> 2
            then let (s, m) = store_entry_memory (args ! 0) (clk 0) s in (s, growth - m)
            else (s, growth))
         else if name = ''SETNX'' then
           (if length args \<ge> 2
            then let (s, m) = store_entry_memory (args ! 0) (clk 0) s
                 in (s, if m > 0 then 0 else growth)
            else (s, growth))
         else if name = ''MSET'' then mset_growth clk 0 args growth s
         else (s, growth))"
  by (simp add: estimated_growth_result_def estimated_growth_def command_growth_some Let_def
      case_prod_unfold)

definition memory_limit_exceeded_result ::
  "(bytes \<Rightarrow> bytes) \<Rightarrow> (nat \<Rightarrow> time) \<Rightarrow> int \<Rightarrow> command \<Rightarrow> store \<Rightarrow> store \<times> bool" where
  "memory_limit_exceeded_result uc clk max_memory cmd s
   = the (memory_limit_exceeded uc clk max_memory cmd s)"

lemma memory_limit_exceeded_some:
  "memory_limit_exceeded uc clk m cmd s = Some (memory_limit_exceeded_result uc clk m cmd s)"
  by (simp add: memory_limit_exceeded_result_def memory_limit_exceeded_def estimated_growth_some
      case_prod_unfold)

lemma memory_limit_exceeded_result_eq:
  "memory_limit_exceeded_result uc clk m cmd s =
     (let (s, growth) = estimated_growth_result uc clk cmd s
      in if growth \<le> 0 then (s, False) else (s, approx_memory s + growth > m))"
  by (simp add: memory_limit_exceeded_result_def memory_limit_exceeded_def estimated_growth_some
      case_prod_unfold Let_def)

definition dispatch_result ::
  "'x save_func option \<Rightarrow> env \<Rightarrow> command \<Rightarrow> store \<Rightarrow> 'x \<Rightarrow> store \<times> 'x \<times> reply" where
  "dispatch_result save env cmd s x = the (dispatch save env cmd s x)"

lemma dispatch_some: "dispatch save env cmd s x = Some (dispatch_result save env cmd s x)"
  by (auto simp: dispatch_result_def dispatch_def Let_def case_prod_unfold
      store_cmd.run_some [OF handler_store_cmd] split: option.split)

lemma dispatch_result_eq:
  "dispatch_result save env cmd s x =
     (let name = to_upper (upper env) (cmd_name cmd)
      in case (if name = ''SAVE'' then save else None) of
           Some sv \<Rightarrow> cmd_save sv (cmd_args cmd) s x
         | None \<Rightarrow>
             (case map_of handlers name of
                Some h \<Rightarrow> (let (s, r) = run h env (cmd_args cmd) s in (s, x, r))
              | None \<Rightarrow> (s, x, ErrorReply (''ERR comando desconocido: '' @ cmd_name cmd))))"
  by (auto simp: dispatch_result_def dispatch_def Let_def case_prod_unfold
      store_cmd.run_some [OF handler_store_cmd] split: option.split)

definition server_dispatch_result :: "senv \<Rightarrow> command \<Rightarrow> server \<Rightarrow> server \<times> reply" where
  "server_dispatch_result e cmd sv =
     (let (st, sv', r) = dispatch_result (save_func e sv) (cmd_env e) cmd (sstore sv) sv
      in (sv'\<lparr>sstore := st\<rparr>, r))"

lemma server_dispatch_some: "server_dispatch e cmd sv = Some (server_dispatch_result e cmd sv)"
  by (simp add: server_dispatch_def server_dispatch_result_def dispatch_some case_prod_unfold Let_def)

definition locked_result :: "senv \<Rightarrow> command \<Rightarrow> command \<Rightarrow> server \<Rightarrow> server \<times> reply" where
  "locked_result e cmd log_cmd sv = the (dispatch_mutating_locked e cmd log_cmd sv)"

lemma locked_some: "dispatch_mutating_locked e cmd lc sv = Some (locked_result e cmd lc sv)"
  by (simp add: locked_result_def dispatch_mutating_locked_def server_dispatch_some case_prod_unfold)

lemma locked_result_eq:
  "locked_result e cmd log_cmd sv =
     (let (sv, r) = server_dispatch_result e cmd sv
      in if is_error_reply (Some r) then (sv, r)
         else case saof sv of
                None \<Rightarrow> (sv, r)
              | Some a \<Rightarrow>
                  (case aof_append (upper (cmd_env e)) log_cmd (append_since e) (append_now e)
                          (append_write e) (append_sync e) a of
                     (a, Some err) \<Rightarrow> (sv\<lparr>saof := Some a\<rparr>, ErrorReply (''ERR AOF '' @ err))
                   | (a, None) \<Rightarrow> (sv\<lparr>saof := Some a\<rparr>, r)))"
  by (simp add: locked_result_def dispatch_mutating_locked_def server_dispatch_some
      case_prod_unfold Let_def)

lemma dispatch_with_aof_eq:
  "dispatch_with_aof e cmd sv =
     (case aof_command (upper (cmd_env e)) (log_clock e) cmd of
        None \<Rightarrow> None
      | Some (log_cmd, loggable) \<Rightarrow>
          Some
           (if loggable \<and> opt_max_memory_bytes (sopts sv) > 0 then
              (let (st, exceeded) =
                     memory_limit_exceeded_result (upper (cmd_env e)) (memory_clock e)
                       (opt_max_memory_bytes (sopts sv)) log_cmd (sstore sv);
                   sv = sv\<lparr>sstore := st\<rparr>
               in if exceeded then (record_oom_rejected_write sv, oom_reply)
                  else locked_result e cmd log_cmd sv)
            else if saof sv = None \<or> \<not> loggable then server_dispatch_result e cmd sv
            else locked_result e cmd log_cmd sv))"
  by (auto simp: dispatch_with_aof_def memory_limit_exceeded_some locked_some server_dispatch_some
      case_prod_unfold Let_def split: option.split)

lemma replay_aof_command_eq:
  "replay_aof_command env now cmd s =
     (case aof_command (upper env) now cmd of
        None \<Rightarrow> (s, Some ''panic'')
      | Some (_, ok) \<Rightarrow>
          if \<not> ok then (s, Some (''AOF contains non-reproducible command: '' @ cmd_name cmd))
          else (fst (dispatch_result None env cmd s ()), None))"
  by (auto simp: replay_aof_command_def dispatch_some split: option.split prod.split)

lemmas server_aof_eval [go_eval] =
  set_expiry_millis_def aof_command_eqs normalized_command_def empty_command_def
  command_growth_def args_size_def estimated_growth_def memory_limit_exceeded_result_eq

subsection \<open>What is not logged changes nothing\<close>

lemma parse_set_expiry_set: "opts \<noteq> [] \<Longrightarrow> parse_set_expiry env opts True at = None"
  by (cases opts) (auto simp: Let_def)

lemma parse_set_expiry_bad:
  assumes "set_expiry_millis (upper env) now opts = None" and "opts \<noteq> []"
  shows "parse_set_expiry env opts False at = None"
proof -
  consider opt where "opts = [opt]" | opt val where "opts = [opt, val]"
    | opt val o2 rest where "opts = opt # val # o2 # rest"
    using assms(2) by (metis neq_Nil_conv)
  then show ?thesis
  proof cases
    case 1
    then show ?thesis by (simp add: Let_def)
  next
    case 2
    then show ?thesis
      using assms(1)
      by (auto simp: set_expiry_millis_def Let_def split: option.splits if_splits)
  next
    case 3
    then show ?thesis by (auto simp: Let_def parse_set_expiry_set split: option.split)
  qed
qed

lemma aof_command_set_bad:
  assumes "aof_command uc now cmd = Some (lc, False)" and "to_upper uc (cmd_name cmd) = ''SET''"
    and "upper env = uc"
  shows "run cmd_set env (cmd_args cmd) s = (s, ErrorReply ''ERR syntax error'')"
proof -
  have "length (cmd_args cmd) > 2" and "set_expiry_millis uc now (drop 2 (cmd_args cmd)) = None"
    using assms(1,2) by (auto simp: aof_command_eqs Let_def split: if_splits option.splits)
  then show ?thesis
    using parse_set_expiry_bad [of env now "drop 2 (cmd_args cmd)"] assms(3)
    by (simp add: run_def cmd_set_def)
qed

definition rejects :: "handler \<Rightarrow> env \<Rightarrow> bytes list \<Rightarrow> bool" where
  "rejects h env args \<longleftrightarrow>
     (\<forall>s. fst (run h env args s) = s \<and> (\<exists>msg. snd (run h env args s) = ErrorReply msg))"

lemma rejectsI: "(\<And>s. run h env args s = (s, ErrorReply msg)) \<Longrightarrow> rejects h env args"
  by (auto simp: rejects_def)

lemma unlogged_handlers:
  assumes "aof_command uc now cmd = Some (lc, False)" and "upper env = uc"
  shows "\<forall>p \<in> set handlers. to_upper uc (cmd_name cmd) = fst p \<longrightarrow>
    read_cmd (snd p) \<or> rejects (snd p) env (cmd_args cmd)"
  apply (simp add: handlers_def ping.read_cmd_axioms get_cmd.read_cmd_axioms
      exists_cmd.read_cmd_axioms ttl_cmd.read_cmd_axioms type_cmd.read_cmd_axioms
      keys_cmd.read_cmd_axioms dbsize_cmd.read_cmd_axioms hget_cmd.read_cmd_axioms
      hgetall_cmd.read_cmd_axioms hlen_cmd.read_cmd_axioms llen_cmd.read_cmd_axioms
      lrange_cmd.read_cmd_axioms sismember_cmd.read_cmd_axioms smembers_cmd.read_cmd_axioms
      scard_cmd.read_cmd_axioms mget_cmd.read_cmd_axioms)
  apply (intro conjI impI disjI2)
  apply (rule rejectsI, rule aof_command_set_bad [OF assms(1) _ assms(2)], assumption)
  using assms(1)
  by (auto simp add: aof_command_eqs cmd_defs Let_def rejects_def Suc_le_eq
      split: option.splits if_splits)

lemma unlogged_handler:
  assumes "aof_command (upper env) now cmd = Some (lc, False)"
    and "map_of handlers (to_upper (upper env) (cmd_name cmd)) = Some h"
    and "wf_store s" and "\<And>i. clock env i \<le> t"
  shows "faded t s (fst (run h env (cmd_args cmd) s))"
proof -
  have "(to_upper (upper env) (cmd_name cmd), h) \<in> set handlers"
    using assms(2) by (rule map_of_SomeD)
  with unlogged_handlers [OF assms(1) refl]
  have "read_cmd h \<or> rejects h env (cmd_args cmd)" by fastforce
  then show ?thesis
    using read_cmd.reads_only [of h s env t "cmd_args cmd"] assms(3,4) by (auto simp: rejects_def)
qed

lemma error_handler:
  assumes "map_of handlers name = Some h" and "snd (run h env args s) = ErrorReply msg"
    and "wf_store s" and "\<And>i. clock env i \<le> t"
  shows "faded t s (fst (run h env args s))"
proof -
  have "careful_cmd h"
    using handlers_careful map_of_SomeD [OF assms(1)] by fastforce
  then show ?thesis using careful_cmd.error_inert assms(2-4) by blast
qed

text \<open>A saving function that only removes expired entries.\<close>

definition save_ok :: "time \<Rightarrow> 'x save_func option \<Rightarrow> bool" where
  "save_ok t save \<longleftrightarrow>
     (\<forall>f. save = Some f \<longrightarrow>
        (\<forall>s x. wf_store s \<longrightarrow> wf_store (fst (f s x)) \<and> faded t s (fst (f s x))))"

lemma save_ok_None [simp]: "save_ok t None"
  by (simp add: save_ok_def)

lemma cmd_save_store: "fst (cmd_save f args s x) = s \<or> fst (cmd_save f args s x) = fst (f s x)"
  by (auto simp: cmd_save_def split: prod.split option.split)

lemma dispatch_cases:
  obtains (save) f where "save = Some f" "to_upper (upper env) (cmd_name cmd) = ''SAVE''"
      "dispatch_result save env cmd s x = cmd_save f (cmd_args cmd) s x"
  | (handler) h where "map_of handlers (to_upper (upper env) (cmd_name cmd)) = Some h"
      "dispatch_result save env cmd s x = (fst (run h env (cmd_args cmd) s), x, snd (run h env (cmd_args cmd) s))"
  | (unknown) "map_of handlers (to_upper (upper env) (cmd_name cmd)) = None"
      "dispatch_result save env cmd s x = (s, x, ErrorReply (''ERR comando desconocido: '' @ cmd_name cmd))"
  by (cases "to_upper (upper env) (cmd_name cmd) = ''SAVE''"; cases save;
      cases "map_of handlers (to_upper (upper env) (cmd_name cmd))")
     (auto simp: dispatch_result_eq Let_def case_prod_unfold)

lemma wf_store_dispatch:
  assumes "wf_store s" and "save_ok t save"
  shows "wf_store (fst (dispatch_result save env cmd s x))"
proof (cases rule: dispatch_cases [of save env cmd s x])
  case (save f)
  then show ?thesis
    using assms cmd_save_store [of f "cmd_args cmd" s x] by (auto simp: save_ok_def)
next
  case (handler h)
  then show ?thesis using store_cmd.keeps_wf [OF handler_store_cmd assms(1)] by auto
qed (simp add: assms(1))

lemma dispatch_faded:
  assumes "wf_store s" and "save_ok t save" and "\<And>i. clock env i \<le> t"
    and "(\<exists>lc. aof_command (upper env) now cmd = Some (lc, False))
         \<or> (\<exists>msg. snd (snd (dispatch_result save env cmd s x)) = ErrorReply msg)"
  shows "faded t s (fst (dispatch_result save env cmd s x))"
proof (cases rule: dispatch_cases [of save env cmd s x])
  case (save f)
  then show ?thesis
    using assms(1,2) cmd_save_store [of f "cmd_args cmd" s x] by (auto simp: save_ok_def)
next
  case (handler h)
  then show ?thesis
    using assms(4) unlogged_handler [OF _ handler(1) assms(1,3)] error_handler [OF handler(1) _ assms(1,3)]
    by auto
qed simp

subsection \<open>What is logged is accepted by the replay\<close>

lemma to_upper_ascii: "is_ascii s \<Longrightarrow> map ascii_upper s = s \<Longrightarrow> to_upper uc s = s"
  by (simp add: to_upper_def)

lemma to_upper_names [simp]:
  "to_upper uc ''SET'' = ''SET''" "to_upper uc ''DEL'' = ''DEL''" "to_upper uc ''PXAT'' = ''PXAT''"
  "to_upper uc ''PEXPIREAT'' = ''PEXPIREAT''" "to_upper uc ''PERSIST'' = ''PERSIST''"
  "to_upper uc ''LPUSH'' = ''LPUSH''" "to_upper uc ''RPUSH'' = ''RPUSH''"
  "to_upper uc ''LPOP'' = ''LPOP''" "to_upper uc ''RPOP'' = ''RPOP''"
  "to_upper uc ''HSET'' = ''HSET''" "to_upper uc ''HDEL'' = ''HDEL''"
  "to_upper uc ''SADD'' = ''SADD''" "to_upper uc ''SREM'' = ''SREM''"
  "to_upper uc ''INCR'' = ''INCR''" "to_upper uc ''DECR'' = ''DECR''"
  "to_upper uc ''INCRBY'' = ''INCRBY''" "to_upper uc ''DECRBY'' = ''DECRBY''"
  "to_upper uc ''MSET'' = ''MSET''" "to_upper uc ''SETNX'' = ''SETNX''"
  "to_upper uc ''FLUSHALL'' = ''FLUSHALL''"
  by (simp_all add: to_upper_def is_ascii_def ascii_upper_def)

lemma in_i64_unix_milli [simp]: "in_i64 (unix_milli t)"
  by (simp add: unix_milli_def)

lemma set_expiry_millis_range: "set_expiry_millis uc now opts = Some at \<Longrightarrow> in_i64 at"
  by (auto simp: set_expiry_millis_def Let_def dest: parse_int_range
      split: list.splits option.splits if_splits)

text \<open>The two commands that are rewritten, and the rest, logged as they are.\<close>

definition rewritten :: "(bytes \<Rightarrow> bytes) \<Rightarrow> command \<Rightarrow> bool" where
  "rewritten uc cmd \<longleftrightarrow>
     (let name = to_upper uc (cmd_name cmd)
      in name = ''EXPIRE'' \<or> name = ''SET'' \<and> length (cmd_args cmd) \<noteq> 2)"

lemma aof_command_rewritten:
  assumes "aof_command uc now cmd = Some (lc, True)" and "rewritten uc cmd"
  obtains (set) a b at where "in_i64 at"
      "lc = \<lparr>cmd_name = ''SET'', cmd_args = [a, b, ''PXAT'', format_int at]\<rparr>"
  | (expire) a at where "in_i64 at"
      "lc = \<lparr>cmd_name = ''PEXPIREAT'', cmd_args = [a, format_int at]\<rparr>"
proof (cases "to_upper uc (cmd_name cmd) = ''EXPIRE''")
  case True
  then obtain secs where "lc = \<lparr>cmd_name = ''PEXPIREAT'',
      cmd_args = [cmd_args cmd ! 0, format_int (unix_milli (time_add now (seconds secs)))]\<rparr>"
    using assms(1) by (auto simp: aof_command_eqs Let_def split: if_splits option.splits)
  with in_i64_unix_milli show thesis by (rule expire)
next
  case False
  then have "to_upper uc (cmd_name cmd) = ''SET''" "length (cmd_args cmd) \<noteq> 2"
    using assms(2) by (simp_all add: rewritten_def Let_def)
  then obtain at where at: "set_expiry_millis uc now (drop 2 (cmd_args cmd)) = Some at"
    and lc: "lc = \<lparr>cmd_name = ''SET'', cmd_args = [cmd_args cmd ! 0, cmd_args cmd ! 1, ''PXAT'', format_int at]\<rparr>"
    using assms(1) by (auto simp: aof_command_eqs Let_def split: if_splits option.splits)
  from set_expiry_millis_range [OF at] lc show thesis by (rule set)
qed

lemma aof_command_plain:
  assumes "aof_command uc now cmd = Some (lc, True)" and "\<not> rewritten uc cmd"
  shows "lc = normalized_command (to_upper uc (cmd_name cmd)) (cmd_args cmd)"
    and "to_upper uc (to_upper uc (cmd_name cmd)) = to_upper uc (cmd_name cmd)"
proof -
  let ?name = "to_upper uc (cmd_name cmd)"
  have n: "?name \<noteq> ''EXPIRE''" "?name = ''SET'' \<longrightarrow> length (cmd_args cmd) = 2"
    using assms(2) by (simp_all add: rewritten_def Let_def)
  show "lc = normalized_command ?name (cmd_args cmd)"
    using assms(1) n unfolding aof_command_eqs Let_def
    by (auto split: if_split_asm option.split_asm)
  show "to_upper uc ?name = ?name"
    using assms(1) n unfolding aof_command_eqs Let_def
    by (auto split: if_split_asm option.split_asm)
qed

lemma aof_command_clock:
  assumes "\<not> rewritten uc cmd"
  shows "aof_command uc now' cmd = aof_command uc now cmd"
  using assms by (auto simp: aof_command_eqs rewritten_def Let_def)

lemma aof_command_cong:
  "to_upper uc (cmd_name c) = to_upper uc (cmd_name d) \<Longrightarrow> cmd_args c = cmd_args d \<Longrightarrow>
   aof_command uc now c = aof_command uc now d"
  by (simp only: aof_command_eqs)

lemma aof_command_again:
  assumes "aof_command uc now cmd = Some (lc, True)"
  shows "aof_command uc now' lc = Some (lc, True)"
proof (cases "rewritten uc cmd")
  case True
  with assms show ?thesis
  proof (cases rule: aof_command_rewritten)
    case (set a b at)
    then show ?thesis by (simp add: aof_command_eqs set_expiry_millis_def)
  next
    case (expire a at)
    then show ?thesis by (simp add: aof_command_eqs normalized_command_def)
  qed
next
  case False
  note lc = aof_command_plain [OF assms False]
  then have "aof_command uc now' lc = aof_command uc now' cmd"
    by (intro aof_command_cong) (simp_all add: normalized_command_def)
  also have "\<dots> = aof_command uc now cmd" using False by (rule aof_command_clock)
  finally show ?thesis using assms by simp
qed

end
