(* ===== verification/Server_Replay.thy ===== *)
theory Server_Replay
  imports Server_Aof
begin

section \<open>Replaying the append-only file\<close>

text \<open>
  What the append-only file is for: the commands the server logged, replayed by
  \<open>replayAOFCommand\<close> over an empty store when the process starts again, rebuild the store.
  The theorem is for commands that set no deadline (\<open>plain_step\<close>): then the clock plays no
  part, the log is applied in other environments, and the stored map is the same. With
  deadlines it is not, because a key may have expired by the time of the replay.
\<close>

subsection \<open>One logged command\<close>

lemma logged_handlers:
  assumes "aof_command uc now cmd = Some (lc, True)" and "\<not> rewritten uc cmd"
    and "to_upper uc (cmd_name cmd) \<noteq> ''PEXPIREAT''"
  shows "\<forall>p \<in> set handlers. to_upper uc (cmd_name cmd) = fst p \<longrightarrow>
    (\<exists>g. pure_cmd (snd p) g \<and> g (cmd_args cmd))"
  apply (simp add: handlers_def)
  apply (intro conjI impI)
  using assms
  by (auto simp add: aof_command_eqs Let_def rewritten_def
      split: option.splits if_splits
      intro: set_cmd.pure_cmd_axioms del_cmd.pure_cmd_axioms persist_cmd.pure_cmd_axioms
        lpush_cmd.pure_cmd_axioms rpush_cmd.pure_cmd_axioms lpop_cmd.pure_cmd_axioms
        rpop_cmd.pure_cmd_axioms hset_cmd.pure_cmd_axioms hdel_cmd.pure_cmd_axioms
        sadd_cmd.pure_cmd_axioms srem_cmd.pure_cmd_axioms incr_cmd.pure_cmd_axioms
        decr_cmd.pure_cmd_axioms incrby_cmd.pure_cmd_axioms decrby_cmd.pure_cmd_axioms
        mset_cmd.pure_cmd_axioms setnx_cmd.pure_cmd_axioms flushall_cmd.pure_cmd_axioms)

lemma logged_name:
  assumes "aof_command uc now cmd = Some (lc, True)"
  shows "map_of handlers (to_upper uc (cmd_name cmd)) \<noteq> None"
    and "to_upper uc (cmd_name cmd) \<noteq> ''SAVE''"
  using assms unfolding aof_command_eqs Let_def
  by (auto simp: handlers_def split: if_split_asm option.split_asm)

lemma logged_handler:
  assumes "aof_command uc now cmd = Some (lc, True)" and "\<not> rewritten uc cmd"
    and "to_upper uc (cmd_name cmd) \<noteq> ''PEXPIREAT''"
  obtains h g where "map_of handlers (to_upper uc (cmd_name cmd)) = Some h"
    and "pure_cmd h g" and "g (cmd_args cmd)"
proof -
  obtain h where h: "map_of handlers (to_upper uc (cmd_name cmd)) = Some h"
    using logged_name(1) [OF assms(1)] by blast
  from logged_handlers [OF assms] map_of_SomeD [OF h] that [OF h] show thesis by fastforce
qed

lemma dispatch_handler:
  "map_of handlers (to_upper (upper env) (cmd_name cmd)) = Some h \<Longrightarrow>
   to_upper (upper env) (cmd_name cmd) \<noteq> ''SAVE'' \<Longrightarrow>
   dispatch_result save env cmd s x = (fst (run h env (cmd_args cmd) s), x, snd (run h env (cmd_args cmd) s))"
  by (simp add: dispatch_result_eq Let_def case_prod_unfold)

lemma faded_no_deadlines:
  assumes "faded t s s'" and "no_deadlines s"
  shows "lookup s' = lookup s"
proof
  fix k
  have "live_at t (lookup s k) = lookup s k" using assms(2) by simp
  then show "lookup s' k = lookup s k" using assms(1) by (auto simp: faded_def dest!: spec [of _ k])
qed

text \<open>
  Executing a logged command on one store and replaying what was logged on another with the
  same contents gives stores with the same contents.
\<close>

lemma replay_one:
  assumes "aof_command (upper env) now cmd = Some (lc, True)" and "\<not> rewritten (upper env) cmd"
    and "to_upper (upper env) (cmd_name cmd) \<noteq> ''PEXPIREAT''"
    and "upper env' = upper env"
    and "wf_store s" "wf_store r" "no_deadlines s" "lookup r = lookup s"
  shows "snd (replay_aof_command env' now' lc r) = None"
    and "wf_store (fst (replay_aof_command env' now' lc r))"
    and "lookup (fst (replay_aof_command env' now' lc r)) = lookup (fst (dispatch_result save env cmd s x))"
    and "no_deadlines (fst (dispatch_result save env cmd s x))"
proof -
  obtain h g where h: "map_of handlers (to_upper (upper env) (cmd_name cmd)) = Some h"
    and g: "pure_cmd h g" "g (cmd_args cmd)"
    using logged_handler [OF assms(1-3)] .
  note lc = aof_command_plain [OF assms(1,2)]
  have nr: "no_deadlines r" using no_deadlines_cong assms(7,8) by blast
  have name: "to_upper (upper env') (cmd_name lc) = to_upper (upper env) (cmd_name cmd)"
    "cmd_args lc = cmd_args cmd"
    using lc assms(4) by (simp_all add: normalized_command_def)
  have "dispatch_result None env' lc r () = (fst (run h env' (cmd_args cmd) r), (), snd (run h env' (cmd_args cmd) r))"
    using h logged_name(2) [OF assms(1)] by (simp add: dispatch_handler name)
  then have r: "replay_aof_command env' now' lc r = (fst (run h env' (cmd_args cmd) r), None)"
    using aof_command_again [OF assms(1), of now'] assms(4)
    by (simp add: replay_aof_command_eq)
  have s: "fst (dispatch_result save env cmd s x) = fst (run h env (cmd_args cmd) s)"
    using h logged_name(2) [OF assms(1)] by (simp add: dispatch_handler)
  show "snd (replay_aof_command env' now' lc r) = None" by (simp add: r)
  show "wf_store (fst (replay_aof_command env' now' lc r))"
    using store_cmd.keeps_wf [OF handler_store_cmd [OF h] assms(6)] by (simp add: r)
  show "lookup (fst (replay_aof_command env' now' lc r)) = lookup (fst (dispatch_result save env cmd s x))"
    using pure_cmd.pure_effect [OF g(1) assms(5,6,7) nr assms(8) g(2)] by (simp add: r s)
  show "no_deadlines (fst (dispatch_result save env cmd s x))"
    using pure_cmd.pure_zero [OF g(1) assms(5,7) g(2)] by (simp add: s)
qed

subsection \<open>A run of the server\<close>

text \<open>The commands of all the clients, in the order in which they take the mutex.\<close>

fun run_commands :: "(senv \<times> command) list \<Rightarrow> server \<Rightarrow> server option" where
  "run_commands [] sv = Some sv"
| "run_commands ((e, cmd) # steps) sv =
     (case dispatch_with_aof e cmd sv of None \<Rightarrow> None | Some (sv, _) \<Rightarrow> run_commands steps sv)"

text \<open>
  A step without a deadline: the file takes the record, the command came through the parser
  (so it respects its limits), and it is not \<open>EXPIRE\<close>, \<open>PEXPIREAT\<close> or a \<open>SET\<close> with
  options.
\<close>

definition plain_step :: "(bytes \<Rightarrow> bytes) \<Rightarrow> senv \<times> command \<Rightarrow> bool" where
  "plain_step uc p \<longleftrightarrow>
     (case p of (e, cmd) \<Rightarrow>
        upper (cmd_env e) = uc \<and> append_write e = None \<and> append_sync e = None \<and>
        parts_ok (to_upper uc (cmd_name cmd) # cmd_args cmd) \<and>
        \<not> rewritten uc cmd \<and> to_upper uc (cmd_name cmd) \<noteq> ''PEXPIREAT'' \<and>
        (\<exists>t. \<forall>i. clock (cmd_env e) i \<le> t \<and> memory_clock e i \<le> t))"

text \<open>Each replayed command has its own environment and clock: \<open>envs i\<close> for the \<open>i\<close>-th.\<close>

definition replay_step ::
  "(nat \<Rightarrow> env) \<Rightarrow> (nat \<Rightarrow> time) \<Rightarrow> command \<Rightarrow> store \<times> nat \<Rightarrow> (store \<times> nat) \<times> bytes option" where
  "replay_step envs nows cmd st =
     (let (s, err) = replay_aof_command (envs (snd st)) (nows (snd st)) cmd (fst st)
      in ((s, Suc (snd st)), err))"

definition replays_to ::
  "(bytes \<Rightarrow> bytes) \<Rightarrow> (nat \<Rightarrow> env) \<Rightarrow> (nat \<Rightarrow> time) \<Rightarrow> command list \<Rightarrow> store \<Rightarrow> store \<Rightarrow> bool" where
  "replays_to uc envs nows log s0 s \<longleftrightarrow>
     (\<exists>r. apply_all (replay_step envs nows) log (s0, 0) = ((r, length log), None) \<and>
          wf_store r \<and> lookup r = lookup s)"

lemma apply_all_snoc:
  "apply_all appl cmds st = (st', None) \<Longrightarrow>
   apply_all appl (cmds @ [c]) st
   = (case appl c st' of (st, Some e) \<Rightarrow> (st, Some (ReplayApply e)) | (st, None) \<Rightarrow> (st, None))"
  by (induction appl cmds st rule: apply_all.induct)
     (auto split: prod.splits option.splits)

text \<open>The invariant of a run.\<close>

definition log_invariant ::
  "(bytes \<Rightarrow> bytes) \<Rightarrow> (nat \<Rightarrow> env) \<Rightarrow> (nat \<Rightarrow> time) \<Rightarrow> store \<Rightarrow> command list \<Rightarrow> server \<Rightarrow> bool" where
  "log_invariant uc envs nows s0 log sv \<longleftrightarrow>
     wf_store (sstore sv) \<and> no_deadlines (sstore sv) \<and> opt_snapshot_path (sopts sv) = [] \<and>
     list_all (command_ok uc) log \<and>
     (\<exists>a. saof sv = Some a \<and> aof_bytes a = encode_commands uc log) \<and>
     replays_to uc envs nows log s0 (sstore sv)"

lemma entry_memory_store:
  assumes "wf_store s" and "now \<le> t"
  shows "wf_store (fst (store_entry_memory k now s)) \<and> faded t s (fst (store_entry_memory k now s))"
  using assms by (simp add: store_defs store_wf store_read_only)

lemma mset_growth_store:
  "wf_store s \<Longrightarrow> (\<And>i. clk i \<le> t) \<Longrightarrow>
   wf_store (fst (mset_growth clk i args g s)) \<and> faded t s (fst (mset_growth clk i args g s))"
proof (induction clk i args g s rule: mset_growth.induct)
  case (1 clk i k v rest g s)
  let ?r = "store_entry_memory k (clk i) s"
  have r: "wf_store (fst ?r)" "faded t s (fst ?r)" using entry_memory_store 1(2,3) by blast+
  have "wf_store (fst (mset_growth clk (Suc i) rest (g - snd ?r) (fst ?r))) \<and>
      faded t (fst ?r) (fst (mset_growth clk (Suc i) rest (g - snd ?r) (fst ?r)))"
    using 1(3) by (intro 1(1) [OF refl prod.collapse r(1)])
  then show ?case
    using faded_trans [OF r(2)] by (auto simp: Let_def case_prod_unfold)
qed simp_all

lemma memory_limit_store:
  assumes "wf_store s" and "\<And>i. clk i \<le> t"
  shows "wf_store (fst (memory_limit_exceeded_result uc clk m cmd s))"
    and "faded t s (fst (memory_limit_exceeded_result uc clk m cmd s))"
  using assms(1) mset_growth_store [of s clk t 0 "cmd_args cmd" "command_growth_result uc cmd"]
    entry_memory_store [of s "clk 0" t "cmd_args cmd ! 0"] assms
  by (simp_all add: memory_limit_exceeded_result_eq estimated_growth_result_eq Let_def case_prod_unfold)

lemma server_dispatch_plain:
  assumes "opt_snapshot_path (sopts sv) = []"
  shows "server_dispatch_result e cmd sv
    = (sv\<lparr>sstore := fst (dispatch_result None (cmd_env e) cmd (sstore sv) sv)\<rparr>,
       snd (snd (dispatch_result None (cmd_env e) cmd (sstore sv) sv)))"
proof -
  have "fst (snd (dispatch_result None (cmd_env e) cmd (sstore sv) sv)) = sv"
    by (cases rule: dispatch_cases [of "None :: server save_func option" "cmd_env e" cmd "sstore sv" sv])
       simp_all
  then show ?thesis
    using assms by (simp add: server_dispatch_result_def save_func_def case_prod_unfold Let_def)
qed

text \<open>Replacing the store by one with the same contents keeps the invariant.\<close>

lemma log_invariant_store:
  assumes "log_invariant uc envs nows s0 log sv" and "wf_store s" and "faded t (sstore sv) s"
  shows "log_invariant uc envs nows s0 log (sv\<lparr>sstore := s\<rparr>)"
proof -
  have "lookup s = lookup (sstore sv)"
    using assms(1,3) by (intro faded_no_deadlines) (simp_all add: log_invariant_def)
  then show ?thesis
    using assms(1,2) no_deadlines_cong [of s "sstore sv"]
    by (simp add: log_invariant_def replays_to_def)
qed

lemma log_invariant_metrics:
  "log_invariant uc envs nows s0 log sv \<Longrightarrow> log_invariant uc envs nows s0 log (on_metrics f sv)"
  by (simp add: log_invariant_def)

lemma log_step_refused:
  assumes inv: "log_invariant uc envs nows s0 log sv" and plain: "plain_step uc (e, cmd)"
    and err: "snd (snd (dispatch_result None (cmd_env e) cmd (sstore sv) sv)) = ErrorReply msg"
  shows "log_invariant uc envs nows s0 log (fst (locked_result e cmd lc sv))"
proof -
  let ?s = "fst (dispatch_result None (cmd_env e) cmd (sstore sv) sv)"
  have sv: "wf_store (sstore sv)" "opt_snapshot_path (sopts sv) = []"
    using inv by (simp_all add: log_invariant_def)
  obtain t where t: "\<And>i. clock (cmd_env e) i \<le> t" using plain by (auto simp: plain_step_def)
  have "faded t (sstore sv) ?s"
    using err by (intro dispatch_faded [OF sv(1) save_ok_None t] disjI2) blast
  from log_invariant_store [OF inv wf_store_dispatch [OF sv(1) save_ok_None] this] err show ?thesis
    by (simp add: locked_result_eq server_dispatch_plain [OF sv(2)] is_error_reply_def)
qed

lemma log_step_appended:
  assumes inv: "log_invariant uc envs nows s0 log sv"
    and plain: "plain_step uc (e, cmd)" and uc: "\<And>i. upper (envs i) = uc"
    and lc: "aof_command uc (log_clock e) cmd = Some (lc, True)"
    and ok: "\<nexists>msg. snd (snd (dispatch_result None (cmd_env e) cmd (sstore sv) sv)) = ErrorReply msg"
  shows "\<exists>log'. log_invariant uc envs nows s0 log' (fst (locked_result e cmd lc sv))"
proof -
  let ?d = "dispatch_result None (cmd_env e) cmd (sstore sv) sv"
  obtain a r where a: "saof sv = Some a" "aof_bytes a = encode_commands uc log"
    and r: "apply_all (replay_step envs nows) log (s0, 0) = ((r, length log), None)"
      "wf_store r" "lookup r = lookup (sstore sv)"
    and s: "wf_store (sstore sv)" "no_deadlines (sstore sv)" "opt_snapshot_path (sopts sv) = []"
      "list_all (command_ok uc) log"
    using inv by (auto simp: log_invariant_def replays_to_def)
  have up: "upper (cmd_env e) = uc"
    and os: "append_write e = None" "append_sync e = None"
    and pl: "\<not> rewritten uc cmd" "to_upper uc (cmd_name cmd) \<noteq> ''PEXPIREAT''"
    and parts: "parts_ok (to_upper uc (cmd_name cmd) # cmd_args cmd)"
    using plain by (auto simp: plain_step_def)
  have wf: "wf_store (fst ?d)" using wf_store_dispatch [OF s(1) save_ok_None] .
  have "snd (aof_append uc lc (append_since e) (append_now e) None None a) = None"
    by (auto simp: aof_append_def file_write_def file_sync_def Let_def split: fsync_policy.split)
  then obtain a' where ap: "aof_append uc lc (append_since e) (append_now e) None None a = (a', None)"
    by (metis prod.collapse)
  have "\<not> is_error_reply (Some (snd (snd ?d)))"
    using assms(5) by (auto simp: is_error_reply_def split: reply.splits)
  then have res: "fst (locked_result e cmd lc sv) = sv\<lparr>sstore := fst ?d, saof := Some a'\<rparr>"
    using a ap os up by (simp add: locked_result_eq server_dispatch_plain [OF s(3)])
  note one = replay_one [of "cmd_env e" "log_clock e" cmd lc "envs (length log)" "sstore sv" r,
      unfolded up uc, OF lc pl refl s(1) r(2) s(2) r(3)]
  note lcp = aof_command_plain [OF lc pl(1)]
  have "command_ok uc lc"
    using parts lcp by (simp add: command_ok_def command_parts_def normalized_command_def)
  moreover have "aof_bytes a' = encode_commands uc (log @ [lc])"
    using a(2) aof_append_bytes [of uc lc "append_since e" "append_now e" None None a]
    by (simp add: ap encode_commands_def)
  moreover have "replays_to uc envs nows (log @ [lc]) s0 (fst ?d)"
    unfolding replays_to_def apply_all_snoc [OF r(1)]
    using one(1-3) by (auto simp: replay_step_def case_prod_unfold Let_def)
  ultimately have "log_invariant uc envs nows s0 (log @ [lc]) (sv\<lparr>sstore := fst ?d, saof := Some a'\<rparr>)"
    using wf one(4) s by (simp add: log_invariant_def)
  then show ?thesis unfolding res by blast
qed

lemma log_step_locked:
  assumes "log_invariant uc envs nows s0 log sv"
    and "plain_step uc (e, cmd)" and "\<And>i. upper (envs i) = uc"
    and "aof_command uc (log_clock e) cmd = Some (lc, True)"
  shows "\<exists>log'. log_invariant uc envs nows s0 log' (fst (locked_result e cmd lc sv))"
  using log_step_refused [OF assms(1,2)] log_step_appended [OF assms] by blast

lemma log_step:
  assumes inv: "log_invariant uc envs nows s0 log sv"
    and plain: "plain_step uc (e, cmd)" and uc: "\<And>i. upper (envs i) = uc"
    and step: "dispatch_with_aof e cmd sv = Some (sv', r)"
  shows "\<exists>log'. log_invariant uc envs nows s0 log' sv'"
proof -
  have up: "upper (cmd_env e) = uc" using plain by (simp add: plain_step_def)
  obtain t where t: "\<And>i. clock (cmd_env e) i \<le> t" "\<And>i. memory_clock e i \<le> t"
    using plain by (auto simp: plain_step_def)
  have s: "wf_store (sstore sv)" "opt_snapshot_path (sopts sv) = []" "saof sv \<noteq> None"
    using inv by (auto simp: log_invariant_def)
  obtain lc ok where lc: "aof_command uc (log_clock e) cmd = Some (lc, ok)"
    using step up by (auto simp: dispatch_with_aof_eq split: option.splits prod.splits)
  show ?thesis
  proof (cases ok)
    case False
    then have "faded t (sstore sv) (fst (dispatch_result None (cmd_env e) cmd (sstore sv) sv))"
      using lc up by (intro dispatch_faded [OF s(1) save_ok_None t(1)] disjI1) auto
    from log_invariant_store [OF inv wf_store_dispatch [OF s(1) save_ok_None] this]
    show ?thesis
      using False step lc up by (auto simp: dispatch_with_aof_eq server_dispatch_plain [OF s(2)])
  next
    case True
    let ?m = "memory_limit_exceeded_result uc (memory_clock e) (opt_max_memory_bytes (sopts sv)) lc (sstore sv)"
    have m: "log_invariant uc envs nows s0 log (sv\<lparr>sstore := fst ?m\<rparr>)"
      using log_invariant_store [OF inv]
        memory_limit_store [of "sstore sv" "memory_clock e" t, OF s(1) t(2)] by blast
    show ?thesis
    proof (cases "opt_max_memory_bytes (sopts sv) > 0")
      case True
      then show ?thesis
        using step lc up \<open>ok\<close> m log_step_locked [OF m plain uc] log_invariant_metrics [OF m]
        by (cases "snd ?m")
          (auto simp: dispatch_with_aof_eq record_oom_rejected_write_def case_prod_unfold Let_def
            split: if_splits)
    next
      case False
      then show ?thesis
        using step lc up \<open>ok\<close> s(3) log_step_locked [OF inv plain uc]
        by (auto simp: dispatch_with_aof_eq split: if_splits)
    qed
  qed
qed

lemma log_run:
  assumes "log_invariant uc envs nows s0 log sv" and "list_all (plain_step uc) steps"
    and "\<And>i. upper (envs i) = uc" and "run_commands steps sv = Some sv'"
  shows "\<exists>log'. log_invariant uc envs nows s0 log' sv'"
  using assms(1,2,4)
proof (induction steps sv arbitrary: log rule: run_commands.induct)
  case (1 sv)
  then show ?case by auto
next
  case (2 e cmd steps sv)
  then obtain sv1 r where d: "dispatch_with_aof e cmd sv = Some (sv1, r)"
    by (auto split: option.splits)
  obtain log1 where "log_invariant uc envs nows s0 log1 sv1"
    using log_step [OF 2(2) _ assms(3) d] 2(3) by auto
  then show ?case using 2(1) [OF d refl] 2(3,4) d by auto
qed

end
