(* ===== verification/Server_Auth.thy ===== *)
theory Server_Auth
  imports Server_State
begin

section \<open>Authentication\<close>

text \<open>
  Models \<open>internal/server/auth.go\<close>. The limiter counts failures per remote address (the
  text of the socket address, so host and port) and blocks one for 30 seconds after five. The
  comparison in constant time is equality. \<open>AUTH\<close> reads the clock twice: \<open>auth_clock e 0\<close>
  in \<open>check\<close> and \<open>auth_clock e 1\<close> in \<open>recordFailure\<close>.
\<close>

definition max_auth_attempts :: int where
  "max_auth_attempts = 5"

definition auth_block_duration :: duration where
  "auth_block_duration = 30 * 1000000000"

definition auth_check :: "time \<Rightarrow> bytes \<Rightarrow> auth_limiter \<Rightarrow> auth_limiter \<times> bool" where
  "auth_check now remote al =
     (case map_of (blocked al) remote of
        None \<Rightarrow> (al, True)
      | Some until \<Rightarrow>
          if now < until then (al, False)
          else (al\<lparr>blocked := AList.delete remote (blocked al),
                   failures := AList.delete remote (failures al)\<rparr>, True))"

definition failure_count :: "auth_limiter \<Rightarrow> bytes \<Rightarrow> int" where
  "failure_count al remote = (case map_of (failures al) remote of None \<Rightarrow> 0 | Some n \<Rightarrow> n)"

definition record_failure :: "time \<Rightarrow> bytes \<Rightarrow> auth_limiter \<Rightarrow> auth_limiter" where
  "record_failure now remote al =
     (let n = failure_count al remote + 1;
          al = al\<lparr>failures := AList.update remote n (failures al)\<rparr>
      in if n \<ge> max_auth_attempts
         then al\<lparr>blocked := AList.update remote (time_add now auth_block_duration) (blocked al)\<rparr>
         else al)"

definition record_success :: "bytes \<Rightarrow> auth_limiter \<Rightarrow> auth_limiter" where
  "record_success remote al =
     al\<lparr>failures := AList.delete remote (failures al), blocked := AList.delete remote (blocked al)\<rparr>"

definition cmd_auth ::
  "senv \<Rightarrow> client \<Rightarrow> bytes list \<Rightarrow> server \<Rightarrow> (server \<times> client \<times> reply) option" where
  "cmd_auth e c args sv =
     (let pw = opt_auth_password (sopts sv); remote = remote_addr c
      in if pw = [] then Some (sv, c, ErrorReply ''ERR AUTH not required'')
         else if length args \<noteq> 1
         then Some (sv, c, ErrorReply ''ERR AUTH requires exactly one argument'')
         else let (al, ok) = auth_check (auth_clock e 0) remote (slimit sv)
         in if \<not> ok
            then Some (sv\<lparr>slimit := al\<rparr>, c,
                       ErrorReply ''ERR too many AUTH failures, try again later'')
            else do {
              guess \<leftarrow> arg_at args 0;
              Some
                (if guess \<noteq> pw
                 then (sv\<lparr>slimit := record_failure (auth_clock e 1) remote al\<rparr>, c,
                       ErrorReply ''ERR invalid password'')
                 else (sv\<lparr>slimit := record_success remote al\<rparr>, c\<lparr>authed := True\<rparr>, StatusReply ''OK''))
            })"

text \<open>What it returns: it never reads an argument that is not there.\<close>

definition cmd_auth_result :: "senv \<Rightarrow> client \<Rightarrow> bytes list \<Rightarrow> server \<Rightarrow> server \<times> client \<times> reply" where
  "cmd_auth_result e c args sv = the (cmd_auth e c args sv)"

lemma cmd_auth_some: "cmd_auth e c args sv = Some (cmd_auth_result e c args sv)"
  by (simp add: cmd_auth_result_def cmd_auth_def Let_def case_prod_unfold)

lemmas cmd_auth_eqs = cmd_auth_result_def cmd_auth_def

definition auth_required :: "client \<Rightarrow> server \<Rightarrow> bool" where
  "auth_required c sv \<longleftrightarrow> opt_auth_password (sopts sv) \<noteq> [] \<and> \<not> authed c"

subsection \<open>The limiter\<close>

text \<open>The invariant: a remote is blocked exactly when it has reached the limit.\<close>

definition limiter_ok :: "auth_limiter \<Rightarrow> bool" where
  "limiter_ok al \<longleftrightarrow>
     (\<forall>r. 0 \<le> failure_count al r \<and>
        (map_of (blocked al) r \<noteq> None \<longleftrightarrow> failure_count al r \<ge> max_auth_attempts))"

lemma limiter_ok_new [simp]: "limiter_ok new_auth_limiter"
  by (simp add: limiter_ok_def new_auth_limiter_def failure_count_def max_auth_attempts_def)

lemma failure_count_simps [simp]:
  "failure_count (al\<lparr>blocked := b\<rparr>) r = failure_count al r"
  "failure_count (al\<lparr>failures := AList.update k n (failures al)\<rparr>) r
   = (if r = k then n else failure_count al r)"
  "failure_count (al\<lparr>failures := AList.delete k (failures al)\<rparr>) r
   = (if r = k then 0 else failure_count al r)"
  by (simp_all add: failure_count_def)

lemma limiter_ok_check: "limiter_ok al \<Longrightarrow> limiter_ok (fst (auth_check now remote al))"
  by (auto simp: limiter_ok_def auth_check_def max_auth_attempts_def failure_count_def
      split: option.splits if_splits)

lemma limiter_ok_failure: "limiter_ok al \<Longrightarrow> limiter_ok (record_failure now remote al)"
  by (auto simp: limiter_ok_def record_failure_def Let_def max_auth_attempts_def)

lemma limiter_ok_success: "limiter_ok al \<Longrightarrow> limiter_ok (record_success remote al)"
  by (auto simp: limiter_ok_def record_success_def failure_count_def max_auth_attempts_def)

lemma limiter_ok_auth:
  "limiter_ok (slimit sv) \<Longrightarrow> limiter_ok (slimit (fst (cmd_auth_result e c args sv)))"
  using limiter_ok_check [of "slimit sv" "auth_clock e 0" "remote_addr c"]
  by (auto simp: cmd_auth_eqs Let_def case_prod_unfold limiter_ok_failure limiter_ok_success)

text \<open>Only the right password authenticates.\<close>

lemma cmd_auth_authed:
  "authed (fst (snd (cmd_auth_result e c args sv))) \<longleftrightarrow>
     authed c \<or>
     opt_auth_password (sopts sv) \<noteq> [] \<and> args = [opt_auth_password (sopts sv)] \<and>
     snd (auth_check (auth_clock e 0) (remote_addr c) (slimit sv))"
  by (cases args; cases "tl args") (auto simp: cmd_auth_eqs Let_def case_prod_unfold)

subsection \<open>Guessing\<close>

definition invalid_password :: reply where
  "invalid_password = ErrorReply ''ERR invalid password''"

text \<open>
  How many wrong passwords of the address \<open>a\<close> can still be compared before \<open>stop\<close>, when no right
  one comes: none while it is blocked until then, and all five again when a block ends before.
\<close>

definition guesses_left :: "time \<Rightarrow> bytes \<Rightarrow> auth_limiter \<Rightarrow> int" where
  "guesses_left stop a al =
     (case map_of (blocked al) a of
        None \<Rightarrow> max_auth_attempts - failure_count al a
      | Some until \<Rightarrow> if until < stop then max_auth_attempts else 0)"

lemma guesses_left_bounds:
  assumes "limiter_ok al"
  shows "0 \<le> guesses_left stop a al \<and> guesses_left stop a al \<le> 5"
proof -
  have "0 \<le> failure_count al a" "map_of (blocked al) a = None \<Longrightarrow> failure_count al a < max_auth_attempts"
    using assms by (simp_all add: limiter_ok_def) (metis not_le option.distinct(1))
  then show ?thesis by (auto simp: guesses_left_def max_auth_attempts_def split: option.split)
qed

lemma guesses_left_other [simp]:
  "a \<noteq> r \<Longrightarrow> guesses_left stop a (fst (auth_check now r al)) = guesses_left stop a al"
  "a \<noteq> r \<Longrightarrow> guesses_left stop a (record_failure now r al) = guesses_left stop a al"
  "a \<noteq> r \<Longrightarrow> guesses_left stop a (record_success r al) = guesses_left stop a al"
  by (simp_all add: guesses_left_def auth_check_def record_failure_def record_success_def Let_def
      failure_count_def split: option.split)

lemma guesses_left_check:
  assumes "limiter_ok al" and "now < stop" and "snd (auth_check now a al)"
  shows "guesses_left stop a (fst (auth_check now a al)) = guesses_left stop a al"
    and "map_of (blocked (fst (auth_check now a al))) a = None"
  using assms
  by (auto simp: guesses_left_def auth_check_def failure_count_def not_less split: option.splits if_splits)

lemma guesses_left_failure:
  assumes "limiter_ok al" and "map_of (blocked al) a = None" and "stop \<le> now + auth_block_duration"
  shows "guesses_left stop a (record_failure now a al) = guesses_left stop a al - 1"
proof -
  have "failure_count al a < max_auth_attempts" using assms(1,2) by (force simp: limiter_ok_def not_le)
  then show ?thesis
    using assms(2,3) by (auto simp: guesses_left_def record_failure_def Let_def time_add_def failure_count_def)
qed

lemma guesses_left_success: "guesses_left stop a (record_success a al) = 5"
  by (simp add: guesses_left_def record_success_def max_auth_attempts_def failure_count_def)

text \<open>One \<open>AUTH\<close> of any client: a wrong guess costs one, a right one gives all five back.\<close>

definition counts :: "bytes \<Rightarrow> client \<Rightarrow> reply \<Rightarrow> reply \<Rightarrow> nat" where
  "counts a c r answer = (if remote_addr c = a \<and> r = answer then 1 else 0)"

lemma cmd_auth_guesses:
  assumes "limiter_ok (slimit sv)"
    and "start \<le> auth_clock e 1" and "auth_clock e 0 < start + auth_block_duration"
    and "cmd_auth_result e c args sv = (sv', c', r)"
  shows "guesses_left (start + auth_block_duration) a (slimit sv') + int (counts a c r invalid_password)
    \<le> guesses_left (start + auth_block_duration) a (slimit sv) + 5 * int (counts a c r (StatusReply ''OK''))"
proof (cases "remote_addr c = a")
  case False
  then show ?thesis
    using assms(4) by (auto simp: cmd_auth_eqs counts_def Let_def case_prod_unfold split: if_splits)
next
  case True
  let ?stop = "start + auth_block_duration"
  let ?al = "fst (auth_check (auth_clock e 0) a (slimit sv))"
  have refused: "?al = slimit sv" if "\<not> snd (auth_check (auth_clock e 0) a (slimit sv))"
    using that by (auto simp: auth_check_def split: option.splits if_splits)
  have passed: "guesses_left ?stop a ?al = guesses_left ?stop a (slimit sv)"
    "guesses_left ?stop a (record_failure (auth_clock e 1) a ?al) = guesses_left ?stop a (slimit sv) - 1"
    if "snd (auth_check (auth_clock e 0) a (slimit sv))"
    using guesses_left_check [OF assms(1,3) that]
      guesses_left_failure [OF limiter_ok_check [OF assms(1)], of "auth_clock e 0" a a ?stop "auth_clock e 1"]
      assms(2) by simp_all
  show ?thesis
    using assms(4) True refused passed guesses_left_success [of ?stop a ?al]
      guesses_left_bounds [OF assms(1), of ?stop a]
    by (auto simp: cmd_auth_eqs counts_def invalid_password_def Let_def case_prod_unfold split: if_splits)
qed

end
