(* ===== verification/Server_Pubsub.thy ===== *)
theory Server_Pubsub
  imports Server_State
begin

section \<open>Subscriptions of a connection\<close>

text \<open>
  Models the commands of \<open>internal/server/pubsub.go\<close>: \<open>SUBSCRIBE\<close>, \<open>UNSUBSCRIBE\<close>,
  \<open>PUBLISH\<close> and what a disconnection undoes. The set \<open>client.subs\<close> is a list without
  duplicates. The invariant ties it to the broker: a client is a subscriber of exactly the
  channels it remembers, so a disconnection leaves nothing behind.
\<close>

subsection \<open>The commands\<close>

definition pubsub_reply :: "bytes \<Rightarrow> bytes \<Rightarrow> nat \<Rightarrow> reply" where
  "pubsub_reply kind channel cnt =
     ArrayReply [BulkReply kind False, BulkReply channel False, IntReply (int cnt)] False"

definition message_reply :: "bytes \<Rightarrow> bytes \<Rightarrow> reply" where
  "message_reply channel payload =
     ArrayReply [BulkReply ''message'' False, BulkReply channel False, BulkReply payload False] False"

definition deliver :: "bytes \<Rightarrow> bytes \<Rightarrow> subscriber \<Rightarrow> server \<Rightarrow> server" where
  "deliver channel payload target sv = send target (message_reply channel payload) sv"

abbreviation max_subscriptions :: nat where "max_subscriptions \<equiv> 1000"

fun subscribe_loop :: "bytes list \<Rightarrow> client \<Rightarrow> server \<Rightarrow> server \<times> client \<times> reply option" where
  "subscribe_loop [] c sv = (sv, c, None)"
| "subscribe_loop (channel # rest) c sv =
     (if length (client_subs c) \<ge> max_subscriptions
      then (sv, c, Some (ErrorReply ''ERR max subscriptions per client reached''))
      else
        let sv = sv\<lparr>sbroker := fst (broker_subscribe (client_id c) channel (sbroker sv))\<rparr>;
            c = c\<lparr>client_subs := List.insert channel (client_subs c)\<rparr>;
            sv = send (client_id c) (pubsub_reply ''subscribe'' channel (length (client_subs c))) sv
        in subscribe_loop rest c sv)"

definition cmd_subscribe :: "client \<Rightarrow> bytes list \<Rightarrow> server \<Rightarrow> server \<times> client \<times> reply option" where
  "cmd_subscribe c args sv =
     (if length args < 1
      then (sv, c, Some (ErrorReply ''ERR SUBSCRIBE requires at least one channel''))
      else subscribe_loop args c sv)"

fun unsubscribe_loop :: "bytes list \<Rightarrow> client \<Rightarrow> server \<Rightarrow> server \<times> client" where
  "unsubscribe_loop [] c sv = (sv, c)"
| "unsubscribe_loop (channel # rest) c sv =
     (let sv = sv\<lparr>sbroker := fst (broker_unsubscribe (client_id c) channel (sbroker sv))\<rparr>;
          c = c\<lparr>client_subs := removeAll channel (client_subs c)\<rparr>;
          sv = send (client_id c) (pubsub_reply ''unsubscribe'' channel (length (client_subs c))) sv
      in unsubscribe_loop rest c sv)"

text \<open>\<open>ord\<close> is the order of the map of the client's channels.\<close>

definition cmd_unsubscribe ::
  "(bytes list \<Rightarrow> bytes list) \<Rightarrow> client \<Rightarrow> bytes list \<Rightarrow> server \<Rightarrow> server \<times> client \<times> reply option" where
  "cmd_unsubscribe ord c args sv =
     (let channels = (if length args = 0 then ord (client_subs c) else args)
      in if length channels = 0 then
           (send (client_id c)
              (ArrayReply [BulkReply ''unsubscribe'' False, BulkReply [] True, IntReply 0] False) sv,
            c, None)
         else (let (sv, c) = unsubscribe_loop channels c sv in (sv, c, None)))"

definition cmd_publish :: "senv \<Rightarrow> bytes list \<Rightarrow> server \<Rightarrow> (server \<times> reply) option" where
  "cmd_publish e args sv =
     (if length args \<noteq> 2 then Some (sv, ErrorReply ''ERR PUBLISH requires channel and message'')
      else do {
        channel \<leftarrow> arg_at args 0;
        payload \<leftarrow> arg_at args 1;
        let (targets, n) = broker_publish (sub_order e) channel (sbroker sv);
        Some (foldl (\<lambda>sv target. deliver channel payload target sv) sv targets, IntReply n)
      })"

text \<open>What it returns: it never reads an argument that is not there.\<close>

definition cmd_publish_result :: "senv \<Rightarrow> bytes list \<Rightarrow> server \<Rightarrow> server \<times> reply" where
  "cmd_publish_result e args sv = the (cmd_publish e args sv)"

lemma cmd_publish_some: "cmd_publish e args sv = Some (cmd_publish_result e args sv)"
  by (simp add: cmd_publish_result_def cmd_publish_def Let_def case_prod_unfold)

lemmas cmd_publish_eqs = cmd_publish_result_def cmd_publish_def

definition unsubscribe_all :: "(bytes list \<Rightarrow> bytes list) \<Rightarrow> client \<Rightarrow> server \<Rightarrow> server" where
  "unsubscribe_all ord c sv =
     foldl (\<lambda>sv ch. sv\<lparr>sbroker := fst (broker_unsubscribe (client_id c) ch (sbroker sv))\<rparr>) sv
       (ord (client_subs c))"

subsection \<open>The client and the broker agree\<close>

definition subs_agree :: "client \<Rightarrow> broker \<Rightarrow> bool" where
  "subs_agree c b \<longleftrightarrow>
     distinct (client_subs c) \<and>
     (\<forall>ch. ch \<in> set (client_subs c) \<longleftrightarrow> client_id c \<in> subscribers b ch)"

definition pubsub_ok :: "client \<Rightarrow> server \<Rightarrow> bool" where
  "pubsub_ok c sv \<longleftrightarrow>
     wf_broker (sbroker sv) \<and> subs_agree c (sbroker sv) \<and>
     length (client_subs c) \<le> max_subscriptions"

text \<open>What a command of one client leaves alone: other clients' subscriptions.\<close>

definition others_same :: "subscriber \<Rightarrow> broker \<Rightarrow> broker \<Rightarrow> bool" where
  "others_same x b b' \<longleftrightarrow> (\<forall>ch y. y \<noteq> x \<longrightarrow> y \<in> subscribers b' ch \<longleftrightarrow> y \<in> subscribers b ch)"

lemma others_same_refl [simp]: "others_same x b b"
  by (simp add: others_same_def)

lemma others_same_trans: "others_same x a b \<Longrightarrow> others_same x b c \<Longrightarrow> others_same x a c"
  by (simp add: others_same_def)

lemma subscribe_step:
  assumes "pubsub_ok c sv" and "length (client_subs c) < max_subscriptions"
  shows "pubsub_ok (c\<lparr>client_subs := List.insert ch (client_subs c)\<rparr>)
      (sv\<lparr>sbroker := fst (broker_subscribe (client_id c) ch (sbroker sv))\<rparr>)"
    and "others_same (client_id c) (sbroker sv) (fst (broker_subscribe (client_id c) ch (sbroker sv)))"
  using assms
  by (auto simp: pubsub_ok_def subs_agree_def others_same_def broker.wf_add broker.members_add
      List.insert_def)

lemma unsubscribe_step:
  assumes "pubsub_ok c sv"
  shows "pubsub_ok (c\<lparr>client_subs := removeAll ch (client_subs c)\<rparr>)
      (sv\<lparr>sbroker := fst (broker_unsubscribe (client_id c) ch (sbroker sv))\<rparr>)"
    and "others_same (client_id c) (sbroker sv) (fst (broker_unsubscribe (client_id c) ch (sbroker sv)))"
  using assms le_trans [OF length_removeAll_less_eq]
  by (auto simp: pubsub_ok_def subs_agree_def others_same_def broker.wf_remove
      broker.members_remove distinct_removeAll)

lemma pubsub_ok_send [simp]: "pubsub_ok c (send x r sv) = pubsub_ok c sv"
  by (simp add: pubsub_ok_def)

lemma subscribe_loop_ok:
  assumes "pubsub_ok c sv" and "subscribe_loop chs c sv = (sv', c', r)"
  shows "pubsub_ok c' sv' \<and> client_id c' = client_id c \<and>
    others_same (client_id c) (sbroker sv) (sbroker sv') \<and>
    (r = None \<longrightarrow> set (client_subs c') = set (client_subs c) \<union> set chs)"
  using assms
proof (induction chs c sv rule: subscribe_loop.induct)
  case (1 c sv)
  then show ?case by auto
next
  case (2 ch rest c sv)
  show ?case
  proof (cases "length (client_subs c) \<ge> max_subscriptions")
    case True
    with 2 show ?thesis by auto
  next
    case False
    let ?sv = "sv\<lparr>sbroker := fst (broker_subscribe (client_id c) ch (sbroker sv))\<rparr>"
    let ?c = "c\<lparr>client_subs := List.insert ch (client_subs c)\<rparr>"
    let ?sv2 = "send (client_id c) (pubsub_reply ''subscribe'' ch (length (client_subs ?c))) ?sv"
    have s: "pubsub_ok ?c ?sv2" "others_same (client_id c) (sbroker sv) (sbroker ?sv2)"
      using subscribe_step [OF 2(2)] False by simp_all
    have "subscribe_loop rest ?c ?sv2 = (sv', c', r)"
      using 2(3) False by (simp add: Let_def)
    with 2(1) [OF False refl refl refl] s(1)
    have "pubsub_ok c' sv' \<and> client_id c' = client_id c \<and>
      others_same (client_id c) (sbroker ?sv2) (sbroker sv') \<and>
      (r = None \<longrightarrow> set (client_subs c') = set (client_subs ?c) \<union> set rest)"
      by simp
    then show ?thesis using others_same_trans [OF s(2)] by auto
  qed
qed

lemma unsubscribe_loop_ok:
  assumes "pubsub_ok c sv" and "unsubscribe_loop chs c sv = (sv', c')"
  shows "pubsub_ok c' sv' \<and> client_id c' = client_id c \<and>
    others_same (client_id c) (sbroker sv) (sbroker sv') \<and>
    set (client_subs c') = set (client_subs c) - set chs"
  using assms
proof (induction chs c sv rule: unsubscribe_loop.induct)
  case (1 c sv)
  then show ?case by auto
next
  case (2 ch rest c sv)
  let ?sv = "sv\<lparr>sbroker := fst (broker_unsubscribe (client_id c) ch (sbroker sv))\<rparr>"
  let ?c = "c\<lparr>client_subs := removeAll ch (client_subs c)\<rparr>"
  let ?sv2 = "send (client_id c) (pubsub_reply ''unsubscribe'' ch (length (client_subs ?c))) ?sv"
  have s: "pubsub_ok ?c ?sv2" "others_same (client_id c) (sbroker sv) (sbroker ?sv2)"
    using unsubscribe_step [OF 2(2)] by simp_all
  have "unsubscribe_loop rest ?c ?sv2 = (sv', c')"
    using 2(3) by (simp add: Let_def)
  with 2(1) [OF refl refl refl] s(1)
  have "pubsub_ok c' sv' \<and> client_id c' = client_id c \<and>
    others_same (client_id c) (sbroker ?sv2) (sbroker sv') \<and>
    set (client_subs c') = set (client_subs ?c) - set rest"
    by simp
  then show ?case using others_same_trans [OF s(2)] by auto
qed

lemma cmd_unsubscribe_ok:
  assumes "pubsub_ok c sv" and "cmd_unsubscribe ord c args sv = (sv', c', r)"
  shows "pubsub_ok c' sv' \<and> client_id c' = client_id c \<and>
    others_same (client_id c) (sbroker sv) (sbroker sv')"
  using assms unsubscribe_loop_ok [OF assms(1)]
  by (auto simp: cmd_unsubscribe_def Let_def case_prod_unfold split: if_splits)
     (metis prod.collapse)+

text \<open>A disconnection removes the client from every channel and disturbs no other.\<close>

lemma unsubscribe_all_broker:
  "sbroker (unsubscribe_all ord c sv)
   = foldl (\<lambda>b ch. fst (broker_unsubscribe (client_id c) ch b)) (sbroker sv) (ord (client_subs c))"
proof -
  have "sbroker (foldl (\<lambda>sv ch. sv\<lparr>sbroker := fst (broker_unsubscribe x ch (sbroker sv))\<rparr>) sv chs)
      = foldl (\<lambda>b ch. fst (broker_unsubscribe x ch b)) (sbroker sv) chs" for chs x
    by (induction chs arbitrary: sv) auto
  then show ?thesis by (simp add: unsubscribe_all_def)
qed

lemma unsubscribe_all_gone:
  assumes "pubsub_ok c sv" and "valid_order ord"
  shows "wf_broker (sbroker (unsubscribe_all ord c sv))"
    and "subscribers (sbroker (unsubscribe_all ord c sv)) ch = subscribers (sbroker sv) ch - {client_id c}"
  using assms
  by (auto simp: unsubscribe_all_broker broker.wf_remove_all broker.members_remove_all
      set_valid_order pubsub_ok_def subs_agree_def)

subsection \<open>Publications\<close>

lemma deliver_outbox:
  "outbox (foldl (\<lambda>sv target. deliver ch payload target sv) sv targets)
   = outbox sv @ map (\<lambda>target. (target, message_reply ch payload)) targets"
  by (induction targets arbitrary: sv) (auto simp: deliver_def)

lemma deliver_frame [simp]:
  "sbroker (foldl (\<lambda>sv target. deliver ch payload target sv) sv targets) = sbroker sv"
  "sstore (foldl (\<lambda>sv target. deliver ch payload target sv) sv targets) = sstore sv"
  "sopts (foldl (\<lambda>sv target. deliver ch payload target sv) sv targets) = sopts sv"
  "slimit (foldl (\<lambda>sv target. deliver ch payload target sv) sv targets) = slimit sv"
  "smetrics (foldl (\<lambda>sv target. deliver ch payload target sv) sv targets) = smetrics sv"
  "saof (foldl (\<lambda>sv target. deliver ch payload target sv) sv targets) = saof sv"
  by (induction targets arbitrary: sv) (auto simp: deliver_def)

end
