(* ===== verification/Server_Compat.thy ===== *)
theory Server_Compat
  imports Server_State
begin

section \<open>Compatibility commands\<close>

text \<open>
  Models \<open>internal/server/compat.go\<close>: the commands that Redis clients send on connecting and
  the table behind \<open>COMMAND\<close>. \<open>hello_loop\<close> is the loop of \<open>HELLO\<close> over its
  arguments, where \<open>AUTH\<close> takes the next two; its error replies leave \<open>authed\<close> as the
  arguments before them set it.
\<close>

definition command_names :: "bytes list" where
  "command_names =
     [''AUTH'', ''CLIENT'', ''COMMAND'', ''DBSIZE'', ''DECR'', ''DECRBY'', ''DEL'', ''ECHO'',
      ''EXISTS'', ''EXPIRE'', ''FLUSHALL'', ''GET'', ''HELLO'', ''HDEL'', ''HGET'', ''HGETALL'',
      ''HEALTH'', ''HLEN'', ''HSET'', ''INFO'', ''INCR'', ''INCRBY'', ''KEYS'', ''LLEN'', ''LPOP'',
      ''LPUSH'', ''LRANGE'', ''MGET'', ''MSET'', ''PEXPIREAT'', ''PERSIST'', ''PING'', ''PUBLISH'',
      ''QUIT'', ''RPUSH'', ''RPOP'', ''SADD'', ''SCARD'', ''SELECT'', ''SET'', ''SETNX'',
      ''SISMEMBER'', ''SLOWLOG'', ''SMEMBERS'', ''SREM'', ''STATS'', ''SUBSCRIBE'', ''TTL'',
      ''TYPE'', ''UNSUBSCRIBE'']"

definition cmd_echo :: "bytes list \<Rightarrow> reply option" where
  "cmd_echo args =
     (if length args \<noteq> 1 then Some (ErrorReply ''ERR ECHO requires exactly one argument'')
      else do { msg \<leftarrow> arg_at args 0; Some (BulkReply msg False) })"

definition cmd_health :: "bytes list \<Rightarrow> reply" where
  "cmd_health args =
     (if length args \<noteq> 0 then ErrorReply ''ERR HEALTH takes no arguments'' else StatusReply ''OK'')"

definition cmd_select :: "bytes list \<Rightarrow> reply option" where
  "cmd_select args =
     (if length args \<noteq> 1 then Some (ErrorReply ''ERR SELECT requires exactly one argument'')
      else do {
        db \<leftarrow> arg_at args 0;
        Some (if db \<noteq> ''0'' then ErrorReply ''ERR DB index is out of range'' else StatusReply ''OK'')
      })"

definition cmd_quit :: "client \<Rightarrow> bytes list \<Rightarrow> client \<times> reply" where
  "cmd_quit c args =
     (if length args \<noteq> 0 then (c, ErrorReply ''ERR QUIT takes no arguments'')
      else (c\<lparr>close_after_reply := True\<rparr>, StatusReply ''OK''))"

fun hello_loop :: "bytes \<Rightarrow> bytes list \<Rightarrow> client \<Rightarrow> bool \<Rightarrow> client \<times> (reply + bool)" where
  "hello_loop pw [] c by_hello = (c, Inr by_hello)"
| "hello_loop pw (arg # rest) c by_hello =
     (if equal_fold arg ''AUTH'' then
        (if pw = [] then (c, Inl (ErrorReply ''ERR AUTH not required''))
         else case rest of
                _ # guess # rest \<Rightarrow>
                  if guess \<noteq> pw then (c, Inl (ErrorReply ''ERR invalid password''))
                  else hello_loop pw rest (c\<lparr>authed := True\<rparr>) True
              | _ \<Rightarrow> (c, Inl (ErrorReply ''ERR HELLO AUTH requires username and password'')))
      else hello_loop pw rest c by_hello)"

definition hello_reply :: reply where
  "hello_reply =
     ArrayReply
       [BulkReply ''server'' False, BulkReply ''llavero'' False, BulkReply ''proto'' False, IntReply 2,
        BulkReply ''id'' False, IntReply 1, BulkReply ''mode'' False, BulkReply ''standalone'' False,
        BulkReply ''role'' False, BulkReply ''master'' False, BulkReply ''modules'' False,
        ArrayReply [] False] False"

text \<open>The loop over the arguments starts at the second.\<close>

definition cmd_hello :: "client \<Rightarrow> bytes list \<Rightarrow> server \<Rightarrow> (client \<times> reply) option" where
  "cmd_hello c args sv = do {
     let pw = opt_auth_password (sopts sv);
     other_proto \<leftarrow>
       (if length args > 0 then do { version \<leftarrow> arg_at args 0; Some (version \<noteq> ''2'') } else Some False);
     Some
       (if other_proto then (c, ErrorReply ''NOPROTO Llavero supports RESP2 only'')
        else case hello_loop pw (drop 1 args) c False of
               (c, Inl r) \<Rightarrow> (c, r)
             | (c, Inr by_hello) \<Rightarrow>
                 if pw \<noteq> [] \<and> \<not> authed c \<and> \<not> by_hello
                 then (c, ErrorReply ''NOAUTH Authentication required.'')
                 else (c, hello_reply))
   }"

definition command_arity :: "bytes \<Rightarrow> int" where
  "command_arity name =
     (if name \<in> {''PING'', ''UNSUBSCRIBE'', ''INFO'', ''COMMAND''} then -1
      else if name \<in> {''MGET'', ''DEL'', ''LPUSH'', ''RPUSH'', ''HDEL'', ''SADD'', ''SREM'', ''SUBSCRIBE''}
      then -2
      else if name = ''MSET'' then -3
      else 0)"

definition command_flags :: "bytes \<Rightarrow> reply list" where
  "command_flags name =
     (if name \<in> {''GET'', ''MGET'', ''EXISTS'', ''TTL'', ''TYPE'', ''KEYS'', ''DBSIZE'', ''HEALTH'', ''INFO'',
                 ''STATS'', ''SLOWLOG''}
      then [BulkReply ''readonly'' False] else [BulkReply ''write'' False])"

definition command_info :: "(bytes \<Rightarrow> bytes) \<Rightarrow> bytes \<Rightarrow> reply" where
  "command_info lc name =
     ArrayReply
       [BulkReply (to_lower lc name) False, IntReply (command_arity name),
        ArrayReply (command_flags name) False, IntReply 0, IntReply 0, IntReply 0] False"

definition known_command :: "bytes \<Rightarrow> bool" where
  "known_command name \<longleftrightarrow> name \<in> set command_names"

definition cmd_command :: "senv \<Rightarrow> bytes list \<Rightarrow> reply option" where
  "cmd_command e args =
     (if length args = 0 then Some (ArrayReply (map (command_info (lower e)) command_names) False)
      else do {
        raw \<leftarrow> arg_at args 0;
        let sub = to_upper (upper (cmd_env e)) raw;
        if sub = ''COUNT'' then
          Some (if length args \<noteq> 1 then ErrorReply ''ERR COMMAND COUNT takes no arguments''
                else IntReply (int (length command_names)))
        else if sub = ''DOCS'' then Some (ArrayReply [] False)
        else if sub = ''INFO'' then do {
          names \<leftarrow> args_from args 1;
          Some (ArrayReply (map (\<lambda>raw.
            let name = to_upper (upper (cmd_env e)) raw
            in if known_command name then command_info (lower e) name else ArrayReply [] True)
            names) False)
        }
        else if sub = ''GETKEYS'' then Some (ArrayReply [] False)
        else Some (ErrorReply ''ERR unknown COMMAND subcommand'')
      })"

definition cmd_client :: "senv \<Rightarrow> bytes list \<Rightarrow> reply option" where
  "cmd_client e args =
     (if length args < 1 then Some (ErrorReply ''ERR CLIENT requires a subcommand'')
      else do {
        raw \<leftarrow> arg_at args 0;
        let sub = to_upper (upper (cmd_env e)) raw;
        Some
          (if sub = ''ID'' then
             (if length args \<noteq> 1 then ErrorReply ''ERR CLIENT ID takes no arguments'' else IntReply 1)
           else if sub = ''SETINFO'' then
             (if length args \<noteq> 3 then ErrorReply ''ERR CLIENT SETINFO requires field and value''
              else StatusReply ''OK'')
           else if sub = ''SETNAME'' then
             (if length args \<noteq> 2 then ErrorReply ''ERR CLIENT SETNAME requires a name''
              else StatusReply ''OK'')
           else if sub = ''GETNAME'' then
             (if length args \<noteq> 1 then ErrorReply ''ERR CLIENT GETNAME takes no arguments''
              else BulkReply [] True)
           else if sub = ''INFO'' then
             (if length args \<noteq> 1 then ErrorReply ''ERR CLIENT INFO takes no arguments''
              else BulkReply (''id=1 name= addr= laddr= fd=-1 age=0 idle=0 flags=N db=0'' @ lf) False)
           else if sub = ''LIST'' then
             (if length args \<noteq> 1 then ErrorReply ''ERR CLIENT LIST takes no arguments''
              else BulkReply (''id=1 addr= flags=N db=0'' @ lf) False)
           else ErrorReply ''ERR unknown CLIENT subcommand'')
      })"

subsection \<open>The guards are enough\<close>

text \<open>What these commands return: none of them reads an argument that is not there.\<close>

definition cmd_hello_result :: "client \<Rightarrow> bytes list \<Rightarrow> server \<Rightarrow> client \<times> reply" where
  "cmd_hello_result c args sv = the (cmd_hello c args sv)"

lemma cmd_hello_some: "cmd_hello c args sv = Some (cmd_hello_result c args sv)"
  by (simp add: cmd_hello_result_def cmd_hello_def Let_def)

lemma returns_bind: "(\<exists>r. x = Some r) \<Longrightarrow> Option.bind x f = f (the x)"
  by auto

lemma cmd_echo_returns: "\<exists>r. cmd_echo args = Some r"
  by (simp add: cmd_echo_def)

lemma cmd_select_returns: "\<exists>r. cmd_select args = Some r"
  by (simp add: cmd_select_def)

lemma cmd_command_returns: "\<exists>r. cmd_command e args = Some r"
  by (simp add: cmd_command_def Let_def Suc_le_eq)

lemma cmd_client_returns: "\<exists>r. cmd_client e args = Some r"
  by (simp add: cmd_client_def Let_def)

lemmas compat_binds =
  cmd_echo_returns [THEN returns_bind] cmd_select_returns [THEN returns_bind]
  cmd_command_returns [THEN returns_bind] cmd_client_returns [THEN returns_bind]

subsection \<open>\<open>HELLO\<close> and passwords\<close>

lemma hello_loop_authed:
  assumes "hello_loop pw args c h = (c', res)" and "authed c'" and "\<not> authed c"
  shows "pw \<noteq> [] \<and> pw \<in> set args"
  using assms
proof (induction pw args c h rule: hello_loop.induct)
  case (1 pw c h)
  then show ?case by simp
next
  case (2 pw arg rest c h)
  show ?case
  proof (cases "equal_fold arg ''AUTH''")
    case False
    then show ?thesis using 2(2) [OF False] 2(3-5) by auto
  next
    case True
    then show ?thesis
      using 2(3-5) by (auto split: if_splits list.splits)
  qed
qed

lemma hello_loop_frame:
  "hello_loop pw args c h = (c', res) \<Longrightarrow>
   client_id c' = client_id c \<and> client_subs c' = client_subs c \<and> remote_addr c' = remote_addr c \<and>
   close_after_reply c' = close_after_reply c \<and> (authed c \<longrightarrow> authed c') \<and>
   (res = Inr True \<longrightarrow> h \<or> authed c')"
proof (induction pw args c h rule: hello_loop.induct)
  case (1 pw c h)
  then show ?case by auto
next
  case (2 pw arg rest c h)
  show ?case
  proof (cases "equal_fold arg ''AUTH''")
    case False
    then show ?thesis using 2(2) [OF False] 2(3) by auto
  next
    case True
    then show ?thesis
      using 2(1) 2(3) by (auto split: if_splits list.splits)
  qed
qed

lemma cmd_hello_client:
  "fst (cmd_hello_result c args sv)
   = (if length args > 0 \<and> args ! 0 \<noteq> ''2'' then c
      else fst (hello_loop (opt_auth_password (sopts sv)) (tl args) c False))"
  by (cases args; cases "hello_loop (opt_auth_password (sopts sv)) (tl args) c False")
     (simp_all add: cmd_hello_result_def cmd_hello_def Let_def split: sum.split)

lemma cmd_hello_authed:
  assumes "\<not> authed c" and "authed (fst (cmd_hello_result c args sv))"
  shows "opt_auth_password (sopts sv) \<noteq> [] \<and> opt_auth_password (sopts sv) \<in> set (tl args)"
  using assms hello_loop_authed [OF prod.collapse [symmetric], of "opt_auth_password (sopts sv)" "tl args" c False]
  by (simp add: cmd_hello_client split: if_splits)

lemma cmd_hello_frame:
  "client_id (fst (cmd_hello_result c args sv)) = client_id c \<and>
   client_subs (fst (cmd_hello_result c args sv)) = client_subs c"
  using hello_loop_frame [OF prod.collapse [symmetric], of "opt_auth_password (sopts sv)" "tl args" c False]
  by (simp add: cmd_hello_client)

end
