(* ===== verification/Server_Core.thy ===== *)
theory Server_Core
  imports Server_Replay Server_Auth Server_Pubsub Server_Compat
begin

section \<open>The server: routing, connections, start and shutdown\<close>

text \<open>
  Models \<open>internal/server/server.go\<close>. \<open>handle_command\<close> routes one command; \<open>None\<close> is
  a panic, which \<open>handleConn\<close> recovers from by closing that connection. \<open>conn_step\<close> is one
  turn of the loop of \<open>handleConn\<close> and \<open>conn_loop\<close> the loop, over the bytes the peer
  sends; a run of the whole server interleaves the steps of its connections
  (\<open>server_step\<close> in \<open>Server_System\<close>). \<open>accept_conn\<close> and \<open>conn_close\<close> keep the books on
  connections: slots, the counter \<open>activeConns\<close> and the channel \<open>drained\<close> that a shutdown
  waits for. \<open>Listen\<close> is in \<open>Server_Main\<close>, \<open>Close\<close> in \<open>Server_Shutdown\<close>.

  Sockets, TLS, the timing of the tickers and the process log are not modelled: a listener is a
  source of connections, and \<open>ActiveExpireCycle\<close> and \<open>Save\<close> may run at any time.
\<close>

subsection \<open>Routing\<close>

definition handle_command ::
  "senv \<Rightarrow> client \<Rightarrow> command \<Rightarrow> server \<Rightarrow> (server \<times> client \<times> reply option) option" where
  "handle_command e c cmd sv =
     (let name = to_upper (upper (cmd_env e)) (cmd_name cmd); args = cmd_args cmd;
          reply = (\<lambda>r. Some (sv, c, Some r))
      in if name = ''AUTH'' then do { (sv, c, r) \<leftarrow> cmd_auth e c args sv; Some (sv, c, Some r) }
         else if name = ''HELLO'' then do { (c, r) \<leftarrow> cmd_hello c args sv; Some (sv, c, Some r) }
         else if name = ''QUIT'' then (let (c, r) = cmd_quit c args in Some (sv, c, Some r))
         else if auth_required c sv then reply (ErrorReply ''NOAUTH Authentication required.'')
         else if name = ''CLIENT'' then cmd_client e args \<bind> reply
         else if name = ''COMMAND'' then cmd_command e args \<bind> reply
         else if name = ''ECHO'' then cmd_echo args \<bind> reply
         else if name = ''HEALTH'' then reply (cmd_health args)
         else if name = ''INFO'' then reply (cmd_info e args sv)
         else if name = ''SELECT'' then cmd_select args \<bind> reply
         else if name = ''STATS'' then reply (cmd_stats e args sv)
         else if name = ''SLOWLOG'' then
           do { (sv, r) \<leftarrow> cmd_slow_log e args sv; Some (sv, c, Some r) }
         else if name = ''SUBSCRIBE'' then Some (cmd_subscribe c args sv)
         else if name = ''UNSUBSCRIBE'' then Some (cmd_unsubscribe (map_order (cmd_env e)) c args sv)
         else if name = ''PUBLISH'' then
           do { (sv, r) \<leftarrow> cmd_publish e args sv; Some (sv, c, Some r) }
         else do { (sv, r) \<leftarrow> dispatch_with_aof e cmd sv; Some (sv, c, Some r) })"

text \<open>The same, with what the commands return.\<close>

lemma handle_command_eq:
  "handle_command e c cmd sv =
     (let name = to_upper (upper (cmd_env e)) (cmd_name cmd); args = cmd_args cmd;
          pure = (\<lambda>r. Some (sv, c, Some r))
      in if name = ''AUTH'' then (let (sv, c, r) = cmd_auth_result e c args sv in Some (sv, c, Some r))
         else if name = ''HELLO'' then (let (c, r) = cmd_hello_result c args sv in Some (sv, c, Some r))
         else if name = ''QUIT'' then (let (c, r) = cmd_quit c args in Some (sv, c, Some r))
         else if auth_required c sv then pure (ErrorReply ''NOAUTH Authentication required.'')
         else if name = ''CLIENT'' then pure (the (cmd_client e args))
         else if name = ''COMMAND'' then pure (the (cmd_command e args))
         else if name = ''ECHO'' then pure (the (cmd_echo args))
         else if name = ''HEALTH'' then pure (cmd_health args)
         else if name = ''INFO'' then pure (cmd_info e args sv)
         else if name = ''SELECT'' then pure (the (cmd_select args))
         else if name = ''STATS'' then pure (cmd_stats e args sv)
         else if name = ''SLOWLOG'' then
           (let (sv, r) = cmd_slow_log_result e args sv in Some (sv, c, Some r))
         else if name = ''SUBSCRIBE'' then Some (cmd_subscribe c args sv)
         else if name = ''UNSUBSCRIBE'' then Some (cmd_unsubscribe (map_order (cmd_env e)) c args sv)
         else if name = ''PUBLISH'' then
           (let (sv, r) = cmd_publish_result e args sv in Some (sv, c, Some r))
         else (case dispatch_with_aof e cmd sv of
                 None \<Rightarrow> None
               | Some (sv, r) \<Rightarrow> Some (sv, c, Some r)))"
  by (simp add: handle_command_def compat_binds cmd_auth_some cmd_hello_some cmd_slow_log_some
      cmd_publish_some case_prod_unfold Let_def split: option.split)

subsection \<open>One connection\<close>

fun io_err_text :: "io_err \<Rightarrow> bytes" where
  "io_err_text EOF = ''EOF''"
| "io_err_text ErrUnexpectedEOF = ''unexpected EOF''"
| "io_err_text ErrProtocol = ''protocolo malformado''"
| "io_err_text (OtherErr msg) = msg"

text \<open>
  One turn of the loop: \<open>Some rest\<close> is another turn with the bytes that are left, \<open>None\<close>
  is a return. \<open>deadline_fails\<close>: \<open>SetReadDeadline\<close> returned an error; \<open>send_fails\<close>:
  writing the reply did.
\<close>

definition conn_step ::
  "senv \<Rightarrow> io_err \<Rightarrow> bytes \<Rightarrow> client \<Rightarrow> server \<Rightarrow> bytes option \<times> client \<times> server" where
  "conn_step e fin inp c sv =
     (if opt_read_timeout (sopts sv) > 0 \<and> deadline_fails e then (None, c, sv)
      else case resp_parse (upper (cmd_env e)) fin inp of
             Inl err \<Rightarrow>
               if err = EOF then (None, c, sv)
               else (None, c,
                     send (client_id c) (ErrorReply (''ERR '' @ io_err_text err)) (record_protocol_error sv))
           | Inr (cmd, rest) \<Rightarrow>
               (case handle_command e c cmd sv of
                  None \<Rightarrow> (None, c, sv)
                | Some (sv, c, r) \<Rightarrow>
                    let sv = observe_command e cmd r (cmd_duration e) sv
                    in case r of
                         None \<Rightarrow> (Some rest, c, sv)
                       | Some reply \<Rightarrow>
                           if send_fails e then (None, c, sv)
                           else if close_after_reply c then (None, c, send (client_id c) reply sv)
                           else (Some rest, c, send (client_id c) reply sv)))"

lemma conn_step_consumes:
  assumes "conn_step e fin inp c sv = (Some rest, c', sv')"
  shows "\<exists>used. used \<noteq> [] \<and> inp = used @ rest"
proof -
  obtain cmd where "resp_parse (upper (cmd_env e)) fin inp = Inr (cmd, rest)"
    using assms
    by (auto simp: conn_step_def Let_def split: if_splits sum.splits prod.splits option.splits)
  then show ?thesis by (rule consumesD [OF consumes_resp_parse])
qed

text \<open>\<open>envs i\<close> is the environment of turn \<open>i\<close>. The result also counts the turns.\<close>

function conn_loop ::
  "(nat \<Rightarrow> senv) \<Rightarrow> nat \<Rightarrow> io_err \<Rightarrow> bytes \<Rightarrow> client \<Rightarrow> server \<Rightarrow> nat \<times> client \<times> server" where
  "conn_loop envs i fin inp c sv =
     (case conn_step (envs i) fin inp c sv of
        (None, c, sv) \<Rightarrow> (Suc i, c, sv)
      | (Some rest, c, sv) \<Rightarrow> conn_loop envs (Suc i) fin rest c sv)"
  by pat_completeness auto

termination
  by (relation "measure (\<lambda>(_, _, _, inp, _). length inp)")
     (auto dest!: conn_step_consumes [OF sym])

declare conn_loop.simps [simp del]

subsection \<open>Opening and closing connections\<close>

text \<open>
  \<open>connSlots\<close> is a buffered channel: \<open>slots_used\<close> is how many values it holds, and it is
  nil when there is no limit. \<open>drained\<close> says that the channel of that name is there, open.
\<close>

definition acquire_conn_slot :: "subscriber \<Rightarrow> server \<Rightarrow> server \<times> bool" where
  "acquire_conn_slot cid sv =
     (if opt_max_connections (sopts sv) \<le> 0 then (record_connection_accepted sv, True)
      else if int (slots_used sv) < opt_max_connections (sopts sv)
      then (record_connection_accepted (sv\<lparr>slots_used := Suc (slots_used sv)\<rparr>), True)
      else (send cid (ErrorReply ''ERR max clients reached'') (record_connection_rejected sv), False))"

definition release_conn_slot :: "server \<Rightarrow> server" where
  "release_conn_slot sv =
     (let sv = record_connection_closed sv
      in if opt_max_connections (sopts sv) \<le> 0 then sv else sv\<lparr>slots_used := slots_used sv - 1\<rparr>)"

definition track_conn :: "server \<Rightarrow> server \<times> bool" where
  "track_conn sv =
     (if sclosing sv then (sv, False)
      else let sv = (if active_conns sv = 0 then sv\<lparr>drained := True\<rparr> else sv)
           in (sv\<lparr>active_conns := active_conns sv + 1\<rparr>, True))"

definition finish_conn :: "server \<Rightarrow> server" where
  "finish_conn sv =
     (let sv = sv\<lparr>active_conns := active_conns sv - 1\<rparr>
      in if active_conns sv = 0 \<and> drained sv then sv\<lparr>drained := False\<rparr> else sv)"

definition begin_closing :: "server \<Rightarrow> server" where
  "begin_closing sv = sv\<lparr>sclosing := True\<rparr>"

text \<open>What \<open>Serve\<close> does with an accepted connection; \<open>None\<close>: it was refused.\<close>

definition accept_conn :: "subscriber \<Rightarrow> bytes \<Rightarrow> server \<Rightarrow> server \<times> client option" where
  "accept_conn cid remote sv =
     (case acquire_conn_slot cid sv of
        (sv, False) \<Rightarrow> (sv, None)
      | (sv, True) \<Rightarrow>
          (case track_conn sv of
             (sv, False) \<Rightarrow> (release_conn_slot sv, None)
           | (sv, True) \<Rightarrow> (sv, Some (new_client cid remote))))"

text \<open>The deferred calls of \<open>handleConn\<close>, in the order in which they run.\<close>

definition conn_close :: "(bytes list \<Rightarrow> bytes list) \<Rightarrow> client \<Rightarrow> server \<Rightarrow> server" where
  "conn_close ord c sv = finish_conn (release_conn_slot (unsubscribe_all ord c sv))"

text \<open>The method \<open>Save\<close>, which the ticker and the shutdown call.\<close>

definition server_save :: "senv \<Rightarrow> server \<Rightarrow> server \<times> snap_io_err option" where
  "server_save e sv =
     (if opt_snapshot_path (sopts sv) = [] then (sv, None)
      else
        let (st, dir, err) =
              snapshot_save (shard_order (cmd_env e)) (\<lambda>_. map_order (cmd_env e)) (save_order e)
                (save_clock e) (save_os_result e) (opt_snapshot_path (sopts sv)) (sstore sv) (sdir sv)
        in (record_snapshot (save_duration e) (err \<noteq> None) (sv\<lparr>sstore := st, sdir := dir\<rparr>), err))"

subsection \<open>Starting\<close>

text \<open>
  What the outside answers while the server starts: the directory, the content of the
  append-only file (\<open>None\<close>: there is none), how the files end, failures to open them, and
  the environments of the replay.
\<close>

record start_env =
  start_dir :: directory
  start_clock :: time
  start_orders :: "bytes \<Rightarrow> bytes list \<Rightarrow> bytes list"
  start_load_clock :: time
  snapshot_open_err :: "bytes option"
  snapshot_fin :: io_err
  aof_opened :: "bytes + bytes option"
  aof_fin :: io_err
  aof_mkdir_err :: "bytes option"
  aof_open :: "bytes + bytes \<times> nat"
  replay_envs :: "nat \<Rightarrow> env"
  replay_clocks :: "nat \<Rightarrow> time"
  start_upper :: "bytes \<Rightarrow> bytes"
  start_lower :: "bytes \<Rightarrow> bytes"

datatype start_err =
    BadOption bytes
  | StartSnapshot snap_io_err
  | StartPolicy
  | StartReplay replay_err
  | StartAof bytes
  | StoreFault new_fault

definition open_server_aof :: "start_env \<Rightarrow> options \<Rightarrow> store \<Rightarrow> start_err + store \<times> aof option" where
  "open_server_aof se o' st =
     (if opt_aof_path o' = [] then Inr (st, None)
      else
        let raw = (if opt_aof_sync o' = [] then ''always'' else opt_aof_sync o')
        in case parse_fsync_policy (start_lower se) raw of
             None \<Rightarrow> Inl StartPolicy
           | Some policy \<Rightarrow>
               (case replay_aof (start_upper se) (replay_step (replay_envs se) (replay_clocks se))
                       (aof_opened se) (aof_fin se) (st, 0) of
                  (_, Some err) \<Rightarrow> Inl (StartReplay err)
                | ((st, _), None) \<Rightarrow>
                    (case open_aof (opt_aof_path o') policy (aof_mkdir_err se) (aof_open se) of
                       Inl e \<Rightarrow> Inl (StartAof e)
                     | Inr a \<Rightarrow> Inr (st, Some a))))"

definition check_options :: "options \<Rightarrow> bytes option" where
  "check_options o' =
     (if opt_snapshot_path o' \<noteq> [] \<and> opt_aof_path o' \<noteq> []
      then Some ''snapshot and AOF cannot be enabled together yet''
      else if opt_max_connections o' < 0 then Some ''MaxConnections must not be negative''
      else if opt_max_memory_bytes o' < 0 then Some ''MaxMemoryBytes must not be negative''
      else if \<not> valid_command_log_mode
                (if opt_command_log o' = [] then ''errors'' else opt_command_log o')
      then Some ''CommandLog must be one of off, errors, slow or all''
      else if opt_slow_log_threshold o' < 0 then Some ''SlowLogThreshold must not be negative''
      else if opt_slow_log_max_len o' < 0 then Some ''SlowLogMaxLen must not be negative''
      else if opt_shutdown_timeout o' < 0 then Some ''ShutdownTimeout must not be negative''
      else None)"

definition default_options :: "options \<Rightarrow> options" where
  "default_options o' =
     o'\<lparr>opt_addr := (if opt_addr o' = [] then ''127.0.0.1:6380'' else opt_addr o'),
        opt_command_log := (if opt_command_log o' = [] then ''errors'' else opt_command_log o'),
        opt_slow_log_max_len :=
          (if opt_slow_log_max_len o' = 0 then default_slow_log_max_len else opt_slow_log_max_len o')\<rparr>"

definition new_with_options :: "start_env \<Rightarrow> options \<Rightarrow> start_err + server" where
  "new_with_options se o' =
     (case check_options o' of
        Some msg \<Rightarrow> Inl (BadOption msg)
      | None \<Rightarrow>
          (case new_store 256 of
             Inl fault \<Rightarrow> Inl (StoreFault fault)
           | Inr st \<Rightarrow>
               (case (if opt_snapshot_path o' = [] then (st, None)
                      else snapshot_load (start_orders se) (start_load_clock se) (snapshot_open_err se)
                             (snapshot_fin se) (opt_snapshot_path o') (start_dir se) st) of
                  (_, Some e) \<Rightarrow> Inl (StartSnapshot e)
                | (st, None) \<Rightarrow>
                    (case open_server_aof se o' st of
                       Inl e \<Rightarrow> Inl e
                     | Inr (st, a) \<Rightarrow>
                         Inr \<lparr>sopts = default_options o', sstore = st, saof = a,
                              sbroker = new_broker, slimit = new_auth_limiter,
                              smetrics = new_metrics (start_clock se), sdir = start_dir se,
                              outbox = [], slots_used = 0, active_conns = 0, sclosing = False,
                              drained = False\<rparr>))))"

text \<open>\<open>New\<close>: only an address, every other option at its zero; it panics where this is \<open>Inl\<close>.\<close>

definition new_server :: "start_env \<Rightarrow> bytes \<Rightarrow> start_err + server" where
  "new_server se addr =
     new_with_options se
       \<lparr>opt_addr = addr, opt_snapshot_path = [], opt_save_interval = 0, opt_aof_path = [],
        opt_aof_sync = [], opt_auth_password = [], opt_tls_cert_path = [], opt_tls_key_path = [],
        opt_max_connections = 0, opt_read_timeout = 0, opt_write_timeout = 0,
        opt_max_memory_bytes = 0, opt_command_log = [], opt_slow_log_threshold = 0,
        opt_slow_log_max_len = 0, opt_shutdown_timeout = 0\<rparr>"

end
