(* ===== verification/Server_System.thy ===== *)
theory Server_System
  imports Server_Core
begin

section \<open>The server as a state machine\<close>

text \<open>
  A state is the server and the list of its open connections with the bytes each peer has still
  to send. A step accepts a connection, lets one connection take a turn of its loop, expires keys
  actively, saves a snapshot or begins the shutdown: the goroutines of \<open>Serve\<close>,
  \<open>handleConn\<close>, \<open>expireLoop\<close>, \<open>saveLoop\<close> and \<open>Close\<close>, interleaved in any
  order. Steps are atomic: the commands of two connections are interleaved command by command,
  not lock by lock.

  \<open>system_ok\<close> is the invariant of all the components together, and every reachable state
  has it.
\<close>

subsection \<open>Steps\<close>

type_synonym conn = "client \<times> bytes"
type_synonym system = "server \<times> conn list"

abbreviation conn_id :: "conn \<Rightarrow> subscriber" where
  "conn_id k \<equiv> client_id (fst k)"

text \<open>What the outside answers obeys Go's promises: iteration visits each key once.\<close>

definition senv_ok :: "senv \<Rightarrow> bool" where
  "senv_ok e \<longleftrightarrow>
     (\<forall>i. valid_order (shard_order (cmd_env e) i)) \<and> valid_order (map_order (cmd_env e)) \<and>
     (\<forall>k. valid_order (save_order e k))"

inductive server_step :: "system \<Rightarrow> system \<Rightarrow> bool" where
  accept: "cid \<notin> set (map conn_id conns) \<Longrightarrow> accept_conn cid remote sv = (sv', Some c) \<Longrightarrow>
    server_step (sv, conns) (sv', conns @ [(c, inp)])"
| refuse: "cid \<notin> set (map conn_id conns) \<Longrightarrow> accept_conn cid remote sv = (sv', None) \<Longrightarrow>
    server_step (sv, conns) (sv', conns)"
| turn: "senv_ok e \<Longrightarrow> conn_step e fin inp c sv = (Some rest, c', sv') \<Longrightarrow>
    server_step (sv, before @ (c, inp) # behind) (sv', before @ (c', rest) # behind)"
| leave: "senv_ok e \<Longrightarrow> valid_order ord \<Longrightarrow> conn_step e fin inp c sv = (None, c', sv') \<Longrightarrow>
    server_step (sv, before @ (c, inp) # behind) (conn_close ord c' sv', before @ behind)"
| expire: "(\<And>i j. valid_order (ords i j)) \<Longrightarrow>
    server_step (sv, conns) (sv\<lparr>sstore := active_expire_cycle ords nows (sstore sv)\<rparr>, conns)"
| save: "senv_ok e \<Longrightarrow> server_step (sv, conns) (fst (server_save e sv), conns)"
| shutdown: "server_step (sv, conns) (begin_closing sv, conns)"

inductive reachable :: "system \<Rightarrow> system \<Rightarrow> bool" for start where
  start: "reachable start start"
| step: "reachable start st \<Longrightarrow> server_step st st' \<Longrightarrow> reachable start st'"

subsection \<open>The invariant\<close>

definition slots_ok :: "server \<Rightarrow> nat \<Rightarrow> bool" where
  "slots_ok sv n \<longleftrightarrow>
     active_conns sv = int n \<and> (drained sv \<longleftrightarrow> n > 0) \<and>
     current_connections (smetrics sv) = n \<and>
     (opt_max_connections (sopts sv) > 0 \<longrightarrow>
        slots_used sv = n \<and> int n \<le> opt_max_connections (sopts sv))"

definition clients_ok :: "broker \<Rightarrow> client list \<Rightarrow> bool" where
  "clients_ok b cs \<longleftrightarrow>
     wf_broker b \<and> distinct (map client_id cs) \<and>
     (\<forall>c \<in> set cs. subs_agree c b \<and> length (client_subs c) \<le> max_subscriptions) \<and>
     (\<forall>ch. subscribers b ch \<subseteq> client_id ` set cs)"

definition system_ok :: "system \<Rightarrow> bool" where
  "system_ok st \<longleftrightarrow>
     (case st of (sv, conns) \<Rightarrow>
        wf_store (sstore sv) \<and> limiter_ok (slimit sv) \<and>
        slow_log_ok (nat (opt_slow_log_max_len (sopts sv))) (smetrics sv) \<and>
        slots_ok sv (length conns) \<and> clients_ok (sbroker sv) (map fst conns))"

subsection \<open>What a command leaves alone\<close>

text \<open>The part of the server that no data command touches.\<close>

definition frame :: "server \<Rightarrow> server \<Rightarrow> bool" where
  "frame sv sv' \<longleftrightarrow>
     sopts sv' = sopts sv \<and> slots_used sv' = slots_used sv \<and>
     active_conns sv' = active_conns sv \<and> sclosing sv' = sclosing sv \<and> drained sv' = drained sv \<and>
     current_connections (smetrics sv') = current_connections (smetrics sv)"

definition quiet :: "server \<Rightarrow> server \<Rightarrow> bool" where
  "quiet sv sv' \<longleftrightarrow>
     frame sv sv' \<and> sbroker sv' = sbroker sv \<and> slimit sv' = slimit sv \<and>
     slow_log (smetrics sv') = slow_log (smetrics sv) \<and>
     next_slow_id (smetrics sv') = next_slow_id (smetrics sv)"

lemma frame_refl [simp]: "frame sv sv" by (simp add: frame_def)
lemma quiet_refl [simp]: "quiet sv sv" by (simp add: quiet_def)
lemma frame_trans: "frame a b \<Longrightarrow> frame b c \<Longrightarrow> frame a c" by (simp add: frame_def)
lemma quiet_trans: "quiet a b \<Longrightarrow> quiet b c \<Longrightarrow> quiet a c" by (auto simp: quiet_def frame_def)

lemma quiet_updates [simp]:
  "quiet sv (sv\<lparr>sstore := st\<rparr>)" "quiet sv (sv\<lparr>saof := a\<rparr>)" "quiet sv (sv\<lparr>sdir := dir\<rparr>)"
  "quiet sv (send c r sv)" "quiet sv (record_snapshot d b sv)" "quiet sv (record_protocol_error sv)"
  "quiet sv (record_oom_rejected_write sv)"
  by (simp_all add: quiet_def frame_def record_snapshot_def record_protocol_error_def
      record_oom_rejected_write_def Let_def)

lemma quiet_save_func:
  assumes "save_func e sv0 = Some f"
  shows "quiet sv (fst (snd (f s sv)))"
proof -
  have "f s sv = (let (st, dir, err) =
          snapshot_save (shard_order (cmd_env e)) (\<lambda>_. map_order (cmd_env e)) (save_order e)
            (save_clock e) (save_os_result e) (opt_snapshot_path (sopts sv)) s (sdir sv)
      in (st, record_snapshot (save_duration e) (err \<noteq> None) (sv\<lparr>sdir := dir\<rparr>),
          map_option (snap_err_text (quote_byte e)) err))"
    using assms by (auto simp: save_func_def split: if_splits)
  then show ?thesis
    using quiet_trans [OF quiet_updates(3) quiet_updates(5)] by (simp add: Let_def case_prod_unfold)
qed

lemma quiet_dispatch: "quiet sv (fst (snd (dispatch_result (save_func e sv0) env cmd s sv)))"
proof (cases rule: dispatch_cases [of "save_func e sv0" env cmd s sv])
  case (save f)
  then show ?thesis
    using quiet_save_func [OF save(1), of sv s]
    by (auto simp: cmd_save_def split: prod.splits option.splits)
qed simp_all

lemma quiet_server_dispatch: "quiet sv (fst (server_dispatch_result e cmd sv))"
  using quiet_trans [OF quiet_dispatch quiet_updates(1)]
  by (simp add: server_dispatch_result_def case_prod_unfold Let_def)

lemma quiet_locked: "quiet sv (fst (locked_result e cmd lc sv))"
  using quiet_server_dispatch [of sv e cmd] quiet_trans [OF quiet_server_dispatch quiet_updates(2)]
  by (auto simp: locked_result_eq case_prod_unfold Let_def split: option.split)

text \<open>The four ways in which a data command changes the server.\<close>

lemma dispatch_with_aof_cases:
  assumes "dispatch_with_aof e cmd sv = Some (sv', r)"
  obtains (oom) lc where
      "sv' = record_oom_rejected_write (sv\<lparr>sstore := fst (memory_limit_exceeded_result
         (upper (cmd_env e)) (memory_clock e) (opt_max_memory_bytes (sopts sv)) lc (sstore sv))\<rparr>)"
  | (limited) lc where
      "sv' = fst (locked_result e cmd lc (sv\<lparr>sstore := fst (memory_limit_exceeded_result
         (upper (cmd_env e)) (memory_clock e) (opt_max_memory_bytes (sopts sv)) lc (sstore sv))\<rparr>))"
  | (locked) lc where "sv' = fst (locked_result e cmd lc sv)"
  | (plain) "sv' = fst (server_dispatch_result e cmd sv)"
proof -
  obtain lc ok where lc: "aof_command (upper (cmd_env e)) (log_clock e) cmd = Some (lc, ok)"
    using assms by (auto simp: dispatch_with_aof_eq split: option.splits prod.splits)
  let ?m = "fst (memory_limit_exceeded_result (upper (cmd_env e)) (memory_clock e)
      (opt_max_memory_bytes (sopts sv)) lc (sstore sv))"
  have "sv' = record_oom_rejected_write (sv\<lparr>sstore := ?m\<rparr>) \<or>
      sv' = fst (locked_result e cmd lc (sv\<lparr>sstore := ?m\<rparr>)) \<or>
      sv' = fst (locked_result e cmd lc sv) \<or> sv' = fst (server_dispatch_result e cmd sv)"
    using assms lc
    by (auto simp: dispatch_with_aof_eq case_prod_unfold Let_def split: if_splits)
  then show thesis using that by blast
qed

lemma quiet_dispatch_with_aof:
  assumes "dispatch_with_aof e cmd sv = Some (sv', r)"
  shows "quiet sv sv'"
  using assms
proof (cases rule: dispatch_with_aof_cases)
  case (oom lc)
  then show ?thesis using quiet_trans [OF quiet_updates(1) quiet_updates(7)] by simp
next
  case (limited lc)
  then show ?thesis using quiet_trans [OF quiet_updates(1) quiet_locked] by simp
qed (simp_all add: quiet_server_dispatch quiet_locked)

subsection \<open>The store\<close>

lemma save_func_ok:
  assumes "senv_ok e" and "save_func e sv = Some f" and "wf_store s"
  shows "wf_store (fst (f s x))"
proof -
  have ords: "\<And>i. valid_order (shard_order (cmd_env e) i)" using assms(1) by (simp add: senv_ok_def)
  have "wf_store (fst (store_snapshot (shard_order (cmd_env e)) (\<lambda>_. map_order (cmd_env e)) (save_clock e) s))"
    using wf_store_thinned [OF assms(3) thinned_store_snapshot [OF assms(3) ords]] .
  then show ?thesis
    using assms(2,3)
    by (auto simp: save_func_def snapshot_save_def Let_def case_prod_unfold
        split: if_splits option.splits)
qed

lemma wf_store_server_dispatch:
  assumes "senv_ok e" and "wf_store (sstore sv)"
  shows "wf_store (sstore (fst (server_dispatch_result e cmd sv)))"
proof -
  have "wf_store (fst (dispatch_result (save_func e sv) (cmd_env e) cmd (sstore sv) sv))"
  proof (cases rule: dispatch_cases [of "save_func e sv" "cmd_env e" cmd "sstore sv" sv])
    case (save f)
    then show ?thesis
      using save_func_ok [OF assms(1) save(1) assms(2)] assms(2)
        cmd_save_store [of f "cmd_args cmd" "sstore sv" sv] by auto
  next
    case (handler h)
    then show ?thesis using store_cmd.keeps_wf [OF handler_store_cmd assms(2)] by auto
  qed (simp add: assms(2))
  then show ?thesis by (simp add: server_dispatch_result_def case_prod_unfold Let_def)
qed

lemma wf_store_locked:
  assumes "senv_ok e" and "wf_store (sstore sv)"
  shows "wf_store (sstore (fst (locked_result e cmd lc sv)))"
  using wf_store_server_dispatch [OF assms, of cmd]
  by (auto simp: locked_result_eq case_prod_unfold Let_def split: option.split)

lemma wf_store_memory_limit: "wf_store s \<Longrightarrow> wf_store (fst (memory_limit_exceeded_result uc clk m cmd s))"
proof -
  have "wf_store s \<Longrightarrow> wf_store (fst (mset_growth clk i args g s))" for i args g
    by (induction clk i args g s rule: mset_growth.induct)
       (auto simp: store_defs store_wf Let_def case_prod_unfold)
  then show "wf_store s \<Longrightarrow> wf_store (fst (memory_limit_exceeded_result uc clk m cmd s))"
    by (simp add: memory_limit_exceeded_result_eq estimated_growth_result_eq store_defs store_wf Let_def
        case_prod_unfold)
qed

lemma wf_store_dispatch_with_aof:
  assumes "senv_ok e" and "wf_store (sstore sv)" and "dispatch_with_aof e cmd sv = Some (sv', r)"
  shows "wf_store (sstore sv')"
  using assms(3)
proof (cases rule: dispatch_with_aof_cases)
  case (oom lc)
  then show ?thesis
    using wf_store_memory_limit [OF assms(2)] by (simp add: record_oom_rejected_write_def)
next
  case (limited lc)
  then show ?thesis
    using wf_store_memory_limit [OF assms(2)] by (simp add: wf_store_locked [OF assms(1)])
qed (simp_all add: wf_store_locked [OF assms(1,2)] wf_store_server_dispatch [OF assms(1,2)])

subsection \<open>One turn of one connection\<close>

text \<open>What one connection needs of the server, and what it must not touch.\<close>

definition local_ok :: "client \<Rightarrow> server \<Rightarrow> bool" where
  "local_ok c sv \<longleftrightarrow>
     wf_store (sstore sv) \<and> limiter_ok (slimit sv) \<and>
     slow_log_ok (nat (opt_slow_log_max_len (sopts sv))) (smetrics sv) \<and> pubsub_ok c sv"

definition turn_rel :: "client \<Rightarrow> server \<Rightarrow> client \<Rightarrow> server \<Rightarrow> bool" where
  "turn_rel c sv c' sv' \<longleftrightarrow>
     frame sv sv' \<and> client_id c' = client_id c \<and>
     others_same (client_id c) (sbroker sv) (sbroker sv') \<and> local_ok c' sv'"

lemma turn_rel_refl: "local_ok c sv \<Longrightarrow> turn_rel c sv c sv"
  by (simp add: turn_rel_def)

lemma turn_rel_trans:
  "turn_rel a sa b sb \<Longrightarrow> turn_rel b sb c sc \<Longrightarrow> turn_rel a sa c sc"
  by (auto simp: turn_rel_def intro: frame_trans others_same_trans)

text \<open>Steps that touch only the store, the file, the counters and the outbox.\<close>

lemma turn_rel_quiet:
  assumes "local_ok c sv" and "quiet sv sv'" and "wf_store (sstore sv')"
  shows "turn_rel c sv c sv'"
  using assms
  by (auto simp: turn_rel_def local_ok_def quiet_def frame_def pubsub_ok_def slow_log_ok_def)

text \<open>Steps that touch only the client's flags.\<close>

lemma turn_rel_client:
  assumes "local_ok c sv" and "client_id c' = client_id c" and "client_subs c' = client_subs c"
  shows "turn_rel c sv c' sv"
  using assms by (auto simp: turn_rel_def local_ok_def pubsub_ok_def subs_agree_def)

text \<open>Steps that touch only the subscriptions and the outbox.\<close>

definition pubsub_only :: "server \<Rightarrow> server \<Rightarrow> bool" where
  "pubsub_only sv sv' \<longleftrightarrow>
     frame sv sv' \<and> sstore sv' = sstore sv \<and> slimit sv' = slimit sv \<and> smetrics sv' = smetrics sv"

lemma pubsub_only_trans: "pubsub_only a b \<Longrightarrow> pubsub_only b c \<Longrightarrow> pubsub_only a c"
  by (auto simp: pubsub_only_def frame_def)

lemma pubsub_only_updates [simp]:
  "pubsub_only sv sv" "pubsub_only sv (send x r (sv\<lparr>sbroker := b\<rparr>))" "pubsub_only sv (send x r sv)"
  "pubsub_only sv (sv\<lparr>sbroker := b\<rparr>)"
  by (simp_all add: pubsub_only_def frame_def)

lemma turn_rel_pubsub:
  assumes "local_ok c sv" and "pubsub_only sv sv'" and "pubsub_ok c' sv'"
    and "client_id c' = client_id c" and "others_same (client_id c) (sbroker sv) (sbroker sv')"
  shows "turn_rel c sv c' sv'"
  using assms by (auto simp: turn_rel_def local_ok_def pubsub_only_def frame_def)

lemma pubsub_only_subscribe_loop: "pubsub_only sv (fst (subscribe_loop chs c sv))"
proof (induction chs c sv rule: subscribe_loop.induct)
  case (2 ch rest c sv)
  show ?case
  proof (cases "length (client_subs c) \<ge> max_subscriptions")
    case False
    from pubsub_only_trans [OF pubsub_only_updates(2) 2 [OF False refl refl refl]] False
    show ?thesis by (simp add: Let_def)
  qed simp
qed simp

lemma pubsub_only_unsubscribe_loop: "pubsub_only sv (fst (unsubscribe_loop chs c sv))"
proof (induction chs c sv rule: unsubscribe_loop.induct)
  case (2 ch rest c sv)
  from pubsub_only_trans [OF pubsub_only_updates(2) 2 [OF refl refl refl]]
  show ?case by (simp add: Let_def)
qed simp

lemma pubsub_only_deliver:
  "pubsub_only sv (foldl (\<lambda>sv target. deliver ch payload target sv) sv targets)"
proof (induction targets arbitrary: sv)
  case (Cons x xs)
  from pubsub_only_trans [OF _ this, of sv "deliver ch payload x sv"]
  show ?case by (simp add: deliver_def)
qed simp

lemma turn_subscribe:
  assumes "local_ok c sv" and "cmd_subscribe c args sv = (sv', c', r)"
  shows "turn_rel c sv c' sv'"
proof (cases "args = []")
  case True
  then show ?thesis using assms by (simp add: cmd_subscribe_def turn_rel_refl)
next
  case False
  then have l: "subscribe_loop args c sv = (sv', c', r)" using assms(2) by (cases args) (simp_all add: cmd_subscribe_def)
  have ok: "pubsub_ok c sv" using assms(1) by (simp add: local_ok_def)
  show ?thesis
    using subscribe_loop_ok [OF ok l] pubsub_only_subscribe_loop [of sv args c] l assms(1)
    by (intro turn_rel_pubsub) auto
qed

lemma turn_unsubscribe:
  assumes "local_ok c sv" and "cmd_unsubscribe ord c args sv = (sv', c', r)"
  shows "turn_rel c sv c' sv'"
proof -
  have ok: "pubsub_ok c sv" using assms(1) by (simp add: local_ok_def)
  have "pubsub_only sv sv'"
    using assms(2) pubsub_only_unsubscribe_loop
    by (auto simp: cmd_unsubscribe_def Let_def case_prod_unfold split: if_splits)
  with cmd_unsubscribe_ok [OF ok assms(2)] assms(1) show ?thesis
    by (intro turn_rel_pubsub) auto
qed

lemma turn_publish:
  assumes "local_ok c sv"
  shows "turn_rel c sv c (fst (cmd_publish_result e args sv))"
proof -
  have "pubsub_only sv (fst (cmd_publish_result e args sv)) \<and>
      sbroker (fst (cmd_publish_result e args sv)) = sbroker sv"
    by (simp add: cmd_publish_eqs Let_def case_prod_unfold pubsub_only_deliver)
  then show ?thesis
    using assms by (intro turn_rel_pubsub) (auto simp: local_ok_def pubsub_ok_def)
qed

lemma cmd_auth_frame:
  "sstore (fst (cmd_auth_result e c args sv)) = sstore sv \<and> sbroker (fst (cmd_auth_result e c args sv)) = sbroker sv \<and>
   smetrics (fst (cmd_auth_result e c args sv)) = smetrics sv \<and> frame sv (fst (cmd_auth_result e c args sv)) \<and>
   client_id (fst (snd (cmd_auth_result e c args sv))) = client_id c \<and>
   client_subs (fst (snd (cmd_auth_result e c args sv))) = client_subs c"
  by (simp add: cmd_auth_eqs Let_def case_prod_unfold frame_def)

lemma turn_auth:
  assumes "local_ok c sv"
  shows "turn_rel c sv (fst (snd (cmd_auth_result e c args sv))) (fst (cmd_auth_result e c args sv))"
proof -
  have "frame sv (fst (cmd_auth_result e c args sv))" using cmd_auth_frame by blast
  then show ?thesis
    using assms cmd_auth_frame [of e c args sv] limiter_ok_auth [of sv e c args]
    by (simp add: turn_rel_def local_ok_def pubsub_ok_def subs_agree_def frame_def)
qed

definition yields :: "('a \<Rightarrow> bool) \<Rightarrow> 'a option \<Rightarrow> bool" where
  "yields P x \<longleftrightarrow> (\<exists>r. x = Some r \<and> P r)"

lemma yields_intros:
  "P r \<Longrightarrow> yields P (Some r)"
  "(b \<Longrightarrow> yields P x) \<Longrightarrow> (\<not> b \<Longrightarrow> yields P y) \<Longrightarrow> yields P (if b then x else y)"
  "i < length args \<Longrightarrow> yields P (f (args ! i)) \<Longrightarrow> yields P (Option.bind (arg_at args i) f)"
  by (simp_all add: yields_def)

lemma fst_in: "x \<in> S \<Longrightarrow> fst (x, y) \<in> S"
  by simp

lemma fst_if_in: "fst x \<in> S \<Longrightarrow> fst y \<in> S \<Longrightarrow> fst (if b then x else y) \<in> S"
  by simp

lemma fst_option_in:
  "fst x \<in> S \<Longrightarrow> (\<And>n. fst (f n) \<in> S) \<Longrightarrow> fst (case opt of None \<Rightarrow> x | Some n \<Rightarrow> f n) \<in> S"
  by (cases opt) simp_all

lemma cmd_slow_log_server:
  "fst (cmd_slow_log_result e args sv) \<in> {sv, on_metrics (\<lambda>m. m\<lparr>slow_log := []\<rparr>) sv}"
proof -
  have "yields (\<lambda>p. fst p \<in> {sv, on_metrics (\<lambda>m. m\<lparr>slow_log := []\<rparr>) sv}) (cmd_slow_log e args sv)"
    unfolding cmd_slow_log_def Let_def
    by (intro yields_intros fst_if_in fst_option_in fst_in insertI1 insertI2; linarith)
  then show ?thesis by (auto simp: yields_def cmd_slow_log_result_def)
qed

lemma turn_slow_log:
  assumes "local_ok c sv"
  shows "turn_rel c sv c (fst (cmd_slow_log_result e args sv))"
proof -
  show ?thesis
    using assms cmd_slow_log_server [of e args sv] by (auto simp: turn_rel_def local_ok_def frame_def pubsub_ok_def slow_log_ok_def)
qed

lemma if_eqE: "(if b then x else y) = z \<Longrightarrow> (x = z \<Longrightarrow> Q) \<Longrightarrow> (y = z \<Longrightarrow> Q) \<Longrightarrow> Q"
  by (simp split: if_splits)

text \<open>What routing can do to the server and the client, case by case.\<close>

lemma handle_command_cases:
  assumes "handle_command e c cmd sv = Some (sv', c', r)"
  obtains "to_upper (upper (cmd_env e)) (cmd_name cmd) = ''AUTH''"
      "sv' = fst (cmd_auth_result e c (cmd_args cmd) sv)" "c' = fst (snd (cmd_auth_result e c (cmd_args cmd) sv))"
      "r = Some (snd (snd (cmd_auth_result e c (cmd_args cmd) sv)))"
    | "sv' = sv" "c' = fst (cmd_hello_result c (cmd_args cmd) sv)"
    | "sv' = sv" "c' = fst (cmd_quit c (cmd_args cmd))"
    | "sv' = sv" "c' = c"
    | "sv' = fst (cmd_slow_log_result e (cmd_args cmd) sv)" "c' = c"
    | "cmd_subscribe c (cmd_args cmd) sv = (sv', c', r)"
    | "cmd_unsubscribe (map_order (cmd_env e)) c (cmd_args cmd) sv = (sv', c', r)"
    | "sv' = fst (cmd_publish_result e (cmd_args cmd) sv)" "c' = c"
    | reply where "dispatch_with_aof e cmd sv = Some (sv', reply)" "c' = c"
proof (cases "to_upper (upper (cmd_env e)) (cmd_name cmd) = ''AUTH''")
  case True
  then show thesis using assms that(1) by (auto simp: handle_command_eq Let_def case_prod_unfold)
next
  case False
  note not_auth = that(2-)
  show thesis
    using not_auth assms
    unfolding handle_command_eq Let_def case_prod_unfold if_not_P [OF False]
    apply (elim if_eqE)
    subgoal premises p by (rule p(1)) (use p(9) in auto)
    subgoal premises p by (rule p(2)) (use p(9) in auto)
    subgoal premises p by (rule p(3)) (use p(9) in auto)
    subgoal premises p by (rule p(3)) (use p(9) in auto)
    subgoal premises p by (rule p(3)) (use p(9) in auto)
    subgoal premises p by (rule p(3)) (use p(9) in auto)
    subgoal premises p by (rule p(3)) (use p(9) in auto)
    subgoal premises p by (rule p(3)) (use p(9) in auto)
    subgoal premises p by (rule p(3)) (use p(9) in auto)
    subgoal premises p by (rule p(3)) (use p(9) in auto)
    subgoal premises p by (rule p(4)) (use p(9) in auto)
    subgoal premises p by (rule p(5)) (use p(9) in auto)
    subgoal premises p by (rule p(6)) (use p(9) in auto)
    subgoal premises p by (rule p(7)) (use p(9) in auto)
    subgoal premises p using p(9) p(8) by (auto split: option.splits)
    done
qed

text \<open>Only \<open>AUTH\<close> touches the limiter.\<close>

lemma handle_command_limiter:
  assumes "handle_command e c cmd sv = Some (sv', c', r)"
  shows "sopts sv' = sopts sv \<and>
    (to_upper (upper (cmd_env e)) (cmd_name cmd) \<noteq> ''AUTH'' \<longrightarrow> slimit sv' = slimit sv)"
  using assms
proof (cases rule: handle_command_cases)
  case 1
  then show ?thesis using cmd_auth_frame [of e c "cmd_args cmd" sv] by (simp add: frame_def)
next
  case 5
  then show ?thesis using cmd_slow_log_server [of e "cmd_args cmd" sv] by auto
next
  case 6
  then have "pubsub_only sv sv'"
    using pubsub_only_subscribe_loop [of sv "cmd_args cmd" c]
    by (auto simp: cmd_subscribe_def pubsub_only_def frame_def split: if_splits list.splits)
  then show ?thesis by (simp add: pubsub_only_def frame_def)
next
  case 7
  then have "pubsub_only sv sv'"
    using pubsub_only_unsubscribe_loop
    by (auto simp: cmd_unsubscribe_def Let_def case_prod_unfold split: if_splits)
  then show ?thesis by (simp add: pubsub_only_def frame_def)
next
  case 8
  then show ?thesis
    using pubsub_only_deliver by (simp add: cmd_publish_eqs Let_def case_prod_unfold pubsub_only_def frame_def)
next
  case 9
  then show ?thesis using quiet_dispatch_with_aof [OF 9(1)] by (simp add: quiet_def frame_def)
qed simp_all

text \<open>Any command, whatever its name.\<close>

lemma turn_handle_command:
  assumes "senv_ok e" and "local_ok c sv" and "handle_command e c cmd sv = Some (sv', c', r)"
  shows "turn_rel c sv c' sv'"
  using assms(3)
proof (cases rule: handle_command_cases)
  case 1
  then show ?thesis using turn_auth [OF assms(2)] by simp
next
  case 2
  then show ?thesis using turn_rel_client [OF assms(2)] cmd_hello_frame by simp
next
  case 3
  then show ?thesis by (simp add: turn_rel_client [OF assms(2)] cmd_quit_def)
next
  case 4
  then show ?thesis using turn_rel_refl [OF assms(2)] by simp
next
  case 5
  then show ?thesis using turn_slow_log [OF assms(2)] by simp
next
  case 6
  then show ?thesis using turn_subscribe [OF assms(2)] by simp
next
  case 7
  then show ?thesis using turn_unsubscribe [OF assms(2)] by simp
next
  case 8
  then show ?thesis using turn_publish [OF assms(2)] by simp
next
  case 9
  then show ?thesis
    using turn_rel_quiet [OF assms(2) quiet_dispatch_with_aof [OF 9(1)]]
      wf_store_dispatch_with_aof [OF assms(1) _ 9(1)] assms(2) by (simp add: local_ok_def)
qed

lemma turn_observe:
  assumes "local_ok c sv"
  shows "turn_rel c sv c (observe_command e cmd r d sv)"
proof -
  have "frame sv (observe_command e cmd r d sv) \<and> sstore (observe_command e cmd r d sv) = sstore sv \<and>
      slimit (observe_command e cmd r d sv) = slimit sv \<and> sbroker (observe_command e cmd r d sv) = sbroker sv"
    by (simp add: observe_command_def frame_def push_slow_log_def Let_def case_prod_unfold)
  then show ?thesis
    using assms slow_log_ok_observe [of sv e cmd r d]
    by (simp add: turn_rel_def local_ok_def pubsub_ok_def frame_def)
qed

lemma turn_conn_step:
  assumes "senv_ok e" and "local_ok c sv" and "conn_step e fin inp c sv = (left, c', sv')"
  shows "turn_rel c sv c' sv'"
proof -
  have quiet_send: "turn_rel x s x (send y rep s)" if "local_ok x s" for x s y rep
    using that by (intro turn_rel_quiet) (auto simp: local_ok_def)
  have protocol: "turn_rel c sv c (send y rep (record_protocol_error sv))" for y rep
    using assms(2) quiet_trans [OF quiet_updates(6) quiet_updates(4)]
    by (intro turn_rel_quiet) (auto simp: local_ok_def record_protocol_error_def)
  have refl: "turn_rel c sv c sv" using turn_rel_refl [OF assms(2)] .
  show ?thesis
  proof (cases "resp_parse (upper (cmd_env e)) fin inp")
    case (Inl err)
    then show ?thesis
      using assms(3) refl protocol by (auto simp: conn_step_def split: if_splits)
  next
    case (Inr p)
    obtain cmd rest where p: "p = (cmd, rest)" by force
    show ?thesis
    proof (cases "handle_command e c cmd sv")
      case None
      then show ?thesis using assms(3) refl Inr p by (auto simp: conn_step_def split: if_splits)
    next
      case (Some q)
      obtain sv1 c1 r where q: "q = (sv1, c1, r)" by (cases q)
      let ?sv2 = "observe_command e cmd r (cmd_duration e) sv1"
      have h: "turn_rel c sv c1 ?sv2"
        using turn_handle_command [OF assms(1,2) Some [unfolded q]]
        by (meson turn_rel_def turn_rel_trans turn_observe)
      then have "turn_rel c sv c1 (send y rep ?sv2)" for y rep
        using turn_rel_trans [OF h quiet_send] by (simp add: turn_rel_def)
      then show ?thesis
        using assms(3) refl h Inr Some p q
        by (auto simp: conn_step_def Let_def split: if_splits option.splits)
    qed
  qed
qed

subsection \<open>Slots and counters\<close>

lemma slots_ok_frame:
  "frame sv sv' \<Longrightarrow> slots_ok sv n \<Longrightarrow> slots_ok sv' n"
  by (auto simp: frame_def slots_ok_def)

lemma accept_slots:
  assumes "accept_conn cid remote sv = (sv', Some c)" and "slots_ok sv n"
  shows "slots_ok sv' (Suc n)" and "c = new_client cid remote"
  using assms
  by (auto simp: accept_conn_def acquire_conn_slot_def track_conn_def slots_ok_def
      record_connection_accepted_def record_connection_rejected_def Let_def split: if_splits)

lemma refuse_slots:
  assumes "accept_conn cid remote sv = (sv', None)" and "slots_ok sv n"
  shows "slots_ok sv' n"
  using assms
  by (auto simp: accept_conn_def acquire_conn_slot_def track_conn_def release_conn_slot_def slots_ok_def
      record_connection_accepted_def record_connection_rejected_def record_connection_closed_def
      Let_def split: if_splits)

text \<open>What opening or closing a connection leaves alone.\<close>

definition same_data :: "server \<Rightarrow> server \<Rightarrow> bool" where
  "same_data sv sv' \<longleftrightarrow>
     sopts sv' = sopts sv \<and> sstore sv' = sstore sv \<and> slimit sv' = slimit sv \<and>
     slow_log (smetrics sv') = slow_log (smetrics sv) \<and>
     next_slow_id (smetrics sv') = next_slow_id (smetrics sv)"

lemma accept_same_data:
  "same_data sv (fst (accept_conn cid remote sv)) \<and>
   sbroker (fst (accept_conn cid remote sv)) = sbroker sv"
  by (simp add: accept_conn_def acquire_conn_slot_def track_conn_def release_conn_slot_def
      same_data_def record_connection_accepted_def record_connection_rejected_def
      record_connection_closed_def Let_def)

lemma unsubscribe_all_frame:
  "pubsub_only sv (unsubscribe_all ord c sv)"
proof -
  have "pubsub_only sv (foldl (\<lambda>sv ch. sv\<lparr>sbroker := fst (broker_unsubscribe x ch (sbroker sv))\<rparr>) sv chs)"
    for x chs
  proof (induction chs arbitrary: sv)
    case (Cons ch chs)
    from pubsub_only_trans [OF pubsub_only_updates(4) Cons] show ?case by simp
  qed simp
  then show ?thesis by (simp add: unsubscribe_all_def)
qed

lemma unsubscribe_all_only:
  "unsubscribe_all ord c sv = sv\<lparr>sbroker := sbroker (unsubscribe_all ord c sv)\<rparr>"
proof -
  let ?f = "\<lambda>sv ch. sv\<lparr>sbroker := fst (broker_unsubscribe (client_id c) ch (sbroker sv))\<rparr>"
  have "foldl ?f sv chs = sv\<lparr>sbroker := sbroker (foldl ?f sv chs)\<rparr>" for chs
  proof (induction chs arbitrary: sv)
    case (Cons ch chs)
    from Cons [of "?f sv ch"] show ?case by simp
  qed simp
  then show ?thesis by (simp add: unsubscribe_all_def)
qed

text \<open>All that the end of a connection does.\<close>

lemma conn_close_only:
  "conn_close ord c sv =
     sv\<lparr>sbroker := sbroker (unsubscribe_all ord c sv),
        slots_used := (if 0 < opt_max_connections (sopts sv) then slots_used sv - 1 else slots_used sv),
        active_conns := active_conns sv - 1,
        drained := (drained sv \<and> active_conns sv \<noteq> 1),
        smetrics := (smetrics sv)\<lparr>current_connections := current_connections (smetrics sv) - 1\<rparr>\<rparr>"
proof -
  obtain b where u: "unsubscribe_all ord c sv = sv\<lparr>sbroker := b\<rparr>" using unsubscribe_all_only by blast
  have "finish_conn (release_conn_slot sv) =
      sv\<lparr>slots_used := (if 0 < opt_max_connections (sopts sv) then slots_used sv - 1 else slots_used sv),
         active_conns := active_conns sv - 1, drained := (drained sv \<and> active_conns sv \<noteq> 1),
         smetrics := (smetrics sv)\<lparr>current_connections := current_connections (smetrics sv) - 1\<rparr>\<rparr>" for sv
    by (auto simp: finish_conn_def release_conn_slot_def record_connection_closed_def Let_def)
  from this [of "sv\<lparr>sbroker := b\<rparr>"] show ?thesis by (simp add: conn_close_def u)
qed

lemma finish_slots:
  assumes "slots_ok sv (Suc n)"
  shows "slots_ok (finish_conn (release_conn_slot sv)) n"
  using assms
  by (auto simp: finish_conn_def release_conn_slot_def slots_ok_def record_connection_closed_def Let_def)

lemma finish_same_data:
  "same_data sv (finish_conn (release_conn_slot sv)) \<and>
   sbroker (finish_conn (release_conn_slot sv)) = sbroker sv"
  by (simp add: finish_conn_def release_conn_slot_def same_data_def record_connection_closed_def Let_def)

subsection \<open>Every step keeps the invariant\<close>

lemma system_okI:
  assumes "same_data sv0 sv" and "wf_store (sstore sv0)" and "limiter_ok (slimit sv0)"
    and "slow_log_ok (nat (opt_slow_log_max_len (sopts sv0))) (smetrics sv0)"
    and "slots_ok sv (length conns)" and "clients_ok (sbroker sv) (map fst conns)"
  shows "system_ok (sv, conns)"
  using assms by (simp add: system_ok_def same_data_def slow_log_ok_def)

lemma system_okD:
  assumes "system_ok (sv, conns)"
  shows "wf_store (sstore sv)" and "limiter_ok (slimit sv)"
    and "slow_log_ok (nat (opt_slow_log_max_len (sopts sv))) (smetrics sv)"
    and "slots_ok sv (length conns)" and "clients_ok (sbroker sv) (map fst conns)"
  using assms by (simp_all add: system_ok_def)

lemma system_ok_local:
  assumes "system_ok (sv, conns)" and "k \<in> set conns"
  shows "local_ok (fst k) sv"
  using assms by (auto simp: system_ok_def local_ok_def clients_ok_def pubsub_ok_def)

lemma same_data_quiet: "quiet sv sv' \<Longrightarrow> same_data sv (sv'\<lparr>sstore := sstore sv\<rparr>)"
  by (simp add: quiet_def frame_def same_data_def)

lemma system_ok_quiet:
  assumes "system_ok (sv, conns)" and "quiet sv sv'" and "wf_store (sstore sv')"
  shows "system_ok (sv', conns)"
proof -
  have q: "frame sv sv'" "sbroker sv' = sbroker sv" "slimit sv' = slimit sv" "sopts sv' = sopts sv"
    "slow_log (smetrics sv') = slow_log (smetrics sv)"
    "next_slow_id (smetrics sv') = next_slow_id (smetrics sv)"
    using assms(2) by (simp_all add: quiet_def frame_def)
  note ok = system_okD [OF assms(1)]
  have "slots_ok sv' (length conns)" using slots_ok_frame [OF q(1) ok(4)] .
  moreover have "slow_log_ok (nat (opt_slow_log_max_len (sopts sv'))) (smetrics sv')"
    using ok(3) by (simp add: slow_log_ok_def q(4-6))
  ultimately show ?thesis using ok(2,5) assms(3) by (simp add: system_ok_def q(2,3))
qed

text \<open>Replacing one client after its turn, or dropping it after it left.\<close>

lemma client_ids:
  assumes "clients_ok b (before @ c # behind)" and "x \<in> set (before @ behind)"
  shows "client_id x \<noteq> client_id c"
proof -
  have "client_id c \<notin> client_id ` set (before @ behind)"
    using assms(1) by (auto simp: clients_ok_def)
  then show ?thesis using assms(2) by (metis image_eqI)
qed

lemma clients_ok_others:
  assumes "clients_ok b (before @ c # behind)" and "others_same (client_id c) b b'"
    and "x \<in> set (before @ behind)"
  shows "subs_agree x b' \<and> length (client_subs x) \<le> max_subscriptions"
proof -
  have "subs_agree x b \<and> length (client_subs x) \<le> max_subscriptions"
    using assms(1,3) by (auto simp: clients_ok_def)
  moreover have "client_id x \<in> subscribers b' ch \<longleftrightarrow> client_id x \<in> subscribers b ch" for ch
    using assms(2) client_ids [OF assms(1,3)] by (simp add: others_same_def)
  ultimately show ?thesis by (simp add: subs_agree_def)
qed

lemma clients_ok_turn:
  assumes "clients_ok b (before @ c # behind)" and "client_id c' = client_id c"
    and "others_same (client_id c) b b'" and "wf_broker b'" and "subs_agree c' b'"
    and "length (client_subs c') \<le> max_subscriptions"
  shows "clients_ok b' (before @ c' # behind)"
proof -
  have "subscribers b' ch \<subseteq> client_id ` set (before @ c' # behind)" for ch
  proof
    fix y assume y: "y \<in> subscribers b' ch"
    have "y \<in> client_id ` set (before @ c # behind)" if "y \<noteq> client_id c"
      using assms(1,3) y that by (auto simp: clients_ok_def others_same_def)
    then show "y \<in> client_id ` set (before @ c' # behind)" using assms(2) by auto
  qed
  moreover have "distinct (map client_id (before @ c' # behind))"
    using assms(1,2) by (simp add: clients_ok_def)
  ultimately show ?thesis
    using clients_ok_others [OF assms(1,3)] assms(4-6) by (auto simp: clients_ok_def)
qed

lemma clients_ok_leave:
  assumes "clients_ok b (before @ c # behind)" and "wf_broker b'"
    and gone: "\<And>ch. subscribers b' ch = subscribers b ch - {client_id c}"
  shows "clients_ok b' (before @ behind)"
proof -
  have "others_same (client_id c) b b'" by (simp add: others_same_def gone)
  note others = clients_ok_others [OF assms(1) this]
  have "subscribers b' ch \<subseteq> client_id ` set (before @ behind)" for ch
    using assms(1) unfolding gone by (auto simp: clients_ok_def)
  moreover have "distinct (map client_id (before @ behind))"
    using assms(1) by (simp add: clients_ok_def)
  ultimately show ?thesis using others assms(2) by (auto simp: clients_ok_def)
qed

lemma clients_ok_accept:
  assumes "clients_ok b cs" and "cid \<notin> set (map client_id cs)"
  shows "clients_ok b (cs @ [new_client cid remote])"
  using assms by (fastforce simp: clients_ok_def subs_agree_def new_client_def)

lemma system_ok_turn:
  assumes "system_ok (sv, before @ (c, inp) # behind)" and "turn_rel c sv c' sv'"
  shows "system_ok (sv', before @ (c', rest) # behind)"
proof -
  have l: "frame sv sv'" "local_ok c' sv'" using assms(2) by (simp_all add: turn_rel_def)
  note ok = system_okD [OF assms(1)]
  have p: "client_id c' = client_id c" "others_same (client_id c) (sbroker sv) (sbroker sv')"
    "wf_broker (sbroker sv')" "subs_agree c' (sbroker sv')"
    "length (client_subs c') \<le> max_subscriptions"
    using assms(2) by (simp_all add: turn_rel_def local_ok_def pubsub_ok_def)
  have "clients_ok (sbroker sv) (map fst before @ c # map fst behind)" using ok(5) by simp
  from clients_ok_turn [OF this p]
  have "clients_ok (sbroker sv') (map fst (before @ (c', rest) # behind))" by simp
  moreover have "slots_ok sv' (length (before @ (c', rest) # behind))"
    using slots_ok_frame [OF l(1) ok(4)] by simp
  ultimately show ?thesis using l(2) by (simp add: system_ok_def local_ok_def)
qed

lemma system_ok_leave:
  assumes "system_ok (sv, before @ (c, inp) # behind)" and "valid_order ord"
  shows "system_ok (conn_close ord c sv, before @ behind)"
proof -
  let ?sv = "unsubscribe_all ord c sv"
  have c: "pubsub_ok c sv" using system_ok_local [OF assms(1), of "(c, inp)"] by (simp add: local_ok_def)
  note u = unsubscribe_all_frame [of sv ord c]
  have "same_data sv (conn_close ord c sv)" "sbroker (conn_close ord c sv) = sbroker ?sv"
    using u finish_same_data [of ?sv]
    by (simp_all add: conn_close_def same_data_def pubsub_only_def frame_def)
  moreover have "slots_ok (conn_close ord c sv) (length (before @ behind))"
    using finish_slots [of ?sv] slots_ok_frame [of sv ?sv] u system_okD(4) [OF assms(1)]
    by (simp add: conn_close_def pubsub_only_def)
  moreover have "clients_ok (sbroker ?sv) (map fst (before @ behind))"
    using clients_ok_leave [of "sbroker sv" "map fst before" c "map fst behind" "sbroker ?sv"]
      unsubscribe_all_gone [OF c assms(2)] system_okD(5) [OF assms(1)] by simp
  ultimately show ?thesis using system_okD(1-3) [OF assms(1)] by (intro system_okI) simp_all
qed

lemma server_save_ok:
  assumes "senv_ok e" and "wf_store (sstore sv)"
  shows "quiet sv (fst (server_save e sv)) \<and> wf_store (sstore (fst (server_save e sv)))"
proof -
  have ords: "\<And>i. valid_order (shard_order (cmd_env e) i)" using assms(1) by (simp add: senv_ok_def)
  have "wf_store (fst (store_snapshot (shard_order (cmd_env e)) (\<lambda>_. map_order (cmd_env e))
      (save_clock e) (sstore sv)))"
    using wf_store_thinned [OF assms(2) thinned_store_snapshot [OF assms(2) ords]] .
  then show ?thesis
    using assms(2)
    by (auto simp: server_save_def snapshot_save_def record_snapshot_def quiet_def frame_def Let_def
        case_prod_unfold split: option.split)
qed

lemma system_ok_accept:
  assumes "system_ok (sv, conns)" and "accept_conn cid remote sv = (sv', Some c)"
    and "cid \<notin> set (map conn_id conns)"
  shows "system_ok (sv', conns @ [(c, inp)])"
proof -
  have d: "same_data sv sv'" "sbroker sv' = sbroker sv"
    using accept_same_data [of sv cid remote] assms(2) by simp_all
  note s = accept_slots [OF assms(2) system_okD(4) [OF assms(1)]]
  have "clients_ok (sbroker sv') (map fst (conns @ [(c, inp)]))"
    using clients_ok_accept [of "sbroker sv" "map fst conns" cid remote] system_okD(5) [OF assms(1)]
      assms(3) d(2) s(2) by (simp add: image_image)
  then show ?thesis
    using d(1) s(1) system_okD(1-3) [OF assms(1)] by (intro system_okI) simp_all
qed

lemma system_ok_refuse:
  assumes "system_ok (sv, conns)" and "accept_conn cid remote sv = (sv', None)"
  shows "system_ok (sv', conns)"
proof -
  have "same_data sv sv'" "sbroker sv' = sbroker sv"
    using accept_same_data [of sv cid remote] assms(2) by simp_all
  then show ?thesis
    using refuse_slots [OF assms(2) system_okD(4) [OF assms(1)]] system_okD(1-3,5) [OF assms(1)]
    by (intro system_okI) simp_all
qed

lemma system_ok_step:
  assumes "server_step st st'" and "system_ok st"
  shows "system_ok st'"
  using assms
proof (cases rule: server_step.cases)
  case (accept cid conns remote sv sv' c inp)
  then show ?thesis using system_ok_accept [of sv conns cid remote sv' c inp] assms(2) by simp
next
  case (refuse cid conns remote sv sv')
  then show ?thesis using system_ok_refuse [of sv conns cid remote sv'] assms(2) by simp
next
  case (turn e fin inp c sv rest c' sv' before behind)
  note ok = assms(2) [unfolded turn(1)]
  have "local_ok c sv" using system_ok_local [OF ok, of "(c, inp)"] by simp
  then show ?thesis
    unfolding turn(2) using system_ok_turn [OF ok turn_conn_step [OF turn(3) _ turn(4)]] by blast
next
  case (leave e ord fin inp c sv c' sv' before behind)
  note ok = assms(2) [unfolded leave(1)]
  have "local_ok c sv" using system_ok_local [OF ok, of "(c, inp)"] by simp
  then show ?thesis
    unfolding leave(2)
    using system_ok_leave [OF system_ok_turn [OF ok turn_conn_step [OF leave(3) _ leave(5)]] leave(4)]
    by blast
next
  case (expire ords sv conns nows)
  note ok = assms(2) [unfolded expire(1)]
  have "wf_store (active_expire_cycle ords nows (sstore sv))"
    using wf_store_cycle expire(3) system_okD(1) [OF ok] by blast
  then show ?thesis unfolding expire(2) by (intro system_ok_quiet [OF ok]) simp_all
next
  case (save e sv conns)
  note ok = assms(2) [unfolded save(1)]
  show ?thesis
    unfolding save(2) using server_save_ok [OF save(3) system_okD(1) [OF ok]]
    by (intro system_ok_quiet [OF ok]) simp_all
next
  case (shutdown sv conns)
  then show ?thesis
    using assms(2) by (simp add: system_ok_def begin_closing_def slots_ok_def)
qed

lemma reachable_system_ok:
  assumes "reachable start st" and "system_ok start"
  shows "system_ok st"
  using assms by (induction rule: reachable.induct) (auto intro: system_ok_step)

text \<open>A server that has just started has the invariant, with no connection.\<close>

lemma system_ok_start:
  assumes "wf_store (sstore sv)" and "sbroker sv = new_broker" and "slimit sv = new_auth_limiter"
    and "smetrics sv = new_metrics now" and "slots_used sv = 0" and "active_conns sv = 0"
    and "\<not> drained sv" and "0 \<le> opt_max_connections (sopts sv)"
  shows "system_ok (sv, [])"
  using assms by (simp add: system_ok_def slots_ok_def clients_ok_def new_metrics_def slow_log_ok_def)

end
