(* ===== verification/Command_Memory.thy ===== *)
theory Command_Memory
  imports Server_Aof
begin

section \<open>How much a command can grow the store\<close>

text \<open>
  The bound behind the server's memory limit (\<open>internal/server/aof.go\<close>): no handler grows the
  byte count of the store by more than \<open>estimatedGrowth\<close> says, and the commands that are not
  logged do not grow it at all. The locale \<open>mem_cmd\<close> is the contract of a handler; its bound
  \<open>G\<close> is a function of the arguments. \<open>SET\<close> and \<open>MSET\<close> also take off what they replace,
  which is exact when no key repeats.
\<close>

subsection \<open>Operations of the store\<close>

definition wf_entry :: "entry option \<Rightarrow> bool" where
  "wf_entry eo \<longleftrightarrow> (\<forall>e. eo = Some e \<longrightarrow> wf_value (evalue e))"

lemma wf_entry_live: "wf_store s \<Longrightarrow> wf_entry (live_at now (lookup s k))"
  using wf_store_lookup_value [of s k] by (auto simp: wf_entry_def dest!: live_at_SomeD)

lemma opt_memory_live: "opt_memory k (live_at now eo) \<le> opt_memory k eo"
  by (simp add: live_at_def split: option.split)

lemma approx_memory_on_shard:
  assumes "wf_store s"
  shows "approx_memory (fst (on_shard key f s))
    = approx_memory s + (used_memory (fst (f (shards s ! shard_index s key)))
                         - used_memory (shards s ! shard_index s key))"
  using shard_index_less [OF assms, of key]
  by (simp add: approx_memory_def foldl_add_sum_list shards_on_shard map_update sum_list_update_int)

context exact_op
begin

lemma grows_by:
  assumes "wf_store s" and "\<And>eo. wf_entry eo \<Longrightarrow> opt_memory key (fst (spec eo)) \<le> opt_memory key eo + g"
  shows "approx_memory (fst (on_shard key f s)) \<le> approx_memory s + g"
  using approx_memory_op [OF assms(1)] assms(2) [OF wf_entry_live [OF assms(1), of now key]]
    opt_memory_live [of key now "lookup s key"] by simp

end

context kv_read
begin

lemma never_grows: "wf_store s \<Longrightarrow> approx_memory (fst (on_shard key f s)) \<le> approx_memory s"
  using grows_by [of s 0] by (simp add: spec_read)

end

lemma length_dec_digits: "n < 10 ^ Suc k \<Longrightarrow> length (dec_digits n) \<le> Suc k"
proof (induction k arbitrary: n)
  case 0
  then show ?case by (subst dec_digits.simps) simp
next
  case (Suc k)
  have "n div 10 < 10 ^ Suc k" using Suc.prems by (simp add: less_mult_imp_div_less)
  from Suc.IH [OF this] show ?case by (subst dec_digits.simps) simp
qed

lemma length_format_int:
  assumes "in_i64 n"
  shows "length (format_int n) \<le> 32"
proof -
  have "nat n < 10 ^ Suc 30" "nat (- n) < 10 ^ Suc 30"
    using assms by (cases "n < 0"; simp add: in_i64_def nat_less_iff)+
  from length_dec_digits [OF this(1)] length_dec_digits [OF this(2)]
  show ?thesis by (simp add: format_int_def)
qed

abbreviation sizes :: "bytes list \<Rightarrow> int" where
  "sizes xs \<equiv> sum_list (map (\<lambda>x. int (length x)) xs)"

lemma sizes_nonneg [simp]: "0 \<le> sizes xs"
  by (rule sum_list_nonneg) auto

lemma sizes_tl: "sizes (tl l) \<le> sizes l"
  by (cases l) auto

lemma sizes_butlast: "sizes (butlast l) \<le> sizes l"
  by (cases l rule: rev_cases) auto

lemma sizes_rev [simp]: "sizes (rev l) = sizes l"
  by (induction l) auto

lemmas entry_shapes = string_entry_def list_entry_def hash_entry_def set_entry_of_def

lemma string_growth:
  "opt_memory k (Some (string_entry v at)) \<le> opt_memory k eo + (int (length k) + int (length v))"
  "opt_memory k (fst (spec_set_nx v eo)) \<le> opt_memory k eo + (int (length k) + int (length v))"
  "opt_memory k (fst (spec_expire_at at eo)) \<le> opt_memory k eo + 0"
  "opt_memory k (fst (spec_persist eo)) \<le> opt_memory k eo + 0"
  using opt_memory_nonneg [of k eo]
  by (simp_all add: entry_shapes entry_approx_memory_def)
     (cases eo; simp add: entry_shapes entry_approx_memory_def)+

lemma push_growth:
  assumes "\<And>l. sizes (g l) = sizes l + sizes vals"
  shows "opt_memory k (fst (spec_push g eo)) \<le> opt_memory k eo + (int (length k) + sizes vals)"
  using assms
  by (cases eo) (simp_all add: entry_shapes entry_approx_memory_def split: gvalue.split)

lemma pop_growth:
  assumes "\<And>l. sizes (g l) \<le> sizes l"
  shows "opt_memory k (fst (spec_pop h g eo)) \<le> opt_memory k eo + 0"
proof (cases eo)
  case (Some e)
  then show ?thesis
    using assms by (cases "evalue e") (simp_all add: entry_approx_memory_def)
qed simp

lemma incr_growth:
  assumes "in_i64 d"
  shows "opt_memory k (fst (spec_incr_by d eo)) \<le> opt_memory k eo + (int (length k) + 32)"
proof -
  have len: "int (length (format_int n)) \<le> 32" if "in_i64 n" for n
    using length_format_int [OF that] by simp
  show ?thesis
  proof (cases eo)
    case None
    then show ?thesis using len [OF assms] by (simp add: entry_shapes entry_approx_memory_def)
  next
    case (Some e)
    have "entry_approx_memory k (e\<lparr>evalue := VString (format_int n)\<rparr>)
        \<le> entry_approx_memory k e + (int (length k) + 32)" if "in_i64 n" for n
      using len [OF that] value_approx_memory_nonneg [of "evalue e"]
      by (simp add: entry_approx_memory_def del: value_approx_memory_nonneg)
    with Some show ?thesis by (simp split: gvalue.split option.split)
  qed
qed

lemma hset_growth:
  assumes "wf_entry eo"
  shows "opt_memory k (fst (spec_hset field val eo))
    \<le> opt_memory k eo + (int (length k) + int (length field) + int (length val))"
proof (cases eo)
  case (Some e)
  have le: "map_sum (\<lambda>f item. int (length f + length item)) (AList.update field val h)
      \<le> map_sum (\<lambda>f item. int (length f + length item)) h + int (length field) + int (length val)"
    if "wf_map h" for h :: "bytes gomap"
    using that by (simp add: map_sum_update split: option.split)
  show ?thesis
  proof (cases "evalue e")
    case (VHash h)
    then show ?thesis
      using Some assms le [of h] by (simp add: entry_approx_memory_def wf_entry_def)
  qed (simp_all add: Some)
qed (simp add: entry_shapes entry_approx_memory_def)

lemma sadd_growth:
  "opt_memory k (fst (spec_sadd members eo)) \<le> opt_memory k eo + (int (length k) + sizes members)"
proof (cases eo)
  case None
  then show ?thesis
    using sadd_loop_size_le [of members "[]" 0]
    by (simp add: entry_shapes entry_approx_memory_def case_prod_unfold Let_def)
next
  case (Some e)
  show ?thesis
  proof (cases "evalue e")
    case (VSet ms)
    then show ?thesis
      using Some sadd_loop_size_le [of members ms 0]
      by (simp add: entry_approx_memory_def case_prod_unfold Let_def)
  qed (simp_all add: Some)
qed

text \<open>Removing members or fields never adds to the count, even when it leaks.\<close>

lemma used_memory_live_entry: "used_memory (fst (live_entry key now sh)) \<le> used_memory sh"
  by (simp add: live_entry_def delete_entry_def bump_expired_def split: option.split)

lemma used_memory_delete_entry: "used_memory (fst (delete_entry key sh)) \<le> used_memory sh"
  by (simp add: delete_entry_def split: option.split)

lemma used_memory_put [simp]: "used_memory (put_entry key e sh) = used_memory sh"
  by (simp add: put_entry_def)

lemma used_memory_refresh:
  "map_of (sdata sh) key = Some e' \<Longrightarrow> entry_approx_memory key e' \<le> before \<Longrightarrow>
   used_memory (refresh_entry_memory key before sh) \<le> used_memory sh"
  by (simp add: refresh_entry_memory_def)

lemma removal_never_grows:
  assumes "wf_shard sh" and "live_at now (map_of (sdata sh) key) = Some e"
    and "entry_approx_memory key e' \<le> entry_approx_memory key e"
  shows "used_memory (fst (delete_entry key (put_entry key e' (fst (live_entry key now sh))))) \<le> used_memory sh"
    and "used_memory (refresh_entry_memory key (entry_approx_memory key e)
           (put_entry key e' (fst (live_entry key now sh)))) \<le> used_memory sh"
  using used_memory_delete_entry [of key "put_entry key e' (fst (live_entry key now sh))"]
    used_memory_refresh [of "put_entry key e' (fst (live_entry key now sh))" key e' "entry_approx_memory key e"]
    used_memory_live_entry [of key now sh] assms(3) by simp_all

lemma hdel_never_grows:
  assumes "wf_store s"
  shows "approx_memory (fst (on_shard key (sh_hdel key flds now) s)) \<le> approx_memory s"
proof -
  let ?sh = "shards s ! shard_index s key"
  have wf: "wf_shard ?sh" using assms by simp
  note mem = hdel_entry_memory_le [OF wf]
  have "used_memory (fst (sh_hdel key flds now ?sh)) \<le> used_memory ?sh"
    using removal_never_grows [OF wf] mem used_memory_live_entry
    by (auto simp: sh_hdel_def Let_def case_prod_unfold split: option.split gvalue.split)
  then show ?thesis by (simp add: approx_memory_on_shard [OF assms])
qed

lemma srem_never_grows:
  assumes "wf_store s"
  shows "approx_memory (fst (on_shard key (sh_srem key members now) s)) \<le> approx_memory s"
proof -
  let ?sh = "shards s ! shard_index s key"
  have wf: "wf_shard ?sh" using assms by simp
  have mem: "entry_approx_memory key (e\<lparr>evalue := VSet (fst (srem_loop members ms n))\<rparr>)
      \<le> entry_approx_memory key e" if "evalue e = VSet ms" for e ms n
    using srem_loop_size_le [of members ms n] that by (simp add: entry_approx_memory_def)
  have "used_memory (fst (sh_srem key members now ?sh)) \<le> used_memory ?sh"
    using removal_never_grows [OF wf] mem used_memory_live_entry
    by (auto simp: sh_srem_def Let_def case_prod_unfold split: option.split gvalue.split)
  then show ?thesis by (simp add: approx_memory_on_shard [OF assms])
qed

subsection \<open>Handlers\<close>

locale mem_cmd = store_cmd h
  for h :: handler +
  fixes G :: "bytes list \<Rightarrow> int"
  assumes grows: "wf_store s \<Longrightarrow> approx_memory (fst (run h env args s)) \<le> approx_memory s + G args"

lemma write_grows:
  assumes "wf_store s"
  shows "approx_memory (fst (on_shard key (sh_set key val) s))
      \<le> approx_memory s + (int (length key) + int (length val))"
    and "approx_memory (fst (on_shard key (sh_set_ex key val at) s))
      \<le> approx_memory s + (int (length key) + int (length val))"
    and "approx_memory (fst (on_shard key (sh_set_nx key val now) s))
      \<le> approx_memory s + (int (length key) + int (length val))"
    and "approx_memory (fst (on_shard key (sh_lpush key vals now) s))
      \<le> approx_memory s + (int (length key) + sizes vals)"
    and "approx_memory (fst (on_shard key (sh_rpush key vals now) s))
      \<le> approx_memory s + (int (length key) + sizes vals)"
    and "approx_memory (fst (on_shard key (sh_sadd key vals now) s))
      \<le> approx_memory s + (int (length key) + sizes vals)"
    and "approx_memory (fst (on_shard key (sh_hset key field val now) s))
      \<le> approx_memory s + (int (length key) + int (length field) + int (length val))"
  subgoal by (rule set.grows_by [OF assms]) (simp only: string_growth fst_conv)
  subgoal by (rule set_ex.grows_by [OF assms]) (simp only: string_growth fst_conv)
  subgoal by (rule set_nx.grows_by [OF assms]) (simp only: string_growth)
  subgoal by (rule lpush.grows_by [OF assms]) (rule push_growth, simp)
  subgoal by (rule rpush.grows_by [OF assms]) (rule push_growth, simp)
  subgoal by (rule sadd.grows_by [OF assms]) (rule sadd_growth)
  subgoal by (rule hset.grows_by [OF assms]) (rule hset_growth)
  done

lemma rest_never_grows:
  assumes "wf_store s"
  shows "approx_memory (fst (on_shard key (sh_expire_at key at now) s)) \<le> approx_memory s + 0"
    and "approx_memory (fst (on_shard key (sh_persist key now) s)) \<le> approx_memory s + 0"
    and "approx_memory (fst (on_shard key (sh_lpop key now) s)) \<le> approx_memory s + 0"
    and "approx_memory (fst (on_shard key (sh_rpop key now) s)) \<le> approx_memory s + 0"
  using assms
  by (intro expire_at.grows_by persist.grows_by lpop.grows_by rpop.grows_by string_growth pop_growth
      sizes_tl sizes_butlast; assumption)+

lemmas op_grows =
  write_grows rest_never_grows [simplified] hdel_never_grows srem_never_grows
  get.never_grows present.never_grows ttl.never_grows type_op.never_grows llen.never_grows
  lrange.never_grows hget.never_grows hgetall.never_grows hlen.never_grows
  sismember.never_grows smembers.never_grows scard.never_grows

lemma del_never_grows: "wf_store s \<Longrightarrow> approx_memory (fst (on_shard key (sh_del key now) s)) \<le> approx_memory s"
  using del.grows_by [of s key 0 now] by simp

lemma incr_grows:
  assumes "wf_store s" and "in_i64 d"
  shows "approx_memory (fst (on_shard key (sh_incr_by key d now) s)) \<le> approx_memory s + (int (length key) + 32)"
  using incr_by.grows_by [OF assms(1), of key d "int (length key) + 32" now] incr_growth [OF assms(2)]
    assms(2) by simp

lemma del_loop_never_grows:
  "wf_store s \<Longrightarrow> approx_memory (fst (del_loop env i as n s)) \<le> approx_memory s"
proof (induction env i as n s rule: del_loop.induct)
  case (2 env i a as n s)
  let ?r = "store_del a (clock env i) s"
  have "wf_store (fst ?r)" using 2(2) by (simp add: store_defs store_wf)
  from 2(1) [OF refl prod.collapse this]
  show ?case
    using del_never_grows [OF 2(2), of a "clock env i"]
    by (simp add: case_prod_unfold Let_def store_defs)
qed simp

lemma mget_loop_never_grows:
  "wf_store s \<Longrightarrow> approx_memory (fst (mget_loop env i as s)) \<le> approx_memory s"
proof (induction as arbitrary: i s)
  case (Cons a as)
  have "wf_store (fst (store_get a (clock env i) s))" using Cons(2) by (simp add: store_defs store_wf)
  from Cons(1) [OF this, of "Suc i"] get.never_grows [OF Cons(2), of a "clock env i"]
  show ?case by (simp add: case_prod_unfold Let_def store_defs)
qed simp

lemma mset_sets_grows:
  "wf_store s \<Longrightarrow> approx_memory (mset_sets args s) \<le> approx_memory s + sizes args"
proof (induction args s rule: mset_sets.induct)
  case (1 k v rest s)
  have "wf_store (store_set k v s)" using 1(2) by (simp add: store_defs store_wf)
  from 1(1) [OF this] write_grows(1) [OF 1(2), of k v]
  show ?case by (simp add: store_defs)
qed simp_all

lemmas mem_simps =
  cmd_defs store_defs op_grows del_never_grows del_loop_never_grows mget_loop_never_grows
  mset_sets_grows case_prod_unfold Let_def

text \<open>The bounds that are not zero, as \<open>estimatedGrowth\<close> has them.\<close>

definition pair_size :: "bytes list \<Rightarrow> int" where
  "pair_size args = (if length args < 2 then 0 else int (length (args ! 0) + length (args ! 1)))"

definition counter_size :: "nat \<Rightarrow> bytes list \<Rightarrow> int" where
  "counter_size n args = (if length args \<noteq> n then 0 else int (length (args ! 0) + 32))"

lemma sizes_pick: "\<not> length args < 2 \<Longrightarrow> sizes args = int (length (args ! 0)) + sizes (tl args)"
  by (cases args) simp_all

lemma sizes_pick3: "length args = 3 \<Longrightarrow>
    sizes args = int (length (args ! 0)) + int (length (args ! 1)) + int (length (args ! 2))"
  by (cases args; cases "tl args"; cases "tl (tl args)") auto

interpretation ping: mem_cmd cmd_ping "\<lambda>_. 0"
  by unfold_locales (simp add: mem_simps)
interpretation get_cmd: mem_cmd cmd_get "\<lambda>_. 0"
  by unfold_locales (simp add: mem_simps)
interpretation del_cmd: mem_cmd cmd_del "\<lambda>_. 0"
  by unfold_locales (simp add: mem_simps)
interpretation exists_cmd: mem_cmd cmd_exists "\<lambda>_. 0"
  by unfold_locales (simp add: mem_simps)
interpretation expire_cmd: mem_cmd cmd_expire "\<lambda>_. 0"
  by unfold_locales (simp add: mem_simps split: cmd_split)
interpretation pexpireat_cmd: mem_cmd cmd_pexpireat "\<lambda>_. 0"
  by unfold_locales (simp add: mem_simps split: cmd_split)
interpretation ttl_cmd: mem_cmd cmd_ttl "\<lambda>_. 0"
  by unfold_locales (simp add: mem_simps)
interpretation persist_cmd: mem_cmd cmd_persist "\<lambda>_. 0"
  by unfold_locales (simp add: mem_simps)
interpretation type_cmd: mem_cmd cmd_type "\<lambda>_. 0"
  by unfold_locales (simp add: mem_simps)
interpretation keys_cmd: mem_cmd cmd_keys "\<lambda>_. 0"
  by unfold_locales (simp add: mem_simps split: cmd_split)
interpretation dbsize_cmd: mem_cmd cmd_dbsize "\<lambda>_. 0"
  by unfold_locales (simp add: mem_simps)
interpretation flushall_cmd: mem_cmd cmd_flushall "\<lambda>_. 0"
  by unfold_locales (simp add: mem_simps)
interpretation hget_cmd: mem_cmd cmd_hget "\<lambda>_. 0"
  by unfold_locales (simp add: mem_simps)
interpretation hdel_cmd: mem_cmd cmd_hdel "\<lambda>_. 0"
  by unfold_locales (simp add: mem_simps)
interpretation hgetall_cmd: mem_cmd cmd_hgetall "\<lambda>_. 0"
  by unfold_locales (simp add: mem_simps)
interpretation hlen_cmd: mem_cmd cmd_hlen "\<lambda>_. 0"
  by unfold_locales (simp add: mem_simps)
interpretation lpop_cmd: mem_cmd cmd_lpop "\<lambda>_. 0"
  by unfold_locales (simp add: mem_simps)
interpretation rpop_cmd: mem_cmd cmd_rpop "\<lambda>_. 0"
  by unfold_locales (simp add: mem_simps)
interpretation llen_cmd: mem_cmd cmd_llen "\<lambda>_. 0"
  by unfold_locales (simp add: mem_simps)
interpretation lrange_cmd: mem_cmd cmd_lrange "\<lambda>_. 0"
  by unfold_locales (simp add: mem_simps split: cmd_split)
interpretation srem_cmd: mem_cmd cmd_srem "\<lambda>_. 0"
  by unfold_locales (simp add: mem_simps)
interpretation sismember_cmd: mem_cmd cmd_sismember "\<lambda>_. 0"
  by unfold_locales (simp add: mem_simps)
interpretation smembers_cmd: mem_cmd cmd_smembers "\<lambda>_. 0"
  by unfold_locales (simp add: mem_simps)
interpretation scard_cmd: mem_cmd cmd_scard "\<lambda>_. 0"
  by unfold_locales (simp add: mem_simps)
interpretation mget_cmd: mem_cmd cmd_mget "\<lambda>_. 0"
  by unfold_locales (simp add: mem_simps)

interpretation set_cmd: mem_cmd cmd_set pair_size
  using write_grows(2) by unfold_locales (simp add: mem_simps pair_size_def split: cmd_split)
interpretation setnx_cmd: mem_cmd cmd_setnx pair_size
  using write_grows(3) by unfold_locales (simp add: mem_simps pair_size_def)
interpretation mset_cmd: mem_cmd cmd_mset sizes
  by unfold_locales (simp add: mem_simps)
interpretation lpush_cmd: mem_cmd cmd_lpush sizes
  by unfold_locales (auto simp: mem_simps sizes_pick)
interpretation rpush_cmd: mem_cmd cmd_rpush sizes
  by unfold_locales (auto simp: mem_simps sizes_pick)
interpretation sadd_cmd: mem_cmd cmd_sadd sizes
  by unfold_locales (auto simp: mem_simps sizes_pick)
interpretation hset_cmd: mem_cmd cmd_hset sizes
  by unfold_locales (simp add: mem_simps sizes_pick3)
interpretation incr_cmd: mem_cmd cmd_incr "counter_size 1"
  by unfold_locales (simp add: mem_simps incr_grows counter_size_def)
interpretation decr_cmd: mem_cmd cmd_decr "counter_size 1"
  by unfold_locales (simp add: mem_simps incr_grows counter_size_def)
interpretation incrby_cmd: mem_cmd cmd_incrby "counter_size 2"
  by unfold_locales
     (auto simp: mem_simps counter_size_def intro: incr_grows dest: parse_int_range split: cmd_split)
interpretation decrby_cmd: mem_cmd cmd_decrby "counter_size 2"
  by unfold_locales (auto simp: mem_simps counter_size_def intro: incr_grows split: cmd_split)

lemmas grow_contracts =
  ping.mem_cmd_axioms get_cmd.mem_cmd_axioms del_cmd.mem_cmd_axioms exists_cmd.mem_cmd_axioms
  expire_cmd.mem_cmd_axioms pexpireat_cmd.mem_cmd_axioms ttl_cmd.mem_cmd_axioms
  persist_cmd.mem_cmd_axioms type_cmd.mem_cmd_axioms keys_cmd.mem_cmd_axioms
  dbsize_cmd.mem_cmd_axioms flushall_cmd.mem_cmd_axioms hget_cmd.mem_cmd_axioms
  hdel_cmd.mem_cmd_axioms hgetall_cmd.mem_cmd_axioms hlen_cmd.mem_cmd_axioms
  lpop_cmd.mem_cmd_axioms rpop_cmd.mem_cmd_axioms llen_cmd.mem_cmd_axioms
  lrange_cmd.mem_cmd_axioms srem_cmd.mem_cmd_axioms sismember_cmd.mem_cmd_axioms
  smembers_cmd.mem_cmd_axioms scard_cmd.mem_cmd_axioms mget_cmd.mem_cmd_axioms
  set_cmd.mem_cmd_axioms setnx_cmd.mem_cmd_axioms mset_cmd.mem_cmd_axioms
  lpush_cmd.mem_cmd_axioms rpush_cmd.mem_cmd_axioms sadd_cmd.mem_cmd_axioms
  hset_cmd.mem_cmd_axioms incr_cmd.mem_cmd_axioms decr_cmd.mem_cmd_axioms
  incrby_cmd.mem_cmd_axioms decrby_cmd.mem_cmd_axioms

text \<open>Every handler grows the store by at most what the server estimates from the arguments.\<close>

lemma command_growth_cases:
  "command_growth_result uc cmd =
     (let name = to_upper uc (cmd_name cmd); args = cmd_args cmd
      in if name = ''SET'' \<or> name = ''SETNX'' then pair_size args
         else if name = ''MSET'' \<or> name = ''LPUSH'' \<or> name = ''RPUSH'' \<or> name = ''SADD'' \<or> name = ''HSET''
         then sizes args
         else if name = ''INCR'' \<or> name = ''DECR'' then counter_size 1 args
         else if name = ''INCRBY'' \<or> name = ''DECRBY'' then counter_size 2 args
         else 0)"
  by (simp add: command_growth_result_def command_growth_def pair_size_def counter_size_def args_size_def Let_def)

lemma handlers_grow:
  "\<forall>p \<in> set handlers. to_upper uc (cmd_name cmd) = fst p \<longrightarrow>
     (\<exists>G. mem_cmd (snd p) G \<and> G (cmd_args cmd) = command_growth_result uc cmd)"
  unfolding command_growth_cases Let_def
  by (simp add: handlers_def) (intro conjI impI; rule exI, rule conjI, rule grow_contracts, simp)

lemma handler_grows:
  assumes "map_of handlers (to_upper uc (cmd_name cmd)) = Some h" and "wf_store s"
  shows "approx_memory (fst (run h env (cmd_args cmd) s)) \<le> approx_memory s + command_growth_result uc cmd"
proof -
  obtain G where "mem_cmd h G" "G (cmd_args cmd) = command_growth_result uc cmd"
    using handlers_grow [of uc cmd] map_of_SomeD [OF assms(1)] by fastforce
  then show ?thesis using mem_cmd.grows [of h G s env "cmd_args cmd"] assms(2) by simp
qed

text \<open>A command that is not logged does not grow it at all.\<close>

lemma unlogged_never_grow:
  assumes "aof_command uc now cmd = Some (lc, False)" and "upper env = uc"
  shows "\<forall>p \<in> set handlers. to_upper uc (cmd_name cmd) = fst p \<longrightarrow>
    mem_cmd (snd p) (\<lambda>_. 0) \<or> rejects (snd p) env (cmd_args cmd)"
proof -
  note [simp] =
  ping.mem_cmd_axioms get_cmd.mem_cmd_axioms del_cmd.mem_cmd_axioms exists_cmd.mem_cmd_axioms
  expire_cmd.mem_cmd_axioms pexpireat_cmd.mem_cmd_axioms ttl_cmd.mem_cmd_axioms
  persist_cmd.mem_cmd_axioms type_cmd.mem_cmd_axioms keys_cmd.mem_cmd_axioms
  dbsize_cmd.mem_cmd_axioms flushall_cmd.mem_cmd_axioms hget_cmd.mem_cmd_axioms
  hdel_cmd.mem_cmd_axioms hgetall_cmd.mem_cmd_axioms hlen_cmd.mem_cmd_axioms
  lpop_cmd.mem_cmd_axioms rpop_cmd.mem_cmd_axioms llen_cmd.mem_cmd_axioms
  lrange_cmd.mem_cmd_axioms srem_cmd.mem_cmd_axioms sismember_cmd.mem_cmd_axioms
  smembers_cmd.mem_cmd_axioms scard_cmd.mem_cmd_axioms mget_cmd.mem_cmd_axioms
  show ?thesis
    apply (simp add: handlers_def)
    apply (intro conjI impI disjI2)
    apply (rule rejectsI, rule aof_command_set_bad [OF assms(1) _ assms(2)], assumption)
    using assms(1)
    by (auto simp add: aof_command_eqs cmd_defs Let_def rejects_def Suc_le_eq
        split: option.splits if_splits)
qed

lemma unlogged_grows:
  assumes "aof_command (upper env) now cmd = Some (lc, False)"
    and "map_of handlers (to_upper (upper env) (cmd_name cmd)) = Some h" and "wf_store s"
  shows "approx_memory (fst (run h env (cmd_args cmd) s)) \<le> approx_memory s"
proof -
  have "mem_cmd h (\<lambda>_. 0) \<or> rejects h env (cmd_args cmd)"
    using unlogged_never_grow [OF assms(1) refl] map_of_SomeD [OF assms(2)] by fastforce
  then show ?thesis
    using mem_cmd.grows [of h "\<lambda>_. 0" s env "cmd_args cmd"] assms(3) by (auto simp: rejects_def)
qed

subsection \<open>The estimate of the server\<close>

lemma estimated_growth_logged:
  assumes "aof_command uc now cmd = Some (lc, True)"
  shows "estimated_growth_result uc clk lc s = estimated_growth_result uc clk cmd s"
proof (cases "rewritten uc cmd")
  case False
  note lc = aof_command_plain [OF assms False]
  then show ?thesis by (simp add: estimated_growth_result_eq command_growth_result_def command_growth_def normalized_command_def)
next
  case True
  then consider (set) "to_upper uc (cmd_name cmd) = ''SET''" "length (cmd_args cmd) > 2"
      "\<exists>x y. lc = \<lparr>cmd_name = ''SET'', cmd_args = [cmd_args cmd ! 0, cmd_args cmd ! 1, x, y]\<rparr>"
    | (expire) "to_upper uc (cmd_name cmd) = ''EXPIRE''" "\<exists>a. lc = \<lparr>cmd_name = ''PEXPIREAT'', cmd_args = a\<rparr>"
    using assms by (auto simp: rewritten_def aof_command_eqs Let_def split: option.splits if_splits)
  then show ?thesis
  proof cases
    case set
    then show ?thesis by (auto simp: estimated_growth_result_eq command_growth_result_def command_growth_def Let_def)
  next
    case expire
    then show ?thesis by (auto simp: estimated_growth_result_eq command_growth_result_def command_growth_def)
  qed
qed

text \<open>The keys of \<open>MSET\<close>, and what they hold.\<close>

fun mset_keys :: "bytes list \<Rightarrow> bytes list" where
  "mset_keys (k # v # rest) = k # mset_keys rest"
| "mset_keys _ = []"

definition held :: "bytes list \<Rightarrow> store \<Rightarrow> int" where
  "held ks s = sum_list (map (\<lambda>k. opt_memory k (lookup s k)) ks)"

lemma held_simps [simp]: "held [] s = 0" "held (k # ks) s = opt_memory k (lookup s k) + held ks s"
  by (simp_all add: held_def)

lemma held_cong: "(\<And>k. k \<in> set ks \<Longrightarrow> lookup s' k = lookup s k) \<Longrightarrow> held ks s' = held ks s"
  unfolding held_def by (intro arg_cong [where f = sum_list] map_cong refl) simp

lemma store_set_memory:
  assumes "wf_store s"
  shows "approx_memory (store_set k v s)
    = approx_memory s - opt_memory k (lookup s k) + (int (length k) + int (length v))"
  using set.approx_memory_op [OF assms, of k v]
  by (simp add: store_defs entry_shapes entry_approx_memory_def)

lemma mset_sets_memory:
  "wf_store s \<Longrightarrow> distinct (mset_keys args) \<Longrightarrow> even (length args) \<Longrightarrow>
   approx_memory (mset_sets args s) = approx_memory s - held (mset_keys args) s + sizes args"
proof (induction args s rule: mset_sets.induct)
  case (1 k v rest s)
  have wf: "wf_store (store_set k v s)" using 1(2) by (simp add: store_defs store_wf)
  have "held (mset_keys rest) (store_set k v s) = held (mset_keys rest) s"
    using 1(3) set.lookup_other [OF 1(2), of _ k v] by (intro held_cong) (fastforce simp: store_defs)
  then show ?case using 1(1) [OF wf] 1(3,4) store_set_memory [OF 1(2), of k v] by simp
qed simp_all

lemma entry_memory_facts:
  assumes "wf_store s"
  shows "wf_store (fst (store_entry_memory k t s))"
    and "lookup (fst (store_entry_memory k t s)) = (lookup s)(k := live_at t (lookup s k))"
    and "snd (store_entry_memory k t s) = opt_memory k (live_at t (lookup s k))"
    and "approx_memory (fst (store_entry_memory k t s)) \<le> approx_memory s"
  using assms entry_memory.lookup_op [OF assms, of k t] entry_memory.result_op [OF assms, of k t]
    entry_memory.never_grows [OF assms, of k t]
  by (simp_all add: store_defs store_wf)

lemma mset_growth_facts:
  "wf_store s \<Longrightarrow> distinct (mset_keys args) \<Longrightarrow>
   wf_store (fst (mset_growth clk i args g s)) \<and>
   approx_memory (fst (mset_growth clk i args g s)) \<le> approx_memory s \<and>
   (\<forall>k. k \<notin> set (mset_keys args) \<longrightarrow> lookup (fst (mset_growth clk i args g s)) k = lookup s k) \<and>
   snd (mset_growth clk i args g s)
     = g - held (mset_keys args) (fst (mset_growth clk i args g s))"
proof (induction args arbitrary: i g s rule: mset_keys.induct)
  case (1 k v rest)
  let ?r = "store_entry_memory k (clk i) s"
  note r = entry_memory_facts [OF 1(2), of k "clk i"]
  let ?q = "mset_growth clk (Suc i) rest (g - snd ?r) (fst ?r)"
  have q: "wf_store (fst ?q)" "approx_memory (fst ?q) \<le> approx_memory (fst ?r)"
    "\<And>k'. k' \<notin> set (mset_keys rest) \<Longrightarrow> lookup (fst ?q) k' = lookup (fst ?r) k'"
    "snd ?q = g - snd ?r - held (mset_keys rest) (fst ?q)"
    using 1(1) [OF r(1), of "Suc i" "g - snd ?r"] 1(3) by simp_all
  have "lookup (fst ?q) k = live_at (clk i) (lookup s k)" using q(3) [of k] 1(3) r(2) by simp
  moreover have "mset_growth clk i (k # v # rest) g s = ?q"
    by (simp add: case_prod_unfold Let_def)
  moreover have "lookup (fst ?q) k' = lookup s k'" if "k' \<notin> set (mset_keys (k # v # rest))" for k'
    using that q(3) [of k'] r(2) by simp
  ultimately show ?case using q r(3,4) by simp
qed simp_all

text \<open>
  The estimate and then the command, which reads the clock on its own: first for the commands whose
  estimate looks at the store. \<open>SETNX\<close> is the one whose effect depends on the key being there.
\<close>

definition estimate_covers :: "store \<Rightarrow> store \<times> int \<Rightarrow> (store \<Rightarrow> store \<times> reply) \<Rightarrow> bool" where
  "estimate_covers s est f \<longleftrightarrow>
     wf_store (fst est) \<and> approx_memory (fst est) \<le> approx_memory s \<and>
     approx_memory (fst (f (fst est))) \<le> approx_memory (fst est) + max 0 (snd est)"

lemma estimate_covers_set:
  assumes "wf_store s" and name: "to_upper uc (cmd_name cmd) = ''SET''" "length (cmd_args cmd) \<ge> 2"
  shows "estimate_covers s (estimated_growth_result uc clk cmd s) (run cmd_set env (cmd_args cmd))"
proof -
  let ?k = "cmd_args cmd ! 0" and ?v = "cmd_args cmd ! 1"
  let ?s1 = "fst (store_entry_memory ?k (clk 0) s)"
  note m = entry_memory_facts [OF assms(1), of ?k "clk 0"]
  have est: "estimated_growth_result uc clk cmd s
      = (?s1, pair_size (cmd_args cmd) - opt_memory ?k (live_at (clk 0) (lookup s ?k)))"
    using name m(3) by (simp add: estimated_growth_result_eq command_growth_cases case_prod_unfold Let_def)
  have "approx_memory (store_set_ex ?k ?v at ?s1)
      = approx_memory ?s1 + (pair_size (cmd_args cmd) - opt_memory ?k (live_at (clk 0) (lookup s ?k)))" for at
    using set_ex.approx_memory_op [OF m(1), of ?k ?v at] m(2) name
    by (simp add: store_defs entry_shapes entry_approx_memory_def pair_size_def)
  then show ?thesis
    using m(1,4) by (simp add: estimate_covers_def est run_def cmd_set_def split: option.split)
qed

lemma estimate_covers_setnx:
  assumes "wf_store s" and name: "to_upper uc (cmd_name cmd) = ''SETNX''" "length (cmd_args cmd) \<ge> 2"
    and same: "live_at (clock env 0) (lookup s (cmd_args cmd ! 0)) = live_at (clk 0) (lookup s (cmd_args cmd ! 0))"
  shows "estimate_covers s (estimated_growth_result uc clk cmd s) (run cmd_setnx env (cmd_args cmd))"
proof -
  let ?k = "cmd_args cmd ! 0" and ?v = "cmd_args cmd ! 1"
  let ?s1 = "fst (store_entry_memory ?k (clk 0) s)" and ?held = "live_at (clk 0) (lookup s ?k)"
  note m = entry_memory_facts [OF assms(1), of ?k "clk 0"]
  have est: "estimated_growth_result uc clk cmd s
      = (?s1, if opt_memory ?k ?held > 0 then 0 else command_growth_result uc cmd)"
    using name m(3) by (simp add: estimated_growth_result_eq case_prod_unfold Let_def)
  show ?thesis
  proof (cases "opt_memory ?k ?held > 0")
    case True
    then obtain e where e: "?held = Some e" by (cases ?held) auto
    then have "live_at (clock env 0) (Some e) = Some e" using same by (metis live_at_idem)
    then have "approx_memory (fst (store_set_nx ?k ?v (clock env 0) ?s1)) = approx_memory ?s1"
      using set_nx.approx_memory_op [OF m(1), of ?k ?v "clock env 0"] m(2) e
      by (simp add: store_defs)
    then show ?thesis
      using m(1,4) by (simp add: estimate_covers_def est run_def cmd_setnx_def case_prod_unfold Let_def)
  next
    case False
    have "map_of handlers (to_upper uc (cmd_name cmd)) = Some cmd_setnx"
      using name by (simp add: handlers_def)
    from handler_grows [OF this m(1), of env] False show ?thesis
      using m(1,4) by (simp add: estimate_covers_def est)
  qed
qed

lemma estimate_covers_mset:
  assumes "wf_store s" and "to_upper uc (cmd_name cmd) = ''MSET''"
    and "distinct (mset_keys (cmd_args cmd))"
  shows "estimate_covers s (estimated_growth_result uc clk cmd s) (run cmd_mset env (cmd_args cmd))"
proof -
  let ?q = "mset_growth clk 0 (cmd_args cmd) (sizes (cmd_args cmd)) s"
  have "estimated_growth_result uc clk cmd s = ?q"
    using assms(2) by (simp add: estimated_growth_result_eq command_growth_cases Let_def)
  then show ?thesis
    using mset_growth_facts [OF assms(1,3), of clk 0 "sizes (cmd_args cmd)"]
      mset_sets_memory [of "fst ?q" "cmd_args cmd"] assms(3)
    by (simp add: estimate_covers_def run_def cmd_mset_def even_iff_mod_2_eq_zero)
qed

lemma estimate_sound:
  assumes wf: "wf_store s" and h: "map_of handlers (to_upper uc (cmd_name cmd)) = Some h"
    and same: "to_upper uc (cmd_name cmd) = ''SETNX'' \<Longrightarrow>
      live_at (clock env 0) (lookup s (cmd_args cmd ! 0)) = live_at (clk 0) (lookup s (cmd_args cmd ! 0))"
    and dist: "to_upper uc (cmd_name cmd) = ''MSET'' \<Longrightarrow> distinct (mset_keys (cmd_args cmd))"
  shows "estimate_covers s (estimated_growth_result uc clk cmd s) (run h env (cmd_args cmd))"
proof -
  let ?name = "to_upper uc (cmd_name cmd)" and ?args = "cmd_args cmd"
  consider (set) "?name = ''SET''" "length ?args \<ge> 2" | (setnx) "?name = ''SETNX''" "length ?args \<ge> 2"
    | (mset) "?name = ''MSET''" | (other) "estimated_growth_result uc clk cmd s = (s, command_growth_result uc cmd)"
    by (cases "?name = ''SET''"; cases "?name = ''SETNX''"; cases "?name = ''MSET''"; cases "length ?args \<ge> 2")
       (auto simp: estimated_growth_result_eq Let_def)
  then show ?thesis
  proof cases
    case set
    then show ?thesis using estimate_covers_set [OF wf set, of clk env] h by (simp add: handlers_def)
  next
    case setnx
    then show ?thesis
      using estimate_covers_setnx [OF wf setnx, of env clk] same [OF setnx(1)] h by (simp add: handlers_def)
  next
    case mset
    then show ?thesis
      using estimate_covers_mset [OF wf mset dist [OF mset], of clk env] h by (simp add: handlers_def)
  next
    case other
    then show ?thesis using handler_grows [OF h wf, of env] wf by (simp add: estimate_covers_def)
  qed
qed

end
