(* ===== verification/Store_Properties.thy ===== *)
theory Store_Properties
  imports Command_Contract
begin

section \<open>Properties of the store and its commands\<close>

text \<open>
  The properties of the store and of the command handlers, stated over the exported operations.
  Each rests on the interpretations of \<open>keyed_op\<close>, \<open>kv_op\<close>, \<open>exact_op\<close> and \<open>kv_read\<close>
  on the operations, or on those of the handlers' locales. The sample store is for the witnesses.
\<close>

subsection \<open>Sample data for the witnesses\<close>

text \<open>A store with one shard, whose count is the sum over its entries.\<close>

definition one_shard :: "entry gomap \<Rightarrow> store" where
  "one_shard m =
     \<lparr>shards = [\<lparr>sdata = m, used_memory = map_sum entry_approx_memory m, expired_keys = 0\<rparr>], smask = 0\<rparr>"

lemma shard_index_one [simp]: "shard_index (one_shard m) k = 0"
  by (simp add: one_shard_def shard_index_def)

lemma lookup_one [simp]: "lookup (one_shard m) k = map_of m k"
  by (simp add: lookup_def) (simp add: one_shard_def)

lemma wf_one [simp]:
  "wf_map m \<Longrightarrow> list_all (\<lambda>p. wf_value (evalue (snd p))) m \<Longrightarrow> wf_store (one_shard m)"
  by (auto simp: wf_store_def wf_shard_def memory_leak_def list_all_iff) (auto simp: one_shard_def wf_shard_def memory_leak_def)

definition sample :: store where
  "sample = one_shard
     [(''n'', string_entry ''41'' zero_time), (''s'', string_entry ''v'' 100),
      (''l'', list_entry [''a'', ''b'', ''c'']), (''h'', hash_entry [(''f'', ''1''), (''g'', ''2'')]),
      (''t'', set_entry_of [''x'', ''y''])]"

lemma wf_sample [simp]: "wf_store sample"
  by (simp add: sample_def string_entry_def list_entry_def hash_entry_def set_entry_of_def)

lemma lookup_sample [simp]:
  "lookup sample ''n'' = Some (string_entry ''41'' zero_time)"
  "lookup sample ''s'' = Some (string_entry ''v'' 100)"
  "lookup sample ''l'' = Some (list_entry [''a'', ''b'', ''c''])"
  "lookup sample ''h'' = Some (hash_entry [(''f'', ''1''), (''g'', ''2'')])"
  "lookup sample ''t'' = Some (set_entry_of [''x'', ''y''])"
  "lookup sample ''z'' = None"
  by (simp_all add: sample_def)

subsection \<open>The store\<close>

text \<open>
  C2: \<open>Set\<close>, \<open>SetEx\<close>, \<open>SetNX\<close>, \<open>Get\<close>, \<open>Exists\<close>, \<open>Del\<close>, \<open>ExpireAt\<close>, \<open>Persist\<close> and \<open>TTL\<close> act as
  operations on one map from keys to entries, in which an expired entry counts as absent: what each
  leaves under its key, what it returns, and that every other key is left alone, on every branch
  (missing or expired key, wrong type, with and without a deadline).
\<close>
theorem strings_refine_map:
  assumes "wf_store s"
  shows "lookup (store_set k v s) = (lookup s)(k \<mapsto> string_entry v zero_time) \<and>
    lookup (store_set_ex k v at s) = (lookup s)(k \<mapsto> string_entry v at) \<and>
    lookup (fst (store_get k now s)) = (lookup s)(k := live_at now (lookup s k)) \<and>
    snd (store_get k now s) =
      (case live_at now (lookup s k) of
         None \<Rightarrow> Inr None
       | Some e \<Rightarrow> (case evalue e of VString b \<Rightarrow> Inr (Some b) | _ \<Rightarrow> Inl ErrWrongType)) \<and>
    lookup (fst (store_exists k now s)) = (lookup s)(k := live_at now (lookup s k)) \<and>
    snd (store_exists k now s) = (live_at now (lookup s k) \<noteq> None) \<and>
    lookup (fst (store_del k now s)) = (lookup s)(k := None) \<and>
    snd (store_del k now s) = (live_at now (lookup s k) \<noteq> None) \<and>
    lookup (fst (store_expire_at k at now s))
      = (lookup s)(k := map_option (\<lambda>e. e\<lparr>expire_at := at\<rparr>) (live_at now (lookup s k))) \<and>
    snd (store_expire_at k at now s) = (live_at now (lookup s k) \<noteq> None) \<and>
    lookup (fst (store_persist k now s))
      = (lookup s)(k := map_option (\<lambda>e. e\<lparr>expire_at := zero_time\<rparr>) (live_at now (lookup s k))) \<and>
    snd (store_persist k now s)
      = (\<exists>e. live_at now (lookup s k) = Some e \<and> \<not> is_zero (expire_at e)) \<and>
    lookup (fst (store_ttl k now s)) = (lookup s)(k := live_at now (lookup s k)) \<and>
    snd (store_ttl k now s) =
      (case live_at now (lookup s k) of
         None \<Rightarrow> (0, False, False)
       | Some e \<Rightarrow> if is_zero (expire_at e) then (0, True, False)
                   else (time_sub (expire_at e) now, True, True)) \<and>
    lookup (fst (store_set_nx k v now s))
      = (lookup s)(k \<mapsto> (case live_at now (lookup s k) of
            None \<Rightarrow> string_entry v zero_time | Some e \<Rightarrow> e)) \<and>
    snd (store_set_nx k v now s) = (live_at now (lookup s k) = None)"
proof -
  note persist = persist.lookup_op [OF assms, of k now] persist.result_op [OF assms, of k now]
  have p: "fst (spec_persist eo) = map_option (\<lambda>e. e\<lparr>expire_at := zero_time\<rparr>) eo"
    "snd (spec_persist eo) = (\<exists>e. eo = Some e \<and> \<not> is_zero (expire_at e))" for eo
    by (cases eo; simp add: is_zero_def)+
  have t: "spec_ttl now eo = (eo, case eo of None \<Rightarrow> (0, False, False)
      | Some e \<Rightarrow> if is_zero (expire_at e) then (0, True, False)
                  else (time_sub (expire_at e) now, True, True))" for eo
    by (cases eo) simp_all
  show ?thesis
    using assms
    by (simp add: store_defs set.lookup_op set_ex.lookup_op
        get.lookup_op get.result_op present.lookup_op present.result_op del.lookup_op del.result_op
        expire_at.lookup_op expire_at.result_op persist p ttl.lookup_op ttl.result_op t
        set_nx.lookup_op set_nx.result_op split: option.split)
qed

text \<open>At time 50 the key with deadline 100 is there, at time 200 it is not.\<close>

theorem strings_refine_map_witness:
  "wf_store sample \<and> snd (store_get ''s'' 50 sample) = Inr (Some ''v'') \<and>
   snd (store_get ''s'' 200 sample) = Inr None \<and> snd (store_get ''l'' 0 sample) = Inl ErrWrongType \<and>
   snd (store_persist ''s'' 50 sample) \<and> \<not> snd (store_persist ''l'' 0 sample) \<and>
   \<not> snd (store_persist ''s'' 200 sample) \<and>
   snd (store_ttl ''s'' 50 sample) = (50, True, True) \<and> snd (store_ttl ''l'' 0 sample) = (0, True, False)"
  using strings_refine_map [OF wf_sample, where k = "''s''" and now = 50]
    strings_refine_map [OF wf_sample, where k = "''s''" and now = 200]
    strings_refine_map [OF wf_sample, where k = "''l''" and now = 0]
  by (simp add: live_at_def entry_expired_def string_entry_def list_entry_def is_zero_def zero_time_def
      time_sub_def)

text \<open>
  C16: \<open>IncrBy\<close> adds exactly, over the whole 64-bit range and on every branch: a missing or
  expired key counts as 0, a sum that leaves the range is refused by the code's two-sided guard
  without wrapping, what is stored is the decimal text of what is returned, an error leaves the
  entry as it was, and no other key changes.
\<close>
theorem incr_by_exact:
  assumes "wf_store s" and "in_i64 d"
  shows "snd (store_incr_by k d now s) =
      (case live_at now (lookup s k) of
         None \<Rightarrow> Inr d
       | Some e \<Rightarrow>
           (case evalue e of
              VString b \<Rightarrow>
                (case parse_int b of
                   None \<Rightarrow> Inl ErrNotInteger
                 | Some n \<Rightarrow> if in_i64 (n + d) then Inr (n + d) else Inl ErrNotInteger)
            | _ \<Rightarrow> Inl ErrWrongType)) \<and>
    (\<forall>n. snd (store_incr_by k d now s) = Inr n \<longrightarrow> in_i64 n \<and>
       map_option evalue (lookup (fst (store_incr_by k d now s)) k) = Some (VString (format_int n))) \<and>
    (\<forall>err. snd (store_incr_by k d now s) = Inl err \<longrightarrow>
       lookup (fst (store_incr_by k d now s)) k = live_at now (lookup s k)) \<and>
    (\<forall>k'. k' \<noteq> k \<longrightarrow> lookup (fst (store_incr_by k d now s)) k' = lookup s k')"
proof -
  have d: "i64 d = d" using assms(2) by simp
  note op = incr_by.lookup_op [OF assms(1), of k d now, unfolded d]
    incr_by.result_op [OF assms(1), of k d now, unfolded d]
  show ?thesis
  proof (cases "live_at now (lookup s k)")
    case None
    then show ?thesis using assms(2) by (simp add: store_incr_by_def op string_entry_def)
  next
    case (Some e)
    then show ?thesis by (cases "evalue e") (simp_all add: store_incr_by_def op split: option.split)
  qed
qed

theorem incr_by_exact_witness:
  "wf_store sample \<and> in_i64 max_int64 \<and>
   snd (store_incr_by ''n'' 1 0 sample) = Inr 42 \<and>
   snd (store_incr_by ''n'' max_int64 0 sample) = Inl ErrNotInteger"
proof -
  have p: "parse_int ''41'' = Some 41" by (simp add: parse_int_def is_digit_def in_i64_def)
  have i: "in_i64 1" "in_i64 max_int64" "in_i64 42" "\<not> in_i64 (41 + max_int64)"
    by (simp_all add: in_i64_def)
  have l: "live_at 0 (lookup sample ''n'') = Some (string_entry ''41'' zero_time)"
    by (simp add: string_entry_def)
  show ?thesis
    using incr_by_exact [THEN conjunct1, OF wf_sample i(1), of "''n''" 0]
      incr_by_exact [THEN conjunct1, OF wf_sample i(2), of "''n''" 0] i
    unfolding l by (simp add: string_entry_def p)
qed

text \<open>The list under a key: empty when there is none, \<open>None\<close> when the key holds another type.\<close>

definition list_view :: "time \<Rightarrow> store \<Rightarrow> bytes \<Rightarrow> bytes list option" where
  "list_view now s k =
     (case live_at now (lookup s k) of
        None \<Rightarrow> Some [] | Some e \<Rightarrow> (case evalue e of VList l \<Rightarrow> Some l | _ \<Rightarrow> None))"

text \<open>
  C3: the pushes, the pops and \<open>LLen\<close> on the list a key shows: pushing \<open>v\<^sub>1 \<dots> v\<^sub>n\<close> on the left leaves
  them reversed in front, on the right in order behind; a pop returns and removes one end; lengths
  are returned; popping the last element removes the key; other keys are untouched. On a key of
  another type all of them fail with the wrong-type error and change nothing a client sees.
\<close>
theorem lists_push_pop:
  assumes "wf_store s"
  shows "(\<forall>l. list_view now s k = Some l \<longrightarrow>
      snd (store_lpush k vs now s) = Inr (length vs + length l) \<and>
      list_view now (fst (store_lpush k vs now s)) k = Some (rev vs @ l) \<and>
      snd (store_rpush k vs now s) = Inr (length l + length vs) \<and>
      list_view now (fst (store_rpush k vs now s)) k = Some (l @ vs) \<and>
      snd (store_lpop k now s) = Inr (if l = [] then None else Some (hd l)) \<and>
      list_view now (fst (store_lpop k now s)) k = Some (tl l) \<and>
      snd (store_rpop k now s) = Inr (if l = [] then None else Some (last l)) \<and>
      list_view now (fst (store_rpop k now s)) k = Some (butlast l) \<and>
      (length l = 1 \<longrightarrow> lookup (fst (store_lpop k now s)) k = None \<and>
                       lookup (fst (store_rpop k now s)) k = None) \<and>
      snd (store_llen k now s) = Inr (length l)) \<and>
    (list_view now s k = None \<longrightarrow>
      snd (store_lpush k vs now s) = Inl ErrWrongType \<and> snd (store_rpush k vs now s) = Inl ErrWrongType \<and>
      snd (store_lpop k now s) = Inl ErrWrongType \<and> snd (store_rpop k now s) = Inl ErrWrongType \<and>
      snd (store_llen k now s) = Inl ErrWrongType \<and>
      faded now s (fst (store_lpush k vs now s)) \<and> faded now s (fst (store_rpush k vs now s)) \<and>
      faded now s (fst (store_lpop k now s)) \<and> faded now s (fst (store_rpop k now s))) \<and>
    (\<forall>k'. k' \<noteq> k \<longrightarrow>
      lookup (fst (store_lpush k vs now s)) k' = lookup s k' \<and>
      lookup (fst (store_rpush k vs now s)) k' = lookup s k' \<and>
      lookup (fst (store_lpop k now s)) k' = lookup s k' \<and>
      lookup (fst (store_rpop k now s)) k' = lookup s k')"
proof -
  note ops = lpush.lookup_op [OF assms, of k vs now] lpush.result_op [OF assms, of k vs now]
    rpush.lookup_op [OF assms, of k vs now] rpush.result_op [OF assms, of k vs now]
    lpop.lookup_op [OF assms, of k now] lpop.result_op [OF assms, of k now]
    rpop.lookup_op [OF assms, of k now] rpop.result_op [OF assms, of k now]
    llen.result_op [OF assms, of k now]
  note defs = store_lpush_def store_rpush_def store_lpop_def store_rpop_def store_llen_def
  show ?thesis
  proof (cases "live_at now (lookup s k)")
    case None
    then show ?thesis
      by (simp add: list_view_def defs ops list_entry_def faded_def live_at_def entry_expired_def)
  next
    case (Some e)
    then have "\<not> entry_expired e now" by (auto dest: live_at_SomeD)
    with Some show ?thesis
      by (cases "evalue e")
         (auto simp: list_view_def defs ops live_at_def entry_expired_def faded_def neq_Nil_conv
            length_Suc_conv split: option.splits if_splits)
  qed
qed

theorem lists_push_pop_witness:
  "wf_store sample \<and> list_view 0 sample ''l'' = Some [''a'', ''b'', ''c''] \<and>
   list_view 0 (fst (store_lpush ''l'' [''x'', ''y''] 0 sample)) ''l''
     = Some [''y'', ''x'', ''a'', ''b'', ''c''] \<and>
   snd (store_rpop ''l'' 0 sample) = Inr (Some ''c'') \<and>
   list_view 0 sample ''n'' = None \<and> snd (store_lpop ''n'' 0 sample) = Inl ErrWrongType"
proof -
  have v: "list_view 0 sample ''l'' = Some [''a'', ''b'', ''c'']" "list_view 0 sample ''n'' = None"
    by (simp_all add: list_view_def list_entry_def string_entry_def)
  note t = lists_push_pop [OF wf_sample, THEN conjunct1, rule_format, OF v(1), of "[''x'', ''y'']"]
  note f = lists_push_pop [OF wf_sample, THEN conjunct2, THEN conjunct1, rule_format, OF v(2)]
  show ?thesis using v t f by simp
qed

text \<open>A slice is the elements at an interval of positions.\<close>

lemma nths_interval:
  fixes a b :: int
  shows "nths l {i. a \<le> int i \<and> int i \<le> b}
    = (let a = (if a < 0 then 0 else a); b = (if b \<ge> int (length l) then int (length l) - 1 else b)
       in if a > b \<or> a \<ge> int (length l) then [] else take (nat (b - a + 1)) (drop (nat a) l))"
proof -
  have gen: "take (q - p) (drop p l) = nths l {i. p \<le> i \<and> i < q}" for p q
  proof -
    have "take (q - p) (drop p l) = nths (drop p l) {..<q - p}" by simp
    also have "\<dots> = nths l ((+) p ` {..<q - p})" by (rule nths_drop)
    also have "(+) p ` {..<q - p} = {i. p \<le> i \<and> i < q}"
      by (auto simp: image_iff) (metis diff_less_mono le_add_diff_inverse lessThan_iff)
    finally show ?thesis .
  qed
  have cong: "nths l A = nths l B" if "\<And>i. i < length l \<Longrightarrow> i \<in> A \<longleftrightarrow> i \<in> B" for A B
    unfolding nths_def using that
    by (intro arg_cong [where f = "map fst"] filter_cong refl) (auto dest!: set_zip_rightD)
  let ?a = "if a < 0 then 0 else a"
  let ?b = "if b \<ge> int (length l) then int (length l) - 1 else b"
  show ?thesis
  proof (cases "?a > ?b \<or> ?a \<ge> int (length l)")
    case True
    have "nths l {i. a \<le> int i \<and> int i \<le> b} = nths l {}"
      by (rule cong) (use True in \<open>auto split: if_splits\<close>)
    with True show ?thesis by (simp add: Let_def)
  next
    case False
    have "nths l {i. a \<le> int i \<and> int i \<le> b} = nths l {i. nat ?a \<le> i \<and> i < nat (?b + 1)}"
      by (rule cong) (use False in \<open>auto split: if_splits\<close>)
    also have "\<dots> = take (nat (?b + 1) - nat ?a) (drop (nat ?a) l)" by (rule gen [symmetric])
    also have "nat (?b + 1) - nat ?a = nat (?b - ?a + 1)" using False by auto
    finally show ?thesis using False by (simp add: Let_def)
  qed
qed

text \<open>
  C17: \<open>LRange\<close> is the range of the Redis documentation: with negative indexes counted from the
  end, exactly the elements at the positions between both bounds, in order, for any pair of
  64-bit bounds, in or out of the list, crossed or not; nothing panics or wraps.
\<close>
theorem lrange_positions:
  assumes "wf_store s" and "list_view now s k = Some l" and "in_i64 start" and "in_i64 stop"
    and "int (length l) \<le> max_int64"
  shows "snd (store_lrange k start stop now s)
    = Inr (nths l {i. (if start < 0 then start + int (length l) else start) \<le> int i \<and>
                      int i \<le> (if stop < 0 then stop + int (length l) else stop)})"
proof -
  let ?n = "int (length l)"
  let ?a = "if start < 0 then start + ?n else start" and ?b = "if stop < 0 then stop + ?n else stop"
  have i: "i64 (start + ?n) = start + ?n" if "start < 0"
    using assms(3,5) that by (intro i64_id) (auto simp: in_i64_def)
  have j: "i64 (stop + ?n) = stop + ?n" if "stop < 0"
    using assms(4,5) that by (intro i64_id) (auto simp: in_i64_def)
  have "list_range start stop l = nths l {i. ?a \<le> int i \<and> int i \<le> ?b}"
    using nths_interval [of l ?a ?b] i j by (simp add: list_range_def Let_def)
  then show ?thesis
    using assms(2) lrange.result_op [OF assms(1), of k start stop now]
    by (auto simp: store_lrange_def list_view_def split: option.splits gvalue.splits)
qed

theorem lrange_positions_witness:
  "snd (store_lrange ''l'' (-2) 9 0 sample) = Inr [''b'', ''c''] \<and>
   snd (store_lrange ''l'' 2 1 0 sample) = Inr []"
proof -
  have v: "list_view 0 sample ''l'' = Some [''a'', ''b'', ''c'']"
    by (simp add: list_view_def list_entry_def)
  show ?thesis
    using lrange_positions [OF wf_sample v, of "-2" 9] lrange_positions [OF wf_sample v, of 2 1]
    by (simp add: in_i64_def nths_Cons)
qed

text \<open>The hash under a key as a partial function, and the set under a key; \<open>None\<close>: another type.\<close>

definition hash_view :: "time \<Rightarrow> store \<Rightarrow> bytes \<Rightarrow> (bytes \<Rightarrow> bytes option) option" where
  "hash_view now s k =
     (case live_at now (lookup s k) of
        None \<Rightarrow> Some (\<lambda>_. None) | Some e \<Rightarrow> (case evalue e of VHash h \<Rightarrow> Some (map_of h) | _ \<Rightarrow> None))"

definition set_view :: "time \<Rightarrow> store \<Rightarrow> bytes \<Rightarrow> bytes set option" where
  "set_view now s k =
     (case live_at now (lookup s k) of
        None \<Rightarrow> Some {} | Some e \<Rightarrow> (case evalue e of VSet ms \<Rightarrow> Some (set ms) | _ \<Rightarrow> None))"

lemma hash_view_cases:
  assumes "wf_store s" and "hash_view now s k = Some h"
  obtains (absent) "live_at now (lookup s k) = None" "h = (\<lambda>_. None)"
  | (present) e m where "live_at now (lookup s k) = Some e" "evalue e = VHash m" "h = map_of m"
      "wf_map m" "live_at now (Some e) = Some e"
  using assms wf_store_lookup_value [OF assms(1), of k]
  by (fastforce simp: hash_view_def live_at_def split: option.splits gvalue.splits if_splits)

lemma set_view_cases:
  assumes "wf_store s" and "set_view now s k = Some S"
  obtains (absent) "live_at now (lookup s k) = None" "S = {}"
  | (present) e ms where "live_at now (lookup s k) = Some e" "evalue e = VSet ms" "S = set ms"
      "distinct ms" "live_at now (Some e) = Some e"
  using assms wf_store_lookup_value [OF assms(1), of k]
  by (fastforce simp: set_view_def live_at_def split: option.splits gvalue.splits if_splits)

lemma live_at_value: "live_at now (Some e) = Some e \<Longrightarrow> live_at now (Some (e\<lparr>evalue := v\<rparr>)) = Some (e\<lparr>evalue := v\<rparr>)"
  by (auto simp: live_at_def entry_expired_def split: if_splits)

lemma live_at_fresh [simp]:
  "live_at now (Some (list_entry l)) = Some (list_entry l)"
  "live_at now (Some (hash_entry h)) = Some (hash_entry h)"
  "live_at now (Some (set_entry_of ms)) = Some (set_entry_of ms)"
  by (simp_all add: list_entry_def hash_entry_def set_entry_of_def)

lemma length_wf_map: "wf_map m \<Longrightarrow> length m = card (dom (map_of m))"
  by (metis distinct_card dom_map_of_conv_image_fst length_map set_map)

text \<open>
  C4: the hash operations on the partial function a key shows. \<open>HSet\<close> updates one field and
  says whether it was new, \<open>HGet\<close> is application, \<open>HDel\<close> removes fields, counts those that
  were there and removes the key with the last of them, \<open>HLen\<close> is the size of the domain, and
  \<open>HGetAll\<close> lists every field once with its value, whatever order the map is iterated in.
\<close>
theorem hashes_refine_maps:
  assumes "wf_store s" and "hash_view now s k = Some h" and "valid_order ord"
  shows "snd (store_hset k f v now s) = Inr (h f = None) \<and>
    hash_view now (fst (store_hset k f v now s)) k = Some (h(f \<mapsto> v)) \<and>
    snd (store_hget k f now s) = Inr (h f) \<and>
    snd (store_hdel k fs now s) = Inr (card (set fs \<inter> dom h)) \<and>
    hash_view now (fst (store_hdel k fs now s)) k = Some (h |` (- set fs)) \<and>
    (dom h \<subseteq> set fs \<and> dom h \<noteq> {} \<longrightarrow> lookup (fst (store_hdel k fs now s)) k = None) \<and>
    snd (store_hlen k now s) = Inr (card (dom h)) \<and>
    (\<exists>ps. snd (store_hgetall ord k now s) = Inr (concat (map (\<lambda>(f, v). [f, v]) ps)) \<and>
          wf_map ps \<and> map_of ps = h)"
proof -
  note ops = hset.lookup_op [OF assms(1), of k f v now] hset.result_op [OF assms(1), of k f v now]
    hget.result_op [OF assms(1), of k f now] hdel.lookup_op [OF assms(1), of k fs now]
    hdel.result_op [OF assms(1), of k fs now] hlen.result_op [OF assms(1), of k now]
    hgetall.result_op [OF assms(1), of k ord now]
  note defs = store_hset_def store_hget_def store_hdel_def store_hlen_def store_hgetall_def
  have restrict: "(\<lambda>x. if x \<in> A then None else g x) = g |` (- A)"
    for A :: "bytes set" and g :: "bytes \<Rightarrow> bytes option"
    by (auto simp: restrict_map_def)
  have loop: "map_of (fst (hdel_loop fs m n)) = map_of m |` (- set fs)" for m n
    by (simp add: fun_eq_iff hdel_loop_map restrict_map_def)
  from assms(1,2) show ?thesis
  proof (cases rule: hash_view_cases)
    case absent
    then show ?thesis
      by (auto simp: defs ops hash_view_def hash_entry_def intro!: exI [of _ "[]"])
  next
    case (present e m)
    note [simp] = live_at_value [OF present(5)]
    have empty: "fst (hdel_loop fs m 0) = [] \<longleftrightarrow> dom h \<subseteq> set fs"
      using arg_cong [OF loop [of m 0], of dom] present(3)
      by (cases "fst (hdel_loop fs m 0)") auto
    have count: "snd (hdel_loop fs m 0) = card (set fs \<inter> dom h)"
      using present(3) by (simp add: hdel_loop_count dom_def Int_def)
    have "\<exists>ps. hash_flatten ord m = concat (map (\<lambda>(f, v). [f, v]) ps) \<and> wf_map ps \<and> map_of ps = h"
      using present(3,4) assms(3)
      by (intro exI [of _ "go_range ord m"]) (simp add: hash_flatten_def distinct_valid_order)
    moreover have "hash_view now (fst (store_hdel k fs now s)) k = Some (h |` (- set fs))"
    proof (cases "fst (hdel_loop fs m 0) = []")
      case True
      then have "h |` (- set fs) = Map.empty" using loop [of m 0] present(3) by simp
      then show ?thesis by (simp add: defs ops hash_view_def case_prod_unfold Let_def present(1,2) True)
    next
      case False
      then show ?thesis
        using present loop [of m 0]
        by (simp add: defs ops hash_view_def case_prod_unfold Let_def)
    qed
    ultimately show ?thesis
      using present count empty
      by (auto simp: defs ops hash_view_def case_prod_unfold Let_def length_wf_map)
  qed
qed

theorem hashes_refine_maps_witness:
  "hash_view 0 sample ''h'' = Some [''f'' \<mapsto> ''1'', ''g'' \<mapsto> ''2''] \<and>
   snd (store_hget ''h'' ''g'' 0 sample) = Inr (Some ''2'') \<and>
   snd (store_hset ''h'' ''new'' ''3'' 0 sample) = Inr True"
proof -
  have v: "hash_view 0 sample ''h'' = Some [''f'' \<mapsto> ''1'', ''g'' \<mapsto> ''2'']"
    by (simp add: hash_view_def hash_entry_def fun_eq_iff)
  note t = hashes_refine_maps [OF wf_sample v valid_order_id]
  show ?thesis
    using v t [of "''g''" "[]" "[]"] t [of "''new''" "''3''" "[]"] by (simp add: fun_upd_def)
qed

text \<open>
  C5: the set operations on the mathematical set a key shows: \<open>SAdd\<close> is union and counts the new
  members, \<open>SRem\<close> is difference, counts the removed ones and removes the key of a set that becomes
  empty, \<open>SIsMember\<close>, \<open>SCard\<close> and \<open>SMembers\<close> are membership, size and a listing without
  repetitions.
\<close>
theorem sets_refine_sets:
  assumes "wf_store s" and "set_view now s k = Some S" and "valid_order ord"
  shows "snd (store_sadd k xs now s) = Inr (card (set xs - S)) \<and>
    set_view now (fst (store_sadd k xs now s)) k = Some (S \<union> set xs) \<and>
    snd (store_srem k xs now s) = Inr (card (S \<inter> set xs)) \<and>
    set_view now (fst (store_srem k xs now s)) k = Some (S - set xs) \<and>
    (S \<subseteq> set xs \<and> S \<noteq> {} \<longrightarrow> lookup (fst (store_srem k xs now s)) k = None) \<and>
    snd (store_sismember k x now s) = Inr (x \<in> S) \<and>
    snd (store_scard k now s) = Inr (card S) \<and>
    (\<exists>ms. snd (store_smembers ord k now s) = Inr ms \<and> distinct ms \<and> set ms = S)"
proof -
  note ops = sadd.lookup_op [OF assms(1), of k xs now] sadd.result_op [OF assms(1), of k xs now]
    srem.lookup_op [OF assms(1), of k xs now] srem.result_op [OF assms(1), of k xs now]
    sismember.result_op [OF assms(1), of k x now] scard.result_op [OF assms(1), of k now]
    smembers.result_op [OF assms(1), of k ord now]
  note defs = store_sadd_def store_srem_def store_sismember_def store_scard_def store_smembers_def
  have add: "snd (sadd_loop xs ms 0) = card (set xs - set ms)" if "distinct ms" for ms
  proof -
    have "card (set ms \<union> set xs) = length ms + snd (sadd_loop xs ms 0)"
      using sadd_loop_count [of xs ms 0] sadd_loop_set [of xs ms 0] distinct_card sadd_loop_distinct [OF that]
      by (metis add_0_right)
    moreover have "card (set ms \<union> set xs) = card (set ms) + card (set xs - set ms)"
      by (metis Un_Diff_cancel card_Un_disjoint Diff_disjoint List.finite_set finite_Diff)
    ultimately show ?thesis using that by (simp add: distinct_card)
  qed
  have rem: "snd (srem_loop xs ms 0) = card (set ms \<inter> set xs)" if "distinct ms" for ms
  proof -
    have "length ms = card (set ms - set xs) + snd (srem_loop xs ms 0)"
      using srem_loop_count [OF that, of xs 0] srem_loop_set [of xs ms 0] srem_loop_distinct [OF that]
      by (metis add.right_neutral distinct_card)
    moreover have "card (set ms) = card (set ms - set xs) + card (set ms \<inter> set xs)"
      by (metis card_Diff_subset_Int card_mono add.commute Diff_subset Int_lower1 List.finite_set
          finite_Int le_add_diff_inverse2)
    ultimately show ?thesis using that by (simp add: distinct_card)
  qed
  from assms(1,2) show ?thesis
  proof (cases rule: set_view_cases)
    case absent
    then show ?thesis
      using add [of "[]"] sadd_loop_set [of xs "[]" 0]
      by (auto simp: defs ops set_view_def set_entry_of_def case_prod_unfold)
  next
    case (present e ms)
    note [simp] = live_at_value [OF present(5)]
    have empty: "fst (srem_loop xs ms 0) = [] \<longleftrightarrow> S \<subseteq> set xs"
      using srem_loop_set [of xs ms 0] present(3)
      by (metis Diff_eq_empty_iff set_empty)
    show ?thesis
      using present add [OF present(4)] rem [OF present(4)] empty sadd_loop_set [of xs ms 0]
        srem_loop_set [of xs ms 0]
      by (auto simp: defs ops set_view_def case_prod_unfold distinct_card set_valid_order [OF assms(3)]
          distinct_valid_order [OF assms(3)])
  qed
qed

theorem sets_refine_sets_witness:
  "set_view 0 sample ''t'' = Some {''x'', ''y''} \<and>
   snd (store_sadd ''t'' [''y'', ''z'', ''z''] 0 sample) = Inr 1 \<and>
   snd (store_scard ''t'' 0 sample) = Inr 2"
proof -
  have v: "set_view 0 sample ''t'' = Some {''x'', ''y''}"
    by (simp add: set_view_def set_entry_of_def)
  show ?thesis
    using v sets_refine_sets [OF wf_sample v valid_order_id, of "[''y'', ''z'', ''z'']"] by simp
qed

text \<open>
  C18: \<open>Len\<close> is the number of live keys, and \<open>Keys\<close> lists each live key that matches the
  pattern once, or fails exactly when the pattern is malformed on some live key; expired keys that
  are still stored are in neither, and both hold for every iteration order of the maps.
\<close>
theorem keys_len_live:
  assumes "wf_store s" and "\<And>i. valid_order (ord i)"
  shows "store_len ord now s = card (live_keys now s) \<and>
    (case store_keys ord matches pat now s of
       Some ks \<Rightarrow> distinct ks \<and> set ks = {k \<in> live_keys now s. matches pat k = Some True} \<and>
                  (\<forall>k \<in> live_keys now s. matches pat k \<noteq> None)
     | None \<Rightarrow> \<exists>k \<in> live_keys now s. matches pat k = None)"
proof -
  let ?r = "range_store ord s"
  have r: "wf_map ?r" "(k, e) \<in> set ?r \<longleftrightarrow> lookup s k = Some e" for k e
    using distinct_keys_range_store [OF assms] set_range_store [OF assms] in_all_entries [OF assms(1)]
    by auto
  let ?live = "filter (\<lambda>(k, e). \<not> entry_expired e now) ?r"
  have live: "k \<in> live_keys now s \<longleftrightarrow> (\<exists>e. (k, e) \<in> set ?live)" for k
    by (auto simp: live_keys_def r live_at_def split: option.splits)
  have "live_keys now s = set (keys ?live)" using live by (force simp: image_iff)
  moreover have "distinct (keys ?live)" using r(1) by (simp add: distinct_map_filter)
  ultimately have "card (live_keys now s) = length ?live" by (metis distinct_card length_map)
  then have len: "store_len ord now s = card (live_keys now s)"
    by (simp add: store_len_def len_loop_eq)
  show ?thesis
  proof (cases "store_keys ord matches pat now s")
    case None
    then show ?thesis
      using keys_loop_None [of matches pat now ?r "[]"] live len by (fastforce simp: store_keys_def)
  next
    case (Some ks)
    have ks: "ks = map fst (filter (\<lambda>(k, e). \<not> entry_expired e now \<and> matches pat k = Some True) ?r)"
      using keys_loop_Some [of matches pat now ?r "[]" ks] Some by (simp add: store_keys_def)
    have "distinct ks" unfolding ks using r(1) by (rule distinct_map_filter)
    moreover have "set ks = {k \<in> live_keys now s. matches pat k = Some True}"
      unfolding ks using live by (force simp: image_iff)
    moreover have "\<forall>k \<in> live_keys now s. matches pat k \<noteq> None"
      using keys_loop_None [of matches pat now ?r "[]"] Some live by (fastforce simp: store_keys_def)
    ultimately show ?thesis using Some len by simp
  qed
qed

theorem keys_len_live_witness:
  "wf_store sample \<and> store_len (\<lambda>_ ks. ks) 200 sample = card (live_keys 200 sample) \<and>
   ''s'' \<notin> live_keys 200 sample \<and> ''n'' \<in> live_keys 200 sample"
  using keys_len_live [OF wf_sample, of "\<lambda>_ ks. ks" 200]
  by (auto simp: live_keys_def live_at_def string_entry_def entry_expired_def is_zero_def zero_time_def)

text \<open>
  C19: one cycle of active expiration never removes a key that is still live and never changes an
  entry; what it removes had expired; the invariant holds afterwards; and a shard in which at most
  20 keys carry a deadline is left without expired keys, whatever the iteration order of its map.
\<close>
theorem active_expiry_sound_complete:
  assumes "wf_store s" and "\<And>i j. valid_order (ord i j)"
  shows "wf_store (active_expire_cycle ord now s) \<and>
    (\<forall>k. lookup (active_expire_cycle ord now s) k = lookup s k \<or>
         lookup (active_expire_cycle ord now s) k = None \<and>
         live_at (now (shard_index s k)) (lookup s k) = None) \<and>
    (\<forall>k e. deadlines (sdata (shards s ! shard_index s k)) \<le> 20 \<longrightarrow>
       lookup (active_expire_cycle ord now s) k = Some e \<longrightarrow> \<not> entry_expired e (now (shard_index s k)))"
proof (intro conjI allI impI)
  let ?s' = "active_expire_cycle ord now s"
  show "wf_store ?s'" using wf_store_cycle [OF assms(1,1)] assms(2) by blast
  have i: "shard_index s k < length (shards s)" for k using assms(1) by simp
  have l: "lookup ?s' k = map_of (sdata (expire_shard (ord (shard_index s k)) (now (shard_index s k))
      (shards s ! shard_index s k))) k" for k
    using i by (simp add: lookup_def active_expire_cycle_def shard_index_def)
  fix k
  have th: "thinned (now (shard_index s k)) (shards s ! shard_index s k)
      (expire_shard (ord (shard_index s k)) (now (shard_index s k)) (shards s ! shard_index s k))"
    unfolding expire_shard_def using assms by (intro expire_rounds_thinned) simp_all
  show "lookup ?s' k = lookup s k \<or>
      lookup ?s' k = None \<and> live_at (now (shard_index s k)) (lookup s k) = None"
    unfolding l using th by (cases rule: thinnedE [where k = k]) (simp_all add: lookup_def live_at_def)
  fix e
  assume "deadlines (sdata (shards s ! shard_index s k)) \<le> 20" and "lookup ?s' k = Some e"
  then show "\<not> entry_expired e (now (shard_index s k))"
    using expire_shard_complete [of "shards s ! shard_index s k" "ord (shard_index s k)"
        "now (shard_index s k)" k e] assms
    by (simp add: l)
qed

theorem active_expiry_sound_complete_witness:
  "wf_store sample \<and> deadlines (sdata (shards sample ! shard_index sample ''s'')) \<le> 20 \<and>
   lookup (active_expire_cycle (\<lambda>_ _ ks. ks) (\<lambda>_. 200) sample) ''s'' = None \<and>
   lookup (active_expire_cycle (\<lambda>_ _ ks. ks) (\<lambda>_. 50) sample) ''s'' = lookup sample ''s''"
proof -
  have d: "deadlines (sdata (shards sample ! shard_index sample ''s'')) \<le> 20"
    by (simp add: sample_def) (simp add: one_shard_def string_entry_def list_entry_def hash_entry_def
        set_entry_of_def has_deadline_def is_zero_def zero_time_def)
  note t = active_expiry_sound_complete [OF wf_sample, of "\<lambda>_ _ ks. ks", OF valid_order_id]
  have l: "lookup sample ''s'' = Some (string_entry ''v'' 100)" by simp
  have e: "entry_expired (string_entry ''v'' 100) 200" "\<not> entry_expired (string_entry ''v'' 100) 50"
    by (simp_all add: string_entry_def entry_expired_def is_zero_def zero_time_def)
  have "lookup (active_expire_cycle (\<lambda>_ _ ks. ks) (\<lambda>_. 200) sample) ''s'' = None"
    using t [of "\<lambda>_. 200"] d e(1) l by (metis not_None_eq)
  moreover have "lookup (active_expire_cycle (\<lambda>_ _ ks. ks) (\<lambda>_. 50) sample) ''s'' = lookup sample ''s''"
    using t [of "\<lambda>_. 50"] e(2) l by (metis live_at_Some option.distinct(1))
  ultimately show ?thesis using d by simp
qed

text \<open>The values the doubled \<open>int\<close> takes.\<close>

definition pow2_orbit :: "int set" where
  "pow2_orbit = insert 0 (insert (- (2 ^ 63)) {2 ^ j | j. j \<le> (62 :: nat)})"

lemma pow2_orbit_step:
  assumes "p \<in> pow2_orbit"
  shows "i64 (2 * p) \<in> pow2_orbit" and "p \<le> 2 ^ 62"
proof -
  show "p \<le> 2 ^ 62"
    using assms power_increasing [of _ 62 "2 :: int"] by (fastforce simp: pow2_orbit_def)
  show "i64 (2 * p) \<in> pow2_orbit"
  proof -
    consider "p = 0" | "p = - (2 ^ 63)" | "p = 2 ^ 62" | j where "j < (62 :: nat)" "p = 2 ^ j"
      using assms by (force simp: pow2_orbit_def le_less)
    then show ?thesis
    proof cases
      case (4 j)
      then have "(2 :: int) ^ Suc j \<le> 2 ^ 62" by (intro power_increasing) auto
      then have "i64 (2 * p) = 2 ^ Suc j"
        using 4 by (intro trans [OF i64_id]) (auto simp: in_i64_def intro: order_trans [of _ 0])
      then show ?thesis using 4 unfolding pow2_orbit_def by (intro insertI2) (auto intro!: exI [of _ "Suc j"])
    qed (simp_all add: pow2_orbit_def i64_def)
  qed
qed

lemma one_in_orbit [simp]: "1 \<in> pow2_orbit"
  unfolding pow2_orbit_def by (intro insertI2) (auto intro!: exI [of _ 0])

lemma next_pow2_loop_bounded:
  assumes "next_pow2_loop p n = Some r" and "p \<in> pow2_orbit"
  shows "n \<le> 2 ^ 62"
proof -
  have "p \<in> pow2_orbit \<longrightarrow> n \<le> 2 ^ 62"
  proof (rule next_pow2_loop.raw_induct [where P = "\<lambda>p n r. p \<in> pow2_orbit \<longrightarrow> n \<le> 2 ^ 62", OF _ assms(1)])
    fix loop p n r
    assume ih: "\<And>p n r. loop p n = Some r \<Longrightarrow> p \<in> pow2_orbit \<longrightarrow> n \<le> 2 ^ 62"
      and eq: "(if p < n then loop (i64 (2 * p)) n else Some p) = Some r"
    show "p \<in> pow2_orbit \<longrightarrow> n \<le> 2 ^ 62"
    proof
      assume p: "p \<in> pow2_orbit"
      show "n \<le> 2 ^ 62"
        using pow2_orbit_step [OF p] eq ih by (cases "p < n") auto
    qed
  qed
  then show ?thesis using assms(2) by blast
qed

text \<open>
  C20: \<open>New(n)\<close> for every \<open>int\<close>. Up to \<open>2 ^ 45\<close> it returns a store without keys that satisfies
  the invariant and has the least power of two of shards that is at least \<open>n\<close> and at least 1. From
  there to \<open>2 ^ 62\<close> its \<open>make\<close> panics, and above the doubling in \<open>nextPow2\<close> overflows to zero and
  the loop never ends.
\<close>
theorem new_store_outcome:
  assumes "in_i64 n"
  shows "case new_store n of
      Inl LoopNeverEnds \<Rightarrow> 2 ^ 62 < n
    | Inl MakePanics \<Rightarrow> 2 ^ 45 < n \<and> n \<le> 2 ^ 62
    | Inr s \<Rightarrow> n \<le> 2 ^ 45 \<and> wf_store s \<and> (\<forall>k. lookup s k = None) \<and>
        (\<exists>j. length (shards s) = 2 ^ j \<and> n \<le> 2 ^ j \<and> (j = 0 \<or> 2 ^ (j - 1) < n))"
proof -
  consider (returns) "n \<le> 2 ^ 45" | (panics) "2 ^ 45 < n" "n \<le> 2 ^ 62" | (loops) "2 ^ 62 < n" by linarith
  then show ?thesis
  proof cases
    case returns
    then obtain s j where "new_store n = Inr s" "wf_store s" "\<And>k. lookup s k = None"
      "length (shards s) = 2 ^ j" "n \<le> 2 ^ j" "j = 0 \<or> 2 ^ (j - 1) < n"
      using new_store_returns [of n] by (metis max_make_pointers_def)
    then show ?thesis using returns by auto
  next
    case panics
    then obtain j where "next_pow2 n = Some (2 ^ j)" "n \<le> 2 ^ j" using next_pow2_Some by blast
    then show ?thesis using panics by (simp add: new_store_def max_make_pointers_def)
  next
    case loops
    then have "next_pow2 n = None"
      using next_pow2_loop_bounded [of 1 n] by (cases "next_pow2_loop 1 n") (auto simp: next_pow2_def)
    then show ?thesis using loops by (simp add: new_store_def)
  qed
qed

theorem new_store_outcome_witness:
  "new_store (2 ^ 45 + 1) = Inl MakePanics \<and> new_store (2 ^ 62 + 1) = Inl LoopNeverEnds \<and>
   (\<exists>s. new_store 256 = Inr s \<and> wf_store s)"
proof -
  have i: "in_i64 256" "in_i64 (2 ^ 45 + 1)" "in_i64 (2 ^ 62 + 1)" by (simp_all add: in_i64_def)
  show ?thesis
    using new_store_outcome [OF i(1)] new_store_outcome [OF i(2)] new_store_outcome [OF i(3)]
    by (auto split: sum.splits new_fault.splits)
qed

end
