(* ===== verification/Sample_Server.thy ===== *)
theory Sample_Server
  imports Server_System Command_Memory Store_Properties
begin

section \<open>A sample server\<close>

text \<open>
  Concrete values for the witnesses: an environment in which the clock reads \<open>t\<close>, maps are
  visited in the order of their lists and the operating system never fails, and a server over a
  given store with the default options. \<open>upper\<close>, \<open>lower\<close>, \<open>glob\<close> and the other parameters
  are instantiated by concrete functions.
\<close>

definition sample_env :: "time \<Rightarrow> env" where
  "sample_env t =
     \<lparr>clock = \<lambda>_. t, shard_order = \<lambda>_ ks. ks, map_order = \<lambda>ks. ks, upper = \<lambda>b. b,
      glob = \<lambda>p k. Some (p = k \<or> p = ''*'')\<rparr>"

definition sample_os :: save_os where
  "sample_os =
     \<lparr>mkdir_err = None, create_err = None, tmp_name = ''.llavero-1.snap'', write_err = None,
      partial_write = [], flush_err = None, sync_err = None, close_err = None, rename_err = None,
      remove_err = None\<rparr>"

definition sample_senv :: "time \<Rightarrow> senv" where
  "sample_senv t =
     \<lparr>cmd_env = sample_env t, log_clock = t, memory_clock = \<lambda>_. t, append_since = t,
      append_now = t, append_write = None, append_sync = None, save_os_result = sample_os,
      save_clock = t, save_order = \<lambda>_ ks. ks, save_duration = 5, auth_clock = \<lambda>_. t,
      observe_clock = t, sub_order = \<lambda>cs. cs, lower = \<lambda>b. b, whole_seconds = \<lambda>d. d div 1000000000,
      quote_byte = \<lambda>c. [c], cmd_duration = 7, deadline_fails = False, send_fails = False\<rparr>"

definition sample_options :: options where
  "sample_options =
     \<lparr>opt_addr = [], opt_snapshot_path = [], opt_save_interval = 0, opt_aof_path = [],
      opt_aof_sync = [], opt_auth_password = [], opt_tls_cert_path = [], opt_tls_key_path = [],
      opt_max_connections = 0, opt_read_timeout = 0, opt_write_timeout = 0,
      opt_max_memory_bytes = 0, opt_command_log = [], opt_slow_log_threshold = 0,
      opt_slow_log_max_len = 0, opt_shutdown_timeout = 0\<rparr>"

definition sample_server :: "options \<Rightarrow> store \<Rightarrow> server" where
  "sample_server o' st =
     \<lparr>sopts = default_options o', sstore = st, saof = None, sbroker = new_broker,
      slimit = new_auth_limiter, smetrics = new_metrics 0, sdir = Map.empty, outbox = [],
      slots_used = 0, active_conns = 0, sclosing = False, drained = False\<rparr>"

lemma sample_env_simps [simp]:
  "clock (sample_env t) = (\<lambda>_. t)" "shard_order (sample_env t) = (\<lambda>_ ks. ks)"
  "map_order (sample_env t) = (\<lambda>ks. ks)" "upper (sample_env t) = (\<lambda>b. b)"
  by (simp_all add: sample_env_def)

lemma sample_senv_simps [simp]:
  "cmd_env (sample_senv t) = sample_env t" "log_clock (sample_senv t) = t"
  "memory_clock (sample_senv t) = (\<lambda>_. t)" "auth_clock (sample_senv t) = (\<lambda>_. t)"
  "save_clock (sample_senv t) = t" "save_os_result (sample_senv t) = sample_os"
  "append_since (sample_senv t) = t" "append_now (sample_senv t) = t"
  "append_write (sample_senv t) = None" "append_sync (sample_senv t) = None"
  "sub_order (sample_senv t) = (\<lambda>cs. cs)" "deadline_fails (sample_senv t) = False"
  "send_fails (sample_senv t) = False" "lower (sample_senv t) = (\<lambda>b. b)"
  "save_order (sample_senv t) = (\<lambda>_ ks. ks)"
  by (simp_all add: sample_senv_def)

lemma sample_server_simps [simp]:
  "sopts (sample_server o' st) = default_options o'" "sstore (sample_server o' st) = st"
  "saof (sample_server o' st) = None" "sbroker (sample_server o' st) = new_broker"
  "slimit (sample_server o' st) = new_auth_limiter" "smetrics (sample_server o' st) = new_metrics 0"
  "outbox (sample_server o' st) = []" "slots_used (sample_server o' st) = 0"
  "active_conns (sample_server o' st) = 0" "drained (sample_server o' st) = False"
  by (simp_all add: sample_server_def)

lemma sample_server_store [simp]: "sample_server o' st\<lparr>sstore := st'\<rparr> = sample_server o' st'"
  by (simp add: sample_server_def)

lemma default_options_simps [simp]:
  "opt_max_memory_bytes (default_options o') = opt_max_memory_bytes o'"
  "opt_auth_password (default_options o') = opt_auth_password o'"
  "opt_max_connections (default_options o') = opt_max_connections o'"
  "opt_snapshot_path (default_options o') = opt_snapshot_path o'"
  "opt_read_timeout (default_options o') = opt_read_timeout o'"
  by (simp_all add: default_options_def)

lemma sample_senv_ok [simp]: "senv_ok (sample_senv t)"
  by (simp add: senv_ok_def)

definition sample_start :: "directory \<Rightarrow> start_env" where
  "sample_start dir =
     \<lparr>start_dir = dir, start_clock = 60, start_orders = \<lambda>_ ks. ks, start_load_clock = 60,
      snapshot_open_err = None, snapshot_fin = EOF, aof_opened = Inr None, aof_fin = EOF,
      aof_mkdir_err = None, aof_open = Inr ([], 0), replay_envs = \<lambda>_. sample_env 60,
      replay_clocks = \<lambda>_. 60, start_upper = \<lambda>b. b, start_lower = \<lambda>b. b\<rparr>"

end
