(* ===== verification/Memory_Properties.thy ===== *)
theory Memory_Properties
  imports Sample_Server
begin

section \<open>Properties of the memory limit\<close>

text \<open>
  What \<open>dispatchWithAOF\<close> (\<open>internal/server/aof.go\<close>) promises about memory: a command
  does not take the count beyond the limit, when the keys of \<open>MSET\<close> do not repeat and the key of
  \<open>SETNX\<close> does not expire between the estimate and the execution. The properties rest on \<open>estimate_sound\<close> and on the bounds
  of the handlers (\<open>mem_cmd\<close>). Two counterexamples show where the code falls short: keys that
  \<open>MSET\<close> repeats, and the count after \<open>HDEL\<close> and \<open>SREM\<close> empty a key.
\<close>

subsection \<open>Saving never grows the count\<close>

lemma map_sum_set: "wf_map m \<Longrightarrow> map_sum f m = (\<Sum>p \<in> set m. f (fst p) (snd p))"
  by (simp add: map_sum_def distinct_map sum_list_distinct_conv_sum_set case_prod_unfold)

lemma map_sum_subset:
  assumes "wf_map m" "wf_map m'" "set m' \<subseteq> set m" "\<And>k v. 0 \<le> f k v"
  shows "map_sum f m' \<le> map_sum f m"
  unfolding map_sum_set [OF assms(1)] map_sum_set [OF assms(2)]
  using assms(3,4) by (intro sum_mono2) simp_all

lemma thinned_memory:
  assumes "wf_shard sh" and "thinned now sh sh'"
  shows "used_memory sh' \<le> used_memory sh"
proof -
  have wf: "wf_shard sh'" and leak: "memory_leak sh' = memory_leak sh"
    using assms(2) by (simp_all add: thinned_def)
  have "set (sdata sh') \<subseteq> set (sdata sh)"
  proof
    fix p assume "p \<in> set (sdata sh')"
    then have p: "map_of (sdata sh') (fst p) = Some (snd p)"
      using map_of_eq_Some_iff [OF wf_shard_map [OF wf]] by simp
    from assms(2) have "map_of (sdata sh) (fst p) = Some (snd p)"
      by (cases rule: thinnedE [where k = "fst p"]) (simp_all add: p)
    then show "p \<in> set (sdata sh)" using map_of_in_set by fastforce
  qed
  then have "map_sum entry_approx_memory (sdata sh') \<le> map_sum entry_approx_memory (sdata sh)"
    using wf_shard_map [OF assms(1)] wf_shard_map [OF wf] by (intro map_sum_subset) simp_all
  then show ?thesis using leak by (simp add: memory_leak_def)
qed

lemma thinned_store_memory:
  assumes "wf_store s" and "thinned_store now s s'"
  shows "approx_memory s' \<le> approx_memory s"
proof -
  have "list_all2 (\<lambda>a b. used_memory a \<le> used_memory b) (shards s') (shards s)"
    using assms by (auto simp: list_all2_conv_all_nth thinned_store_length
        intro!: thinned_memory [OF wf_store_nth thinned_store_shard])
  then have "sum_list (map used_memory (shards s')) \<le> sum_list (map used_memory (shards s))"
    by (induction rule: list_all2_induct) auto
  then show ?thesis by (simp add: approx_memory_def foldl_add_sum_list)
qed

lemma save_func_memory:
  assumes "senv_ok e" and "save_func e sv = Some f" and "wf_store s"
  shows "approx_memory (fst (f s x)) \<le> approx_memory s"
proof -
  have ords: "\<And>i. valid_order (shard_order (cmd_env e) i)" using assms(1) by (simp add: senv_ok_def)
  have "approx_memory (fst (store_snapshot (shard_order (cmd_env e)) (\<lambda>_. map_order (cmd_env e))
      (save_clock e) s)) \<le> approx_memory s"
    using thinned_store_memory [OF assms(3) thinned_store_snapshot [OF assms(3) ords]] .
  then show ?thesis
    using assms(2)
    by (auto simp: save_func_def snapshot_save_def Let_def case_prod_unfold
        split: if_splits option.splits)
qed

subsection \<open>A command and the count\<close>

lemma server_dispatch_store:
  "sstore (fst (server_dispatch_result e cmd sv))
     = fst (dispatch_result (save_func e sv) (cmd_env e) cmd (sstore sv) sv)"
  by (simp add: server_dispatch_result_def case_prod_unfold Let_def)

lemma locked_store:
  "sstore (fst (locked_result e cmd lc sv)) = sstore (fst (server_dispatch_result e cmd sv))"
  by (auto simp: locked_result_eq case_prod_unfold Let_def split: option.split)

lemma unlogged_dispatch_memory:
  assumes "senv_ok e" and "wf_store (sstore sv)"
    and "aof_command (upper (cmd_env e)) now cmd = Some (lc, False)"
  shows "approx_memory (sstore (fst (server_dispatch_result e cmd sv))) \<le> approx_memory (sstore sv)"
proof (cases rule: dispatch_cases [of "save_func e sv" "cmd_env e" cmd "sstore sv" sv])
  case (save f)
  then show ?thesis
    using save_func_memory [OF assms(1) save(1) assms(2)]
      cmd_save_store [of f "cmd_args cmd" "sstore sv" sv]
    by (auto simp: server_dispatch_store)
next
  case (handler h)
  then show ?thesis
    using unlogged_grows [OF assms(3) handler(1) assms(2)] by (simp add: server_dispatch_store)
qed (simp add: server_dispatch_store)

lemma logged_not_save:
  "aof_command uc now cmd = Some (lc, True) \<Longrightarrow> to_upper uc (cmd_name cmd) \<noteq> ''SAVE''"
  by (auto simp: aof_command_eqs)

text \<open>A logged command in a server whose limit was checked just before.\<close>

lemma logged_dispatch_memory:
  assumes "senv_ok e" and "wf_store (sstore sv)"
    and "aof_command (upper (cmd_env e)) now cmd = Some (lc, True)"
    and "to_upper (upper (cmd_env e)) (cmd_name cmd) = ''SETNX'' \<Longrightarrow>
      live_at (clock (cmd_env e) 0) (lookup (sstore sv) (cmd_args cmd ! 0))
        = live_at (memory_clock e 0) (lookup (sstore sv) (cmd_args cmd ! 0))"
    and "to_upper (upper (cmd_env e)) (cmd_name cmd) = ''MSET'' \<Longrightarrow> distinct (mset_keys (cmd_args cmd))"
    and "memory_limit_exceeded_result (upper (cmd_env e)) (memory_clock e) m lc (sstore sv) = (st, exceeded)"
  shows "approx_memory st \<le> approx_memory (sstore sv)"
    and "\<not> exceeded \<Longrightarrow>
      approx_memory (sstore (fst (server_dispatch_result e cmd (sv\<lparr>sstore := st\<rparr>))))
        \<le> max (approx_memory (sstore sv)) m"
proof -
  let ?uc = "upper (cmd_env e)"
  let ?g = "estimated_growth_result ?uc (memory_clock e) cmd (sstore sv)"
  have est: "estimated_growth_result ?uc (memory_clock e) lc (sstore sv) = ?g"
    using estimated_growth_logged [OF assms(3)] by simp
  then have st: "st = fst ?g" and ex: "exceeded \<longleftrightarrow> \<not> snd ?g \<le> 0 \<and> approx_memory st + snd ?g > m"
    using assms(6) by (auto simp: memory_limit_exceeded_result_eq case_prod_unfold Let_def split: if_splits)
  have known: "\<exists>h. map_of handlers (to_upper ?uc (cmd_name cmd)) = Some h"
    using assms(3) by (auto simp: aof_command_eqs Let_def handlers_def split: if_splits)
  then obtain h where h: "map_of handlers (to_upper ?uc (cmd_name cmd)) = Some h" by blast
  have "estimate_covers (sstore sv) ?g (run h (cmd_env e) (cmd_args cmd))"
    using estimate_sound [OF assms(2) h, of "cmd_env e" "memory_clock e"] assms(4,5) by blast
  note sound = this [unfolded estimate_covers_def]
  then show "approx_memory st \<le> approx_memory (sstore sv)" by (simp add: st)
  have "sstore (fst (server_dispatch_result e cmd (sv\<lparr>sstore := st\<rparr>)))
      = fst (run h (cmd_env e) (cmd_args cmd) st)"
    using h logged_not_save [OF assms(3)]
    by (simp add: server_dispatch_store dispatch_result_eq Let_def case_prod_unfold)
  then show "approx_memory (sstore (fst (server_dispatch_result e cmd (sv\<lparr>sstore := st\<rparr>))))
      \<le> max (approx_memory (sstore sv)) m" if "\<not> exceeded"
    using sound that ex by (auto simp: st)
qed

subsection \<open>The properties\<close>

text \<open>
  C11: with a memory limit, a data command does not take the count of used memory beyond it: after
  the command the count is at most the limit, or at most what it was before. This holds for every
  command but two: an \<open>MSET\<close> that names a key twice (\<open>repeated_keys_evade_limit\<close> is a
  counterexample), and a \<open>SETNX\<close> on a key whose deadline passes between the estimate and the
  execution. Otherwise estimate and execution may read any clock.
\<close>
theorem memory_limit_respected:
  assumes "senv_ok e" and "wf_store (sstore sv)" and "0 < opt_max_memory_bytes (sopts sv)"
    and "to_upper (upper (cmd_env e)) (cmd_name cmd) = ''SETNX'' \<Longrightarrow>
      live_at (clock (cmd_env e) 0) (lookup (sstore sv) (cmd_args cmd ! 0))
        = live_at (memory_clock e 0) (lookup (sstore sv) (cmd_args cmd ! 0))"
    and "to_upper (upper (cmd_env e)) (cmd_name cmd) = ''MSET'' \<Longrightarrow> distinct (mset_keys (cmd_args cmd))"
    and "dispatch_with_aof e cmd sv = Some (sv', r)"
  shows "approx_memory (sstore sv')
           \<le> max (approx_memory (sstore sv)) (opt_max_memory_bytes (sopts sv))"
proof -
  obtain lc ok where lc: "aof_command (upper (cmd_env e)) (log_clock e) cmd = Some (lc, ok)"
    using assms(6) by (auto simp: dispatch_with_aof_eq split: option.splits prod.splits)
  obtain st exceeded where m: "memory_limit_exceeded_result (upper (cmd_env e)) (memory_clock e)
      (opt_max_memory_bytes (sopts sv)) lc (sstore sv) = (st, exceeded)" by force
  show ?thesis
  proof (cases ok)
    case True
    then have "aof_command (upper (cmd_env e)) (log_clock e) cmd = Some (lc, True)" using lc by simp
    note logged = logged_dispatch_memory [OF assms(1,2) this assms(4,5) m]
    show ?thesis
    proof (cases exceeded)
      case True
      then show ?thesis
        using assms(3,6) lc m \<open>ok\<close> logged(1)
        by (auto simp: dispatch_with_aof_eq record_oom_rejected_write_def)
    next
      case False
      then have "sstore sv' = sstore (fst (server_dispatch_result e cmd (sv\<lparr>sstore := st\<rparr>)))"
        using assms(3,6) lc m \<open>ok\<close> locked_store [of e cmd lc "sv\<lparr>sstore := st\<rparr>"]
        by (simp add: dispatch_with_aof_eq prod_eq_iff)
      then show ?thesis using logged(2) False by simp
    qed
  next
    case False
    then have "sv' = fst (server_dispatch_result e cmd sv)"
      using assms(6) lc by (simp add: dispatch_with_aof_eq prod_eq_iff)
    then show ?thesis using unlogged_dispatch_memory [OF assms(1,2)] lc False by fastforce
  qed
qed

definition limited :: server where
  "limited = sample_server (sample_options\<lparr>opt_max_memory_bytes := 20\<rparr>) sample"

theorem memory_limit_respected_witness:
  "\<exists>sv' r. dispatch_with_aof (sample_senv 200) \<lparr>cmd_name = ''SET'', cmd_args = [''n'', ''7'']\<rparr> limited
       = Some (sv', r) \<and> approx_memory (sstore sv') \<le> 20"
proof -
  let ?cmd = "\<lparr>cmd_name = ''SET'', cmd_args = [''n'', ''7'']\<rparr>"
  have "dispatch_with_aof (sample_senv 200) ?cmd limited \<noteq> None"
    by (simp add: dispatch_with_aof_eq aof_command_eqs normalized_command_def)
  then obtain sv' r where d: "dispatch_with_aof (sample_senv 200) ?cmd limited = Some (sv', r)" by auto
  have "approx_memory (sstore sv') \<le> max (approx_memory sample) 20"
    using memory_limit_respected [OF sample_senv_ok _ _ _ _ d] by (simp add: limited_def sample_options_def)
  moreover have "approx_memory sample \<le> 20"
    by (simp add: sample_def one_shard_def approx_memory_def entry_shapes entry_approx_memory_def)
  ultimately show ?thesis using d by auto
qed

text \<open>
  C21: a data command that the memory limit refuses answers with the OOM error and is counted, and
  nothing else happens: no key a client can see changes, nothing is written to the file, no
  subscriber is told.
\<close>
theorem oom_refusal_inert:
  assumes "wf_store (sstore sv)" and "\<And>i. memory_clock e i \<le> t"
    and "aof_command (upper (cmd_env e)) (log_clock e) cmd = Some (lc, True)"
    and "0 < opt_max_memory_bytes (sopts sv)"
    and "memory_limit_exceeded (upper (cmd_env e)) (memory_clock e) (opt_max_memory_bytes (sopts sv))
           lc (sstore sv) = Some (st, True)"
  shows "\<exists>sv'. dispatch_with_aof e cmd sv = Some (sv', oom_reply) \<and>
    abs_store t (sstore sv') = abs_store t (sstore sv) \<and>
    saof sv' = saof sv \<and> sdir sv' = sdir sv \<and> outbox sv' = outbox sv \<and> sbroker sv' = sbroker sv \<and>
    oom_rejected_writes (smetrics sv') = Suc (oom_rejected_writes (smetrics sv))"
proof -
  let ?r = "memory_limit_exceeded_result (upper (cmd_env e)) (memory_clock e)
      (opt_max_memory_bytes (sopts sv)) lc (sstore sv)"
  have "?r = (st, True)" using assms(5) by (simp add: memory_limit_exceeded_some)
  moreover have "faded t (sstore sv) (fst ?r)" using memory_limit_store(2) [OF assms(1,2)] .
  then have "abs_store t (fst ?r) = abs_store t (sstore sv)"
    by (simp add: abs_store_def faded_live fun_eq_iff)
  ultimately show ?thesis
    using assms(3,4) by (simp add: dispatch_with_aof_eq case_prod_unfold Let_def record_oom_rejected_write_def)
qed

theorem oom_refusal_inert_witness:
  "\<exists>sv'. dispatch_with_aof (sample_senv 50) \<lparr>cmd_name = ''SET'', cmd_args = [''z'', ''0123456789'']\<rparr> limited
       = Some (sv', oom_reply) \<and> abs_store 50 (sstore sv') = abs_store 50 sample"
proof -
  let ?cmd = "\<lparr>cmd_name = ''SET'', cmd_args = [''z'', ''0123456789'']\<rparr>"
  have lc: "aof_command (\<lambda>b. b) 50 ?cmd = Some (?cmd, True)"
    by (simp add: aof_command_eqs normalized_command_def)
  have "approx_memory sample = 17"
    by (simp add: sample_def one_shard_def approx_memory_def entry_shapes entry_approx_memory_def)
  moreover have "approx_memory (fst (store_entry_memory ''z'' 50 sample)) = approx_memory sample"
    "snd (store_entry_memory ''z'' 50 sample) = 0"
    by (simp_all add: store_entry_memory_def sh_entry_memory_def live_entry_def on_shard_def sample_def one_shard_def
        approx_memory_def shard_index_def)
  ultimately have "memory_limit_exceeded (\<lambda>b. b) (\<lambda>_. 50) 20 ?cmd sample
      = Some (fst (store_entry_memory ''z'' 50 sample), True)"
    by (simp add: memory_limit_exceeded_some memory_limit_exceeded_result_eq estimated_growth_result_eq command_growth_result_def command_growth_def Let_def case_prod_unfold)
  then show ?thesis
    using oom_refusal_inert [of limited "sample_senv 50" 50 ?cmd ?cmd] lc
    by (auto simp: limited_def sample_options_def)
qed

text \<open>
  The count and the keys that lose their last field or member. \<open>HDel\<close> and \<open>SRem\<close> remove
  the key, as they should, but take only the length of its name off the count, because they shrink
  the value before measuring it: the size of the whole value stays in the count for good.
\<close>
theorem emptied_keys_leak:
  assumes "wf_store s"
    and "live_at now (lookup s k) = Some e"
  shows "(\<forall>h. evalue e = VHash h \<and> set (keys h) \<subseteq> set xs \<longrightarrow>
      lookup (fst (store_hdel k xs now s)) k = None \<and>
      leaked_memory (fst (store_hdel k xs now s)) = leaked_memory s + value_approx_memory (evalue e)) \<and>
    (\<forall>ms. evalue e = VSet ms \<and> set ms \<subseteq> set xs \<longrightarrow>
      lookup (fst (store_srem k xs now s)) k = None \<and>
      leaked_memory (fst (store_srem k xs now s)) = leaked_memory s + value_approx_memory (evalue e))"
proof -
  let ?sh = "shards s ! shard_index s k"
  have sh: "wf_shard ?sh" "lookup s k = map_of (sdata ?sh) k" using assms(1) by (simp_all add: lookup_def)
  note d = delete_put_entry [of "fst (live_entry k now ?sh)" k e]
  have "lookup (fst (store_hdel k xs now s)) k = None \<and>
      leaked_memory (fst (store_hdel k xs now s)) = leaked_memory s + value_approx_memory (evalue e)"
    if e: "evalue e = VHash h" "set (keys h) \<subseteq> set xs" for h
  proof -
    have "map_of (fst (hdel_loop xs h 0)) = Map.empty"
      using e(2) by (auto simp: hdel_loop_map fun_eq_iff map_of_eq_None_iff)
    then have h: "fst (hdel_loop xs h 0) = []" by simp
    have "0 \<le> map_sum (\<lambda>f item. int (length f) + int (length item)) h" by (simp add: map_sum_nonneg)
    then show ?thesis
      using hdel.leaked_memory_on_shard [OF assms(1), of k xs now] hdel.lookup_op [OF assms(1), of k xs now]
        d(3) [of "e\<lparr>evalue := VHash []\<rparr>"] sh assms(2) e h
      by (simp add: store_defs sh_hdel_def op_unfold case_prod_unfold Let_def entry_approx_memory_def)
  qed
  moreover have "lookup (fst (store_srem k xs now s)) k = None \<and>
      leaked_memory (fst (store_srem k xs now s)) = leaked_memory s + value_approx_memory (evalue e)"
    if e: "evalue e = VSet ms" "set ms \<subseteq> set xs" for ms
  proof -
    have "set (fst (srem_loop xs ms 0)) = {}" using e(2) by (auto simp: srem_loop_set)
    then have "fst (srem_loop xs ms 0) = []" by simp
    then show ?thesis
      using srem.leaked_memory_on_shard [OF assms(1), of k xs now] srem.lookup_op [OF assms(1), of k xs now]
        d(3) [of "e\<lparr>evalue := VSet []\<rparr>"] sh assms(2) e
      by (simp add: store_defs sh_srem_def op_unfold case_prod_unfold Let_def entry_approx_memory_def)
  qed
  ultimately show ?thesis by blast
qed

theorem emptied_keys_leak_witness:
  "lookup (fst (store_hdel ''h'' [''g'', ''f''] 50 sample)) ''h'' = None \<and>
   leaked_memory (fst (store_hdel ''h'' [''g'', ''f''] 50 sample)) = leaked_memory sample + 4 \<and>
   leaked_memory (fst (store_srem ''t'' [''x'', ''y''] 50 sample)) = leaked_memory sample + 2"
proof -
  have "live_at 50 (lookup sample ''h'') = Some (hash_entry [(''f'', ''1''), (''g'', ''2'')])"
    "live_at 50 (lookup sample ''t'') = Some (set_entry_of [''x'', ''y''])"
    by (simp_all add: entry_shapes live_at_def entry_expired_def)
  from emptied_keys_leak [OF wf_sample this(1), of "[''g'', ''f'']"]
    emptied_keys_leak [OF wf_sample this(2), of "[''x'', ''y'']"]
  show ?thesis by (simp add: entry_shapes)
qed

text \<open>
  Where the limit is not enforced. \<open>estimatedGrowth\<close> takes what a key of \<open>MSET\<close> holds
  off once per occurrence, so a repeated key makes the estimate too small: here a limit of 20 bytes
  lets the count reach 26.
\<close>
theorem repeated_keys_evade_limit:
  "\<exists>sv' r. dispatch_with_aof (sample_senv 50)
      \<lparr>cmd_name = ''MSET'', cmd_args = [''k'', [], ''k'', replicate 25 (CHR ''x'')]\<rparr>
      (sample_server (sample_options\<lparr>opt_max_memory_bytes := 20\<rparr>)
         (one_shard [(''k'', string_entry ''0123456789ab'' zero_time)])) = Some (sv', r) \<and>
    \<not> is_error_reply (Some r) \<and> approx_memory (sstore sv') = 26"
proof -
  let ?s = "one_shard [(''k'', string_entry ''0123456789ab'' zero_time)]"
  let ?v = "replicate 25 (CHR ''x'')"
  let ?cmd = "\<lparr>cmd_name = ''MSET'', cmd_args = [''k'', [], ''k'', ?v]\<rparr>"
  let ?sv = "sample_server (sample_options\<lparr>opt_max_memory_bytes := 20\<rparr>) ?s"
  have "live_at 50 (lookup ?s ''k'') = Some (string_entry ''0123456789ab'' zero_time)"
    by (simp add: entry_shapes live_at_def entry_expired_def)
  then have "store_entry_memory ''k'' 50 ?s = (?s, 13)"
    by (simp add: store_entry_memory_def sh_entry_memory_def live_entry_def on_shard_def one_shard_def
        shard_index_def entry_shapes entry_approx_memory_def entry_expired_def)
  then have "memory_limit_exceeded_result (\<lambda>b. b) (\<lambda>_. 50) 20 ?cmd ?s = (?s, False)"
    by (simp add: memory_limit_exceeded_result_eq estimated_growth_result_eq command_growth_result_def command_growth_def args_size_def Let_def)
       (simp add: approx_memory_def one_shard_def entry_shapes entry_approx_memory_def)
  moreover have "dispatch_result (save_func (sample_senv 50) ?sv) (sample_env 50) ?cmd ?s ?sv
      = (mset_sets [''k'', [], ''k'', ?v] ?s, ?sv, StatusReply ''OK'')"
    by (simp add: dispatch_result_eq handlers_def run_def cmd_mset_def)
  moreover have "approx_memory (mset_sets [''k'', [], ''k'', ?v] ?s) = 26"
    by (simp add: store_set_def on_shard_def sh_set_def set_entry_def one_shard_def shard_index_def Let_def
        approx_memory_def entry_shapes entry_approx_memory_def)
  ultimately show ?thesis
    by (simp add: dispatch_with_aof_eq aof_command_eqs normalized_command_def Let_def
        locked_result_eq server_dispatch_result_def is_error_reply_def)
qed

end
