(* ===== verification/Persistence_Properties.thy ===== *)
theory Persistence_Properties
  imports Sample_Server
begin

section \<open>Properties of the snapshots\<close>

text \<open>
  What \<open>Save\<close> and the start of the next process promise together
  (\<open>internal/persistence/snapshot.go\<close>, \<open>internal/store/snapshot.go\<close> and
  \<open>internal/server/server.go\<close>): the file on disk is always a whole snapshot, the new process
  shows its clients what the old one did, a damaged file is refused, and the one store that does
  not survive is one with the empty key. They compose \<open>snapshot_encode_message\<close>,
  \<open>restore_live_range\<close> and \<open>save_file_atomic\<close>.
\<close>

subsection \<open>Saving, then loading\<close>

text \<open>The bytes of a successful save, and what decoding them gives.\<close>

lemma snapshot_save_ok:
  assumes "wf_store s" and ord: "\<And>i. valid_order (ord i)" "\<And>k. valid_order (vord k)" "\<And>k. valid_order (eord k)"
    and "snapshot_ok (snd (store_snapshot ord vord now s))"
    and "tmp_name os \<noteq> path" and "dir (tmp_name os) = None"
    and save: "snapshot_save ord vord eord now os path s dir = (s1, dir1, None)"
  obtains w es where "path \<noteq> []" and "dir1 = dir(path \<mapsto> w)"
    and "snapshot_encode eord (snd (store_snapshot ord vord now s)) = Inr w"
    and "message snap_eof (snapshot_decode EOF) w es"
    and "list_all2 represents es (live_range ord now s)"
    and "s1 = fst (store_snapshot ord vord now s)"
proof -
  let ?es = "snd (store_snapshot ord vord now s)"
  let ?ds = "map (\<lambda>e. decoded (eord (snap_key e)) e) ?es"
  obtain w where w: "snapshot_encode eord ?es = Inr w" "message snap_eof (snapshot_decode EOF) w ?ds"
    using snapshot_encode_message [OF assms(5), of eord] ord(3) by blast
  have path: "path \<noteq> []" and s1: "s1 = fst (store_snapshot ord vord now s)"
    and f: "save_file os path (snapshot_encode eord ?es) dir = (dir1, None)"
    using save by (auto simp: snapshot_save_def Let_def case_prod_unfold split: if_splits option.splits)
  have "dir1 = dir(path \<mapsto> w)"
    using save_file_atomic(2) [where os = os and path = path and dir = dir] assms(6,7) f w(1) by force
  moreover have "list_all2 represents ?ds (live_range ord now s)"
    using snapshot_represents [OF assms(1), of ord vord now] ord
    by (auto simp: list_all2_conv_all_nth intro!: represents_decoded)
  ultimately show thesis using that path w s1 by blast
qed

lemma snapshot_load_message:
  assumes "path \<noteq> []" and "dir path = Some w" and "message snap_eof (snapshot_decode EOF) w es"
  shows "snapshot_load vord now None EOF path dir r
    = (case store_restore vord now es r of (s, None) \<Rightarrow> (s, None) | (s, Some e) \<Rightarrow> (s, Some (SnapRestore e)))"
proof -
  have "snapshot_decode EOF w = Inr (es, [])"
    using assms(3) by (metis message_def append_Nil2)
  then show ?thesis using assms(1,2) by (simp add: snapshot_load_def)
qed

text \<open>The server that starts on a directory.\<close>

lemma start_with_snapshot:
  assumes "check_options o' = None" and "opt_aof_path o' = []" and "opt_snapshot_path o' \<noteq> []"
    and "start_dir se (opt_snapshot_path o') = Some w" and "snapshot_open_err se = None"
    and "snapshot_fin se = EOF"
  shows "\<exists>s0. wf_store s0 \<and>
    (case snapshot_decode EOF w of
       Inl e \<Rightarrow> new_with_options se o' = Inl (StartSnapshot e)
     | Inr (es, _) \<Rightarrow>
         (case store_restore (start_orders se) (start_load_clock se) es s0 of
            (s, Some e) \<Rightarrow> new_with_options se o' = Inl (StartSnapshot (SnapRestore e))
          | (s, None) \<Rightarrow> \<exists>sv. new_with_options se o' = Inr sv \<and> sstore sv = s))"
proof -
  obtain s0 where "new_store 256 = Inr s0" "wf_store s0" using new_store_256 by blast
  then show ?thesis
    using assms
    by (intro exI [of _ s0])
       (auto simp: new_with_options_def snapshot_load_def open_server_aof_def split: sum.split prod.split option.split)
qed

text \<open>A successful save, as the server makes it.\<close>

definition saved_entries :: "senv \<Rightarrow> server \<Rightarrow> snap_entry list" where
  "saved_entries e sv =
     snd (store_snapshot (shard_order (cmd_env e)) (\<lambda>_. map_order (cmd_env e)) (save_clock e) (sstore sv))"

lemma server_save_ok_dir:
  assumes "senv_ok e" and "wf_store (sstore sv)" and "snapshot_ok (saved_entries e sv)"
    and "tmp_name (save_os_result e) \<noteq> opt_snapshot_path (sopts sv)"
    and "sdir sv (tmp_name (save_os_result e)) = None"
    and "opt_snapshot_path (sopts sv) \<noteq> []" and "server_save e sv = (sv1, None)"
  obtains w es where "sdir sv1 = (sdir sv)(opt_snapshot_path (sopts sv) \<mapsto> w)"
    and "message snap_eof (snapshot_decode EOF) w es"
    and "list_all2 represents es (live_range (shard_order (cmd_env e)) (save_clock e) (sstore sv))"
proof -
  have ord: "\<And>i. valid_order (shard_order (cmd_env e) i)" "\<And>k. valid_order ((\<lambda>_. map_order (cmd_env e)) k)"
    "\<And>k. valid_order (save_order e k)"
    using assms(1) by (simp_all add: senv_ok_def)
  obtain st dir where save: "snapshot_save (shard_order (cmd_env e)) (\<lambda>_. map_order (cmd_env e)) (save_order e)
      (save_clock e) (save_os_result e) (opt_snapshot_path (sopts sv)) (sstore sv) (sdir sv) = (st, dir, None)"
    and dir: "sdir sv1 = dir"
    using assms(6,7) by (auto simp: server_save_def record_snapshot_def Let_def split: prod.splits)
  show thesis
    using snapshot_save_ok [OF assms(2) ord assms(3) [unfolded saved_entries_def] assms(4,5) save] dir that
    by metis
qed

text \<open>The next process, on the directory the save leaves.\<close>

definition restarts_on :: "start_env \<Rightarrow> options \<Rightarrow> server \<Rightarrow> bool" where
  "restarts_on se o' sv \<longleftrightarrow>
     check_options o' = None \<and> opt_aof_path o' = [] \<and>
     opt_snapshot_path o' = opt_snapshot_path (sopts sv) \<and>
     snapshot_open_err se = None \<and> snapshot_fin se = EOF \<and> (\<forall>k. valid_order (start_orders se k))"

definition can_save :: "senv \<Rightarrow> server \<Rightarrow> bool" where
  "can_save e sv \<longleftrightarrow>
     senv_ok e \<and> wf_store (sstore sv) \<and> snapshot_ok (saved_entries e sv) \<and>
     opt_snapshot_path (sopts sv) \<noteq> [] \<and>
     tmp_name (save_os_result e) \<noteq> opt_snapshot_path (sopts sv) \<and>
     sdir sv (tmp_name (save_os_result e)) = None"

lemma save_then_start:
  assumes "can_save e sv" and "server_save e sv = (sv1, None)"
    and "restarts_on se o' sv" and "start_dir se = sdir sv1"
  obtains s0 es where "wf_store s0"
    and "list_all2 represents es (live_range (shard_order (cmd_env e)) (save_clock e) (sstore sv))"
    and "case store_restore (start_orders se) (start_load_clock se) es s0 of
            (s, Some err) \<Rightarrow> new_with_options se o' = Inl (StartSnapshot (SnapRestore err))
          | (s, None) \<Rightarrow> \<exists>sv. new_with_options se o' = Inr sv \<and> sstore sv = s"
proof -
  obtain w es where w: "sdir sv1 = (sdir sv)(opt_snapshot_path (sopts sv) \<mapsto> w)"
    "message snap_eof (snapshot_decode EOF) w es"
    "list_all2 represents es (live_range (shard_order (cmd_env e)) (save_clock e) (sstore sv))"
    using server_save_ok_dir [of e sv sv1] assms(1,2) unfolding can_save_def by metis
  have "snapshot_decode EOF w = Inr (es, [])" using w(2) by (metis message_def append_Nil2)
  moreover have "start_dir se (opt_snapshot_path o') = Some w"
    using assms(3,4) w(1) by (simp add: restarts_on_def)
  ultimately show thesis
    using start_with_snapshot [of o' se w] assms(1,3) that w(3)
    by (auto simp: restarts_on_def can_save_def)
qed

text \<open>A server that saves under \<open>''db''\<close>, and the start of the next one.\<close>

definition snapshot_options :: options where
  "snapshot_options = sample_options\<lparr>opt_snapshot_path := ''db''\<rparr>"

lemma sample_saved:
  "saved_entries (sample_senv 50) (sample_server snapshot_options (one_shard m))
     = map (snap_of (\<lambda>_ ks. ks)) (filter (\<lambda>(k, e). \<not> entry_expired e 50) m)"
  if "wf_map m" "list_all (\<lambda>p. wf_value (evalue (snd p))) m"
proof -
  have "go_range (\<lambda>ks. ks) m = m"
    unfolding go_range_def map_map comp_def using that(1) by (intro map_idI) (auto simp: map_of_eq_Some_iff)
  then have "range_store (\<lambda>_ ks. ks) (one_shard m) = m"
    by (simp add: range_store_def one_shard_def)
  then show ?thesis
    using snapshot_out [of "one_shard m" "\<lambda>_ ks. ks" "\<lambda>_ ks. ks" 50] that
    by (simp add: saved_entries_def live_range_def)
qed

lemma sample_can_save:
  "can_save (sample_senv 50) (sample_server snapshot_options sample)"
  "can_save (sample_senv 50) (sample_server snapshot_options (one_shard [([], string_entry ''v'' zero_time)]))"
proof -
  have "can_save (sample_senv 50) (sample_server snapshot_options (one_shard m))"
    if "wf_map m" "list_all (\<lambda>p. wf_value (evalue (snd p))) m"
      "snapshot_ok (map (snap_of (\<lambda>_ ks. ks)) (filter (\<lambda>(k, e). \<not> entry_expired e 50) m))" for m
    using that sample_saved [OF that(1,2)]
    by (simp add: can_save_def snapshot_options_def sample_os_def) (simp add: sample_server_def)
  then show "can_save (sample_senv 50) (sample_server snapshot_options sample)"
    "can_save (sample_senv 50) (sample_server snapshot_options (one_shard [([], string_entry ''v'' zero_time)]))"
    unfolding sample_def
    by (simp_all add: entry_shapes entry_expired_def snap_of_def snapshot_entry_def empty_snap_def clone_bytes_def
        clone_set_def clone_hash_def go_range_def snapshot_ok_def entry_ok_def field_ok_def items_ok_def pair_ok_def
        deadline_ok_def is_zero_def zero_time_def)
qed

lemma sample_server_save:
  assumes "can_save (sample_senv 50) (sample_server snapshot_options st)"
  shows "\<exists>sv1 w. server_save (sample_senv 50) (sample_server snapshot_options st) = (sv1, None) \<and>
    sdir sv1 ''db'' = Some w \<and> w \<noteq> []"
proof -
  let ?sv = "sample_server snapshot_options st" and ?es = "saved_entries (sample_senv 50) (sample_server snapshot_options st)"
  obtain w where w: "snapshot_encode (\<lambda>_ ks. ks) ?es = Inr w"
    using snapshot_encode_message [of ?es "\<lambda>_ ks. ks"] assms by (auto simp: can_save_def)
  then have "w \<noteq> []" by (auto simp: snapshot_encode_def snapshot_magic_def split: sum.splits)
  moreover have "snd (server_save (sample_senv 50) ?sv) = None"
    "sdir (fst (server_save (sample_senv 50) ?sv)) ''db'' = Some w"
    using w by (simp_all add: server_save_def snapshot_save_def snapshot_options_def sample_os_def save_file_def
        saved_entries_def os_rename_def record_snapshot_def case_prod_unfold Let_def)
  ultimately show ?thesis by (metis prod.collapse)
qed

lemma sample_restarts: "restarts_on (sample_start dir) snapshot_options (sample_server snapshot_options st)"
  by (simp add: restarts_on_def snapshot_options_def sample_options_def sample_start_def check_options_def
      valid_command_log_mode_def)

text \<open>
  C7: save, stop, start again, for a store in which the empty key is not live and whose entries are
  within the limits of the format (\<open>snapshot_ok\<close>: at most 1024 * 1024 entries, items and pairs,
  fields of at most 64 MiB, deadlines in the range of 64-bit nanoseconds). When \<open>Save\<close> reports success, the next
  process, started with the same path on the directory that is left, comes up, and from then on every
  client sees exactly what it would have seen in the old one: the same keys, values and deadlines.
\<close>
theorem restart_from_snapshot:
  assumes "can_save e sv" and "server_save e sv = (sv1, None)"
    and "restarts_on se o' sv" and "start_dir se = sdir sv1"
    and "live_at (save_clock e) (lookup (sstore sv) []) = None"
    and "save_clock e \<le> start_load_clock se" and "start_load_clock se \<le> t"
  shows "\<exists>sv2. new_with_options se o' = Inr sv2 \<and> wf_store (sstore sv2) \<and>
    abs_store t (sstore sv2) = abs_store t (sstore sv)"
proof -
  obtain s0 es where s0: "wf_store s0"
    "list_all2 represents es (live_range (shard_order (cmd_env e)) (save_clock e) (sstore sv))"
    "case store_restore (start_orders se) (start_load_clock se) es s0 of
       (s, Some err) \<Rightarrow> new_with_options se o' = Inl (StartSnapshot (SnapRestore err))
     | (s, None) \<Rightarrow> \<exists>sv. new_with_options se o' = Inr sv \<and> sstore sv = s"
    using save_then_start [OF assms(1-4)] .
  have "wf_store (sstore sv)" "\<And>i. valid_order (shard_order (cmd_env e) i)" "\<And>k. valid_order (start_orders se k)"
    using assms(1,3) by (simp_all add: can_save_def senv_ok_def restarts_on_def)
  note r = restore_live_range [where ord = "shard_order (cmd_env e)" and vord = "start_orders se", OF this(1) s0(1) this(2,3) assms(6,7) s0(2) assms(5)]
  then show ?thesis using s0(3) by (cases "store_restore (start_orders se) (start_load_clock se) es s0") auto
qed

text \<open>
  The one obstacle. \<open>SET\<close> accepts the empty key and \<open>Save\<close> writes it, but \<open>Restore\<close> refuses
  it: after a successful save of a store in which the empty key is live, the next process does not
  start.
\<close>
theorem empty_key_blocks_restart:
  assumes "can_save e sv" and "server_save e sv = (sv1, None)"
    and "restarts_on se o' sv" and "start_dir se = sdir sv1"
    and "live_at (save_clock e) (lookup (sstore sv) []) \<noteq> None"
  shows "new_with_options se o' = Inl (StartSnapshot (SnapRestore EmptyKey))"
proof -
  obtain s0 es where wf: "wf_store s0" and s0:
    "list_all2 represents es (live_range (shard_order (cmd_env e)) (save_clock e) (sstore sv))"
    "case store_restore (start_orders se) (start_load_clock se) es s0 of
       (s, Some err) \<Rightarrow> new_with_options se o' = Inl (StartSnapshot (SnapRestore err))
     | (s, None) \<Rightarrow> \<exists>sv. new_with_options se o' = Inr sv \<and> sstore sv = s"
    using save_then_start [OF assms(1-4)] .
  have "wf_store (sstore sv)" "\<And>i. valid_order (shard_order (cmd_env e) i)" "\<And>k. valid_order (start_orders se k)"
    using assms(1,3) by (simp_all add: can_save_def senv_ok_def restarts_on_def)
  note r = restore_empty_key [where ord = "shard_order (cmd_env e)" and vord = "start_orders se"
      and now = "start_load_clock se" and r = s0,
      OF this s0(1) assms(5)]
  then show ?thesis using s0(2) by (cases "store_restore (start_orders se) (start_load_clock se) es s0") auto
qed

text \<open>
  C22: a truncated snapshot is never loaded. Whatever strict prefix of a saved file is found at the
  next start, the process refuses to start with an end-of-file error.
\<close>
theorem truncated_snapshot_refused:
  assumes "can_save e sv" and "server_save e sv = (sv1, None)"
    and "restarts_on se o' sv" and "sdir sv1 (opt_snapshot_path (sopts sv)) = Some w"
    and "strict_prefix p w" and "start_dir se (opt_snapshot_path (sopts sv)) = Some p"
  shows "\<exists>err. new_with_options se o' = Inl (StartSnapshot err) \<and> snap_eof err"
proof -
  obtain es where "message snap_eof (snapshot_decode EOF) w es"
    using server_save_ok_dir [of e sv sv1] assms(1,2,4) unfolding can_save_def by (metis fun_upd_same option.inject)
  then obtain err where "snapshot_decode EOF p = Inl err" "snap_eof err"
    using assms(5) by (auto simp: message_def)
  then show ?thesis
    using start_with_snapshot [of o' se p] assms(1,3,6) by (auto simp: restarts_on_def can_save_def)
qed

text \<open>The properties at work: the sample store survives, one with the empty key does not.\<close>

theorem restart_from_snapshot_witness:
  "\<exists>sv1 sv2. server_save (sample_senv 50) (sample_server snapshot_options sample) = (sv1, None) \<and>
     new_with_options (sample_start (sdir sv1)) snapshot_options = Inr sv2 \<and>
     abs_store 70 (sstore sv2) ''s'' = Some (StringView ''v'', 100)"
proof -
  obtain sv1 where sv1: "server_save (sample_senv 50) (sample_server snapshot_options sample) = (sv1, None)"
    using sample_server_save [OF sample_can_save(1)] by blast
  have "live_at 50 (lookup sample []) = None" by (simp add: sample_def)
  with restart_from_snapshot [OF sample_can_save(1) sv1 sample_restarts, of "sdir sv1" 70]
  obtain sv2 where "new_with_options (sample_start (sdir sv1)) snapshot_options = Inr sv2"
    "abs_store 70 (sstore sv2) = abs_store 70 sample"
    by (auto simp: sample_start_def)
  moreover have "abs_store 70 sample ''s'' = Some (StringView ''v'', 100)"
    by (simp add: abs_store_def live_at_def entry_shapes entry_expired_def abs_entry_def)
  ultimately show ?thesis using sv1 by auto
qed

theorem empty_key_blocks_restart_witness:
  "\<exists>sv1. server_save (sample_senv 50)
       (sample_server snapshot_options (one_shard [([], string_entry ''v'' zero_time)])) = (sv1, None) \<and>
     new_with_options (sample_start (sdir sv1)) snapshot_options = Inl (StartSnapshot (SnapRestore EmptyKey))"
proof -
  let ?st = "one_shard [([], string_entry ''v'' zero_time)]"
  obtain sv1 where sv1: "server_save (sample_senv 50) (sample_server snapshot_options ?st) = (sv1, None)"
    using sample_server_save [OF sample_can_save(2)] by blast
  have "live_at 50 (lookup ?st []) \<noteq> None"
    by (simp add: live_at_def entry_shapes entry_expired_def is_zero_def)
  with empty_key_blocks_restart [OF sample_can_save(2) sv1 sample_restarts, of "sdir sv1"]
  show ?thesis using sv1 by (auto simp: sample_start_def)
qed

theorem truncated_snapshot_refused_witness:
  "\<exists>err. new_with_options (sample_start [''db'' \<mapsto> []]) snapshot_options = Inl (StartSnapshot err) \<and> snap_eof err"
proof -
  obtain sv1 w where sv1: "server_save (sample_senv 50) (sample_server snapshot_options sample) = (sv1, None)"
    "sdir sv1 ''db'' = Some w" "w \<noteq> []"
    using sample_server_save [OF sample_can_save(1)] by blast
  then have "strict_prefix [] w" by (simp add: strict_prefix_def)
  with truncated_snapshot_refused [OF sample_can_save(1) sv1(1) sample_restarts [of "[''db'' \<mapsto> []]"], of w "[]"] sv1(2)
  show ?thesis by (simp add: snapshot_options_def sample_start_def)
qed

text \<open>
  C23: the file is replaced all at once. Whatever the operating system answers, after \<open>Save\<close> the
  path holds what it held before, if an error is reported, or else the whole encoding of the
  entries; no other file changes, and the temporary file is gone if it can be removed.
\<close>
theorem save_all_or_nothing:
  assumes "snapshot_save ord vord eord now os path s dir = (s', dir', err)"
    and "tmp_name os \<noteq> path" and "dir (tmp_name os) = None"
  shows "(if err = None
      then \<exists>w. snapshot_encode eord (snd (store_snapshot ord vord now s)) = Inr w \<and> dir' path = Some w
      else dir' path = dir path) \<and>
    (\<forall>k. k \<noteq> path \<longrightarrow> k \<noteq> tmp_name os \<longrightarrow> dir' k = dir k) \<and>
    (remove_err os = None \<longrightarrow> dir' (tmp_name os) = None)"
proof -
  let ?content = "snapshot_encode eord (snd (store_snapshot ord vord now s))"
  consider (early) "dir' = dir" "err \<noteq> None" | (written) "save_file os path ?content dir = (dir', err)"
    using assms(1) by (auto simp: snapshot_save_def Let_def case_prod_unfold split: if_splits option.splits)
  then show ?thesis
  proof cases
    case early
    then show ?thesis using assms(3) by auto
  next
    case written
    note atomic = save_file_atomic [where os = os and path = path and dir = dir and content = ?content,
        OF assms(2,3)]
    show ?thesis
    proof (cases err)
      case None
      obtain w where w: "?content = Inr w" using atomic(3) written None by auto
      then have "dir' = dir(path \<mapsto> w)" using atomic(2) [of w] written None by simp
      then show ?thesis using w None assms(2,3) by simp
    next
      case (Some e)
      then show ?thesis using atomic(1,4,5) written by auto
    qed
  qed
qed

theorem save_all_or_nothing_witness:
  "\<exists>s' dir' err. snapshot_save (\<lambda>_ ks. ks) (\<lambda>_ ks. ks) (\<lambda>_ ks. ks) 50
       (sample_os\<lparr>rename_err := Some ''disk''\<rparr>) ''db'' sample [''db'' \<mapsto> ''old''] = (s', dir', err) \<and>
     err \<noteq> None \<and> dir' ''db'' = Some ''old'' \<and> dir' ''.llavero-1.snap'' = None"
proof -
  obtain s' dir' err where r: "snapshot_save (\<lambda>_ ks. ks) (\<lambda>_ ks. ks) (\<lambda>_ ks. ks) 50
      (sample_os\<lparr>rename_err := Some ''disk''\<rparr>) ''db'' sample [''db'' \<mapsto> ''old''] = (s', dir', err)"
    by (metis prod.exhaust)
  have "err \<noteq> None"
    using r by (auto simp: snapshot_save_def sample_os_def save_file_def Let_def case_prod_unfold
        split: sum.splits)
  moreover have "(if err = None then dir' ''db'' \<noteq> None else dir' ''db'' = Some ''old'')"
    and "dir' ''.llavero-1.snap'' = None"
    using save_all_or_nothing [OF r] by (auto simp: sample_os_def split: if_splits)
  ultimately show ?thesis using r by auto
qed

end
