(* ===== verification/Log_Properties.thy ===== *)
theory Log_Properties
  imports Sample_Server
begin

section \<open>Properties of the append-only file\<close>

text \<open>
  What logging promises (\<open>internal/persistence/aof.go\<close>, \<open>internal/server/aof.go\<close>): every change a
  client can see is in the file or is answered with an error, what is in the file is accepted by
  the replay and rebuilds the store, and a crash loses at most the records that were not durable.
  They rest on the interpretation \<open>aof_record\<close>, on \<open>log_run\<close> and on \<open>replay_loop_crash\<close>. Two
  counterexamples show where the code falls short.
\<close>

subsection \<open>Every visible change is logged\<close>

lemma request_wire_nonempty [simp]: "encode_command uc cmd \<noteq> []"
  by (simp add: encode_command_def)

lemma save_func_faded:
  assumes "senv_ok e" and "save_clock e \<le> t"
  shows "save_ok t (save_func e sv)"
  unfolding save_ok_def
proof (intro allI impI conjI)
  fix f s x assume f: "save_func e sv = Some f" and wf: "wf_store s"
  show "wf_store (fst (f s x))" using save_func_ok [OF assms(1) f wf] .
  have ords: "\<And>i. valid_order (shard_order (cmd_env e) i)" using assms(1) by (simp add: senv_ok_def)
  have "faded t s (fst (store_snapshot (shard_order (cmd_env e)) (\<lambda>_. map_order (cmd_env e)) (save_clock e) s))"
    using faded_thinned [OF wf thinned_store_snapshot [where ord = "shard_order (cmd_env e)", OF wf ords]]
      assms(2) by simp
  then show "faded t s (fst (f s x))"
    using f by (auto simp: save_func_def snapshot_save_def Let_def case_prod_unfold split: if_splits option.splits)
qed

text \<open>All the readings of the clock of one command are at most \<open>t\<close>.\<close>

definition clocks_before :: "time \<Rightarrow> senv \<Rightarrow> bool" where
  "clocks_before t e \<longleftrightarrow>
     (\<forall>i. clock (cmd_env e) i \<le> t) \<and> (\<forall>i. memory_clock e i \<le> t) \<and> save_clock e \<le> t"

lemma saof_dispatch: "saof (fst (server_dispatch_result e cmd sv)) = saof sv"
proof -
  have "saof (fst (snd (f s sv))) = saof sv" if "save_func e sv0 = Some f" for f s sv0
    using that by (auto simp: save_func_def record_snapshot_def Let_def case_prod_unfold split: if_splits)
  then have "saof (fst (snd (dispatch_result (save_func e sv) (cmd_env e) cmd (sstore sv) sv))) = saof sv"
    by (cases rule: dispatch_cases [of "save_func e sv" "cmd_env e" cmd "sstore sv" sv])
       (simp_all add: cmd_save_def case_prod_unfold split: option.split)
  then show ?thesis by (simp add: server_dispatch_result_def case_prod_unfold Let_def)
qed

lemma server_dispatch_faded:
  assumes "senv_ok e" and "wf_store (sstore sv)" and "clocks_before t e"
    and "(\<exists>lc. aof_command (upper (cmd_env e)) now cmd = Some (lc, False)) \<or>
         is_error_reply (Some (snd (server_dispatch_result e cmd sv)))"
  shows "faded t (sstore sv) (sstore (fst (server_dispatch_result e cmd sv)))"
proof -
  let ?d = "dispatch_result (save_func e sv) (cmd_env e) cmd (sstore sv) sv"
  have d: "sstore (fst (server_dispatch_result e cmd sv)) = fst ?d" "snd (server_dispatch_result e cmd sv) = snd (snd ?d)"
    by (simp_all add: server_dispatch_result_def case_prod_unfold Let_def)
  have "save_ok t (save_func e sv)" "\<And>i. clock (cmd_env e) i \<le> t"
    using save_func_faded [OF assms(1)] assms(3) by (auto simp: clocks_before_def)
  moreover have "(\<exists>lc. aof_command (upper (cmd_env e)) now cmd = Some (lc, False)) \<or>
      (\<exists>msg. snd (snd ?d) = ErrorReply msg)"
    using assms(4) by (auto simp: d is_error_reply_def split: reply.splits)
  ultimately show ?thesis unfolding d by (intro dispatch_faded [OF assms(2)])
qed

lemma locked_logs:
  assumes "senv_ok e" and "wf_store (sstore sv)" and "clocks_before t e" and "saof sv = Some a"
    and "locked_result e cmd lc sv = (sv', r)"
  shows "\<exists>a'. saof sv' = Some a' \<and>
    (aof_bytes a' = aof_bytes a \<and> faded t (sstore sv) (sstore sv') \<or>
     append_write e = None \<and> aof_bytes a' = aof_bytes a @ encode_command (upper (cmd_env e)) lc \<or>
     (\<exists>n err. append_write e = Some (n, err) \<and> r = ErrorReply (''ERR AOF '' @ err) \<and>
       aof_bytes a' = aof_bytes a @ take n (encode_command (upper (cmd_env e)) lc)))"
proof (cases "is_error_reply (Some (snd (server_dispatch_result e cmd sv)))")
  case True
  then have "server_dispatch_result e cmd sv = (sv', r)"
    using assms(5) by (simp add: locked_result_eq case_prod_unfold Let_def)
  then show ?thesis
    using server_dispatch_faded [OF assms(1-3), of undefined cmd] saof_dispatch [of e cmd sv] True assms(4)
    by simp
next
  case False
  let ?ap = "aof_append (upper (cmd_env e)) lc (append_since e) (append_now e) (append_write e) (append_sync e) a"
  have "saof (fst (server_dispatch_result e cmd sv)) = Some a" using assms(4) by (simp add: saof_dispatch)
  then have sv': "saof sv' = Some (fst ?ap)"
    and r: "\<And>err. snd ?ap = Some err \<Longrightarrow> r = ErrorReply (''ERR AOF '' @ err)"
    using False assms(5)
    by (auto simp: locked_result_eq case_prod_unfold Let_def split: option.splits)
  show ?thesis
  proof (cases "append_write e")
    case None
    then show ?thesis using sv' by (simp add: aof_append_bytes)
  next
    case (Some fault)
    then have "snd ?ap = Some (snd fault)"
      by (cases fault) (simp add: aof_append_def file_write_def)
    then show ?thesis using sv' r Some by (cases fault) (simp add: aof_append_bytes)
  qed
qed

text \<open>
  C8: with an append-only file, a data command ends in one of three ways. It leaves the file as it is,
  and then no client can tell that it ran: error replies, refusals for memory, reads and \<open>SAVE\<close>. Or it
  appends exactly one record, that of the command to be replayed for it (a sync that fails makes the
  reply an error). Or the write to the file fails: then the reply is the error of that write, and
  what a short write left of the record is in the file. So no change is acknowledged without its
  record; a change whose write failed is visible and not in the log.
\<close>
theorem visible_change_logged:
  assumes "senv_ok e" and "wf_store (sstore sv)" and "clocks_before t e"
    and "saof sv = Some a" and "dispatch_with_aof e cmd sv = Some (sv', r)"
  shows "\<exists>a'. saof sv' = Some a' \<and>
    (aof_bytes a' = aof_bytes a \<and> abs_store t (sstore sv') = abs_store t (sstore sv) \<or>
     (\<exists>lc. aof_command (upper (cmd_env e)) (log_clock e) cmd = Some (lc, True) \<and>
       (append_write e = None \<and> aof_bytes a' = aof_bytes a @ encode_command (upper (cmd_env e)) lc \<or>
        (\<exists>n err. append_write e = Some (n, err) \<and> r = ErrorReply (''ERR AOF '' @ err) \<and>
          aof_bytes a' = aof_bytes a @ take n (encode_command (upper (cmd_env e)) lc)))))"
proof -
  have abs: "abs_store t s' = abs_store t s" if "faded t s s'" for s s'
    using that by (simp add: abs_store_def faded_live fun_eq_iff)
  obtain lc ok where lc: "aof_command (upper (cmd_env e)) (log_clock e) cmd = Some (lc, ok)"
    using assms(5) by (auto simp: dispatch_with_aof_eq split: option.splits prod.splits)
  show ?thesis
  proof (cases ok)
    case False
    then have sv': "sv' = fst (server_dispatch_result e cmd sv)"
      using assms(5) lc by (simp add: dispatch_with_aof_eq prod_eq_iff)
    have "faded t (sstore sv) (sstore sv')"
      unfolding sv' using lc False by (intro server_dispatch_faded [OF assms(1-3)] disjI1) auto
    then show ?thesis using abs assms(4) by (simp add: sv' saof_dispatch)
  next
    case True
    let ?m = "memory_limit_exceeded_result (upper (cmd_env e)) (memory_clock e) (opt_max_memory_bytes (sopts sv))
        lc (sstore sv)"
    have m: "wf_store (fst ?m)" "faded t (sstore sv) (fst ?m)"
      using memory_limit_store [OF assms(2), of "memory_clock e" t] assms(3)
      by (simp_all add: clocks_before_def)
    consider (oom) "sv' = record_oom_rejected_write (sv\<lparr>sstore := fst ?m\<rparr>)"
      | (run) s where "wf_store s" "faded t (sstore sv) s"
          "locked_result e cmd lc (sv\<lparr>sstore := s\<rparr>) = (sv', r)"
      using assms(2,4,5) lc True m faded_refl [of t "sstore sv"]
      by (cases "opt_max_memory_bytes (sopts sv) > 0"; cases "snd ?m")
         (auto simp: dispatch_with_aof_eq case_prod_unfold Let_def)
    then show ?thesis
    proof cases
      case oom
      then show ?thesis using abs [OF m(2)] assms(4) by (simp add: record_oom_rejected_write_def)
    next
      case (run s)
      from locked_logs [OF assms(1) _ assms(3) _ run(3), of a] run(1) assms(4)
      show ?thesis using lc True run(2) abs faded_trans by fastforce
    qed
  qed
qed

text \<open>A server with an append-only file, for the witnesses.\<close>

definition empty_log :: aof where
  "empty_log = \<lparr>aof_bytes = [], aof_durable = 0, aof_policy = FsyncAlways, aof_last_sync = zero_time\<rparr>"

definition logging :: "store \<Rightarrow> server" where
  "logging st = (sample_server sample_options st)\<lparr>saof := Some empty_log\<rparr>"

lemma logging_simps [simp]:
  "sstore (logging st) = st" "saof (logging st) = Some empty_log" "sopts (logging st) = default_options sample_options"
  by (simp_all add: logging_def)

lemma clocks_before_sample [simp]: "clocks_before t (sample_senv t)"
  by (simp add: clocks_before_def)

theorem visible_change_logged_witness:
  "\<exists>sv' r a'. dispatch_with_aof (sample_senv 200) \<lparr>cmd_name = ''GET'', cmd_args = [''s'']\<rparr> (logging sample)
       = Some (sv', r) \<and> saof sv' = Some a' \<and> aof_bytes a' = [] \<and>
     abs_store 200 (sstore sv') = abs_store 200 sample"
proof -
  let ?cmd = "\<lparr>cmd_name = ''GET'', cmd_args = [''s'']\<rparr>"
  have lc: "aof_command (\<lambda>b. b) 200 ?cmd = Some (empty_command, False)"
    by (simp add: aof_command_eqs go_eval is_ascii_def to_upper_def)
  then have "dispatch_with_aof (sample_senv 200) ?cmd (logging sample) \<noteq> None"
    by (simp add: dispatch_with_aof_eq)
  then obtain sv' r where d: "dispatch_with_aof (sample_senv 200) ?cmd (logging sample) = Some (sv', r)"
    by auto
  show ?thesis
    using visible_change_logged [OF sample_senv_ok _ clocks_before_sample _ d] d lc
    by (auto simp: empty_log_def)
qed

subsection \<open>What is logged is what the replay reads\<close>

lemma length_format_int_bulk: "in_i64 n \<Longrightarrow> bulk_ok (format_int n)"
  using length_format_int [of n] by (simp add: bulk_ok_def)

text \<open>
  C24: the record of a command that came through the parser is read back as the same command,
  whatever follows it in the file, no strict prefix of it is read as a command, and
  \<open>replayAOFCommand\<close> accepts it at any time, on any store. Names and arguments may hold any bytes.
\<close>
theorem logged_record_replays:
  assumes "aof_command uc now cmd = Some (lc, True)"
    and "parts_ok (to_upper uc (cmd_name cmd) # cmd_args cmd)" and "upper env = uc"
  shows "resp_parse uc EOF (encode_command uc lc @ rest) = Inr (lc, rest) \<and>
    (\<forall>p. strict_prefix p (encode_command uc lc) \<longrightarrow> (\<exists>err. resp_parse uc EOF p = Inl err \<and> is_eof err)) \<and>
    snd (replay_aof_command env now' lc s) = None"
proof -
  have ok: "command_ok uc lc"
  proof (cases "rewritten uc cmd")
    case True
    from assms(1) this show ?thesis
    proof (cases rule: aof_command_rewritten)
      case (set a b at)
      then have "{a, b} \<subseteq> set (cmd_args cmd)"
        using assms(1) True
        by (auto simp: aof_command_eqs rewritten_def Let_def normalized_command_def intro!: nth_mem
            split: if_splits option.splits)
      then show ?thesis
        using assms(2) set length_format_int_bulk [of at]
        by (auto simp: command_ok_def command_parts_def parts_ok_def list_all_iff bulk_ok_def)
    next
      case (expire a at)
      then have "a \<in> set (cmd_args cmd)"
        using assms(1) True
        by (auto simp: aof_command_eqs rewritten_def Let_def normalized_command_def intro!: nth_mem
            split: if_splits option.splits)
      then show ?thesis
        using assms(2) expire length_format_int_bulk [of at]
        by (auto simp: command_ok_def command_parts_def parts_ok_def list_all_iff bulk_ok_def)
    qed
  next
    case False
    from aof_command_plain [OF assms(1) False] show ?thesis
      using assms(2) by (simp add: command_ok_def command_parts_def normalized_command_def)
  qed
  then show ?thesis
    using aof_command_again [OF assms(1), of now'] assms(3)
    by (simp add: aof_record.roundtrip aof_record.truncated replay_aof_command_eq case_prod_unfold)
qed

theorem logged_record_replays_witness:
  "\<exists>lc. aof_command (\<lambda>b. b) 0 \<lparr>cmd_name = ''EXPIRE'', cmd_args = [''k'', ''10'']\<rparr> = Some (lc, True) \<and>
     resp_parse (\<lambda>b. b) EOF (encode_command (\<lambda>b. b) lc @ ''rest'') = Inr (lc, ''rest'') \<and>
     snd (replay_aof_command (sample_env 5) 5 lc sample) = None"
proof -
  let ?cmd = "\<lparr>cmd_name = ''EXPIRE'', cmd_args = [''k'', ''10'']\<rparr>"
  have up: "to_upper (\<lambda>b. b) ''EXPIRE'' = ''EXPIRE''" by (simp add: to_upper_def is_ascii_def ascii_upper_def)
  have p: "parse_int ''10'' = Some 10" using parse_int_format_int [of 10] by (simp add: in_i64_def go_eval format_int_def)
  obtain lc where lc: "aof_command (\<lambda>b. b) 0 ?cmd = Some (lc, True)"
    by (simp add: aof_command_eqs up p)
  have "parts_ok (to_upper (\<lambda>b. b) (cmd_name ?cmd) # cmd_args ?cmd)"
    by (simp add: up parts_ok_def bulk_ok_def)
  from logged_record_replays [OF lc this, of "sample_env 5" "''rest''" 5 sample] show ?thesis using lc by auto
qed

subsection \<open>Restart\<close>

lemma replay_loop_log:
  assumes "log_invariant uc envs nows s0 log sv"
  shows "\<exists>a r. saof sv = Some a \<and> wf_store r \<and> lookup r = lookup (sstore sv) \<and>
    replay_loop uc (replay_step envs nows) EOF (aof_bytes a) (s0, 0) = ((r, length log), None)"
proof -
  obtain a r where "saof sv = Some a" "aof_bytes a = encode_commands uc log" "list_all (command_ok uc) log"
    "apply_all (replay_step envs nows) log (s0, 0) = ((r, length log), None)" "wf_store r"
    "lookup r = lookup (sstore sv)"
    using assms by (auto simp: log_invariant_def replays_to_def)
  then show ?thesis
    using replay_loop_records [of uc log "[]" "replay_step envs nows" "(s0, 0)"] by (intro exI [of _ a] exI [of _ r]) simp
qed

text \<open>A process that starts on a log of that content.\<close>

definition starts_on_log :: "start_env \<Rightarrow> options \<Rightarrow> bytes \<Rightarrow> bool" where
  "starts_on_log se o' content \<longleftrightarrow>
     check_options o' = None \<and> opt_snapshot_path o' = [] \<and> opt_aof_path o' \<noteq> [] \<and>
     parse_fsync_policy (start_lower se)
       (if opt_aof_sync o' = [] then ''always'' else opt_aof_sync o') \<noteq> None \<and>
     aof_opened se = Inr (Some content) \<and> aof_fin se = EOF \<and> aof_mkdir_err se = None \<and>
     (\<exists>synced. aof_open se = Inr (content, synced)) \<and> (\<forall>i. upper (replay_envs se i) = start_upper se)"

text \<open>
  C6: run, stop, start again, with an append-only file. A server without keys runs any sequence
  of commands (from any number of connections, in the order they take the mutex; reads, refused and
  failing commands included; no deadlines), and the next process is started on its file: it comes
  up, whatever its clock, with the same map. Writes and syncs do not fail.
\<close>
theorem restart_from_log:
  assumes "wf_store (sstore sv)" and "\<And>k. lookup (sstore sv) k = None"
    and "saof sv = Some a" and "aof_bytes a = []" and "opt_snapshot_path (sopts sv) = []"
    and "list_all (plain_step uc) steps" and "run_commands steps sv = Some sv'"
    and "saof sv' = Some a'" and "starts_on_log se o' (aof_bytes a')" and "start_upper se = uc"
  shows "\<exists>sv2. new_with_options se o' = Inr sv2 \<and> wf_store (sstore sv2) \<and>
    lookup (sstore sv2) = lookup (sstore sv')"
proof -
  obtain s0 where s0: "new_store 256 = Inr s0" "wf_store s0" "\<And>k. lookup s0 k = None"
    using new_store_256 by blast
  have "lookup s0 = lookup (sstore sv)" using s0(3) assms(2) by auto
  then have "log_invariant uc (replay_envs se) (replay_clocks se) s0 [] sv"
    using assms(1-5) s0(2)
    by (simp add: log_invariant_def replays_to_def no_deadlines_def encode_commands_def)
  then obtain log' where "log_invariant uc (replay_envs se) (replay_clocks se) s0 log' sv'"
    using log_run [of uc "replay_envs se" "replay_clocks se" s0 "[]" sv steps sv'] assms(6,7,9,10)
    by (auto simp: starts_on_log_def)
  then obtain r where r: "wf_store r" "lookup r = lookup (sstore sv')"
    "replay_loop uc (replay_step (replay_envs se) (replay_clocks se)) EOF (aof_bytes a') (s0, 0)
      = ((r, length log'), None)"
    using replay_loop_log assms(8) by fastforce
  then have "open_server_aof se o' s0 \<noteq> Inl e \<and> (\<exists>af. open_server_aof se o' s0 = Inr (r, Some af))" for e
    using assms(9,10) by (auto simp: open_server_aof_def starts_on_log_def replay_aof_def open_aof_def Let_def)
  then obtain af where "open_server_aof se o' s0 = Inr (r, Some af)" by blast
  then show ?thesis
    using r(1,2) s0(1) assms(9) by (simp add: new_with_options_def starts_on_log_def)
qed

definition log_options :: options where
  "log_options = sample_options\<lparr>opt_aof_path := ''log''\<rparr>"

lemma sample_starts_on_log:
  "starts_on_log ((sample_start Map.empty)\<lparr>aof_opened := Inr (Some w), aof_open := Inr (w, synced)\<rparr>) log_options w"
  by (simp add: starts_on_log_def log_options_def sample_options_def sample_start_def check_options_def
      valid_command_log_mode_def parse_fsync_policy_def to_lower_def is_ascii_def ascii_lower_def)

theorem restart_from_log_witness:
  "\<exists>sv' a' sv2. run_commands [(sample_senv 50, \<lparr>cmd_name = ''SET'', cmd_args = [''k'', ''v'']\<rparr>)] (logging (one_shard []))
       = Some sv' \<and> saof sv' = Some a' \<and>
     new_with_options ((sample_start Map.empty)\<lparr>aof_opened := Inr (Some (aof_bytes a')),
         aof_open := Inr (aof_bytes a', aof_durable a')\<rparr>)
       log_options = Inr sv2 \<and>
     lookup (sstore sv2) ''k'' = Some (string_entry ''v'' zero_time)"
proof -
  let ?cmd = "\<lparr>cmd_name = ''SET'', cmd_args = [''k'', ''v'']\<rparr>" and ?sv = "logging (one_shard [])"
  obtain sv' a' where run: "run_commands [(sample_senv 50, ?cmd)] ?sv = Some sv'" and a': "saof sv' = Some a'"
    and st: "sstore sv' = store_set_ex ''k'' ''v'' zero_time (one_shard [])"
    by (simp add: dispatch_with_aof_eq aof_command_eqs normalized_command_def sample_options_def
        locked_result_eq server_dispatch_result_def dispatch_result_eq handlers_def run_def cmd_set_def Let_def
        case_prod_unfold is_error_reply_def aof_append_def file_write_def file_sync_def empty_log_def)
  have "lookup (sstore sv') ''k'' = Some (string_entry ''v'' zero_time)"
    using set_ex.lookup_op [of "one_shard []" "''k''" "''v''" zero_time] by (simp add: st store_defs)
  moreover have "plain_step (\<lambda>b. b) (sample_senv 50, ?cmd)"
    by (auto simp: plain_step_def rewritten_def parts_ok_def bulk_ok_def intro!: exI [of _ 50])
  ultimately show ?thesis
    using restart_from_log [OF _ _ _ _ _ _ run a' sample_starts_on_log, of empty_log "\<lambda>b. b" "aof_durable a'"] run a'
    by (auto simp: empty_log_def sample_options_def sample_start_def)
qed

subsection \<open>Crashes\<close>

text \<open>
  C9: what \<open>always\<close> promises. A log is opened on a file of whole records, and any number of commands
  are appended under this policy, with any failures of \<open>Sync\<close>; only the last write may fail. Then
  whatever part of the bytes not yet durable a crash takes away, the replay of what is left ends
  without an error and applies every command whose \<open>Append\<close> returned without one, and all before it,
  in order. A file whose last record an earlier crash or write cut short is not of this kind:
  \<open>append_after_crash_corrupts\<close>.
\<close>
theorem crash_keeps_durable:
  assumes "open_aof path FsyncAlways mkdir_fault (Inr (encode_commands uc cmds, synced)) = Inr a"
    and "list_all (command_ok uc) (cmds @ map fst calls)"
    and "\<forall>call \<in> set (butlast calls). call_fault call = None"
    and "append_all uc calls a = (a', acked)"
    and "prefix p (aof_bytes a')" and "aof_durable a' \<le> length p"
  shows "\<exists>n \<le> length cmds + length calls.
    (\<forall>i < length calls. acked ! i \<longrightarrow> length cmds + i < n) \<and>
    replay_loop uc appl EOF p st = apply_all appl (take n (cmds @ map fst calls)) st"
proof -
  let ?all = "cmds @ map fst calls"
  have a: "aof_bytes a = encode_commands uc cmds" "aof_policy a = FsyncAlways"
    "aof_durable a \<le> length (aof_bytes a)"
    using assms(1) by (auto simp: open_aof_def split: if_splits option.splits)
  note run = append_all_always [OF a assms(3), unfolded assms(4) fst_conv snd_conv]
  have p: "prefix p (encode_commands uc ?all)" using assms(5) run prefix_order.trans by blast
  define k where "k = (if \<exists>i < length calls. acked ! i
      then Suc (length cmds + (GREATEST i. i < length calls \<and> acked ! i)) else 0)"
  have k: "length cmds + i < k" if "i < length calls" "acked ! i" for i
    using that Greatest_le_nat [of "\<lambda>i. i < length calls \<and> acked ! i" i "length calls"] by (auto simp: k_def)
  have "k \<le> length ?all \<and> length (encode_commands uc (take k ?all)) \<le> length p"
  proof (cases "\<exists>i < length calls. acked ! i")
    case True
    then obtain i where i: "i < length calls" "acked ! i" "k = Suc (length cmds + i)"
      using GreatestI_ex_nat [of "\<lambda>i. i < length calls \<and> acked ! i" "length calls"] by (auto simp: k_def)
    then have "length (encode_commands uc (cmds @ take (Suc i) (map fst calls))) \<le> length p"
      using run assms(6) le_trans by blast
    then show ?thesis using i by simp
  qed (auto simp: k_def encode_commands_def)
  then obtain n where "k \<le> n" "n \<le> length ?all"
    "replay_loop uc appl EOF p st = apply_all appl (take n ?all) st"
    using replay_loop_crash [OF assms(2) _ p, of k appl st] by blast
  then show ?thesis using k by (intro exI [of _ n]) fastforce
qed

definition incr_command :: command where
  "incr_command = \<lparr>cmd_name = ''INCR'', cmd_args = [''n'']\<rparr>"

lemma incr_command_ok [simp]: "command_ok (\<lambda>b. b) incr_command"
  by (simp add: command_ok_def command_parts_def incr_command_def parts_ok_def bulk_ok_def)

theorem crash_keeps_durable_witness:
  "\<exists>a a' r. open_aof ''log'' FsyncAlways None (Inr ([], 0)) = Inr a \<and>
     append_all (\<lambda>b. b) [(incr_command, 0, 0, None, None), (incr_command, 0, 0, Some (2, ''full''), None)] a
       = (a', [True, False]) \<and>
     replay_loop (\<lambda>b. b) (\<lambda>c st. (st @ [c], None)) EOF (aof_bytes a') [] = (r, None) \<and>
     (r = [incr_command] \<or> r = [incr_command, incr_command])"
proof -
  let ?appl = "\<lambda>c st. (st @ [c], None)"
  let ?calls = "[(incr_command, 0, 0, None, None), (incr_command, 0, 0, Some (2, ''full''), None)]
    :: append_call list"
  obtain a where a: "open_aof ''log'' FsyncAlways None (Inr (encode_commands (\<lambda>b. b) [], 0)) = Inr a"
    "a = empty_log"
    by (simp add: open_aof_def empty_log_def encode_commands_def)
  obtain a' where a': "append_all (\<lambda>b. b) ?calls a = (a', [True, False])" "aof_durable a' \<le> length (aof_bytes a')"
    by (simp add: a(2) aof_append_def file_write_def file_sync_def empty_log_def)
  obtain n where n: "n \<le> 2" "\<forall>i < 2. [True, False] ! i \<longrightarrow> i < n"
    "replay_loop (\<lambda>b. b) ?appl EOF (aof_bytes a') [] = apply_all ?appl (take n [incr_command, incr_command]) []"
    using crash_keeps_durable [OF a(1) _ _ a'(1) prefix_order.refl a'(2), of ?appl "[]"]
    by (auto simp: call_fault_def numeral_2_eq_2)
  have "0 < n" using spec [OF n(2), of 0] by simp
  then show ?thesis using a a' n(1,3) by (auto simp: encode_commands_def le_Suc_eq numeral_2_eq_2)
qed

text \<open>
  After the crash. \<open>OpenAOF\<close> appends after the record that was cut short instead of removing
  it, so the next command is read as its continuation: a log that replayed without an error is
  refused by the start after the next.
\<close>
theorem append_after_crash_corrupts:
  "let torn = take 20 (encode_command (\<lambda>b. b) incr_command);
       appl = (\<lambda>c st. (c # st, None :: bytes option))
   in replay_loop (\<lambda>b. b) appl EOF torn [] = ([], None) \<and>
      (\<exists>a a'. open_aof ''log'' FsyncAlways None (Inr (torn, length torn)) = Inr a \<and>
         aof_append (\<lambda>b. b) incr_command 0 0 None None a = (a', None) \<and>
         replay_loop (\<lambda>b. b) appl EOF (aof_bytes a') [] = ([], Some (ReplayRead ErrProtocol)))"
proof -
  let ?w = "encode_command (\<lambda>b. b) incr_command"
  have w: "?w = ''*2'' @ [CHR 0x0D, CHR 0x0A] @ ''$4'' @ [CHR 0x0D, CHR 0x0A] @ ''INCR'' @ [CHR 0x0D, CHR 0x0A]
      @ ''$1'' @ [CHR 0x0D, CHR 0x0A] @ ''n'' @ [CHR 0x0D, CHR 0x0A]"
    by (simp add: encode_command_def incr_command_def format_int_def go_eval)
  have torn: "resp_parse (\<lambda>b. b) EOF (take 20 ?w) = Inl ErrUnexpectedEOF"
    unfolding w by (simp add: go_eval parse_int_def numeral_2_eq_2 is_digit_def in_i64_def)
  have glued: "resp_parse (\<lambda>b. b) EOF (take 20 ?w @ ?w) = Inl ErrProtocol"
    unfolding w by (simp add: go_eval parse_int_def numeral_2_eq_2 is_digit_def in_i64_def)
  show ?thesis
    using torn glued
    by (simp add: replay_loop.simps [of _ _ _ "take 20 ?w"] replay_loop.simps [of _ _ _ "take 20 ?w @ ?w"]
        open_aof_def aof_append_def file_write_def file_sync_def Let_def)
qed

subsection \<open>Deadlines\<close>

text \<open>
  C25: \<open>EXPIRE\<close> is logged with an absolute deadline, so that the time of the replay does not count:
  replayed at any time on a store where the key is live with the same entry, it gives the key the
  deadline of the first execution or an earlier one. It is earlier by less than a millisecond plus
  the time that passed from the reading of the clock for the log to the one for the execution, with
  the wait for the mutex in between. The seconds are at most 9223372036 either way, and the deadline
  is in the range of 64-bit milliseconds.
\<close>
theorem logged_deadline_fixed:
  assumes "to_upper (upper env) (cmd_name cmd) = ''EXPIRE''" and "cmd_args cmd = [k, b]"
    and "parse_int b = Some secs" and "\<bar>secs\<bar> \<le> 9223372036"
    and "in_i64 ((now + secs * 1000000000) div 1000000)" and "now \<le> clock env 0"
    and "wf_store s" and "live_at (clock env 1) (lookup s k) = Some e"
    and "wf_store r" and "live_at (clock env' 0) (lookup r k) = Some e" and "upper env' = upper env"
  shows "\<exists>lc st reply at at'. aof_command (upper env) now cmd = Some (lc, True) \<and>
    cmd_expire env (cmd_args cmd) s = Some (st, reply) \<and> lookup st k = Some (e\<lparr>expire_at := at\<rparr>) \<and>
    lookup (fst (replay_aof_command env' now' lc r)) k = Some (e\<lparr>expire_at := at'\<rparr>) \<and>
    at' \<le> at \<and> at - at' < 1000000 + (clock env 0 - now)"
proof -
  let ?ms = "unix_milli (time_add now (seconds secs))"
  let ?lc = "\<lparr>cmd_name = ''PEXPIREAT'', cmd_args = [k, format_int ?ms]\<rparr>"
  have lc: "aof_command (upper env) now cmd = Some (?lc, True)"
    using assms(1-3) by (simp add: aof_command_eqs)
  obtain st reply where at: "cmd_expire env (cmd_args cmd) s = Some (st, reply)"
    "lookup st k = Some (e\<lparr>expire_at := time_add (clock env 0) (seconds secs)\<rparr>)"
    using assms(2,3,8) expire_at.lookup_op [OF assms(7)]
    by (simp add: cmd_expire_def store_defs case_prod_unfold Let_def)
  have "aof_command (upper env') now' ?lc = Some (?lc, True)"
    using aof_command_again [OF lc] assms(11) by simp
  then have at': "lookup (fst (replay_aof_command env' now' ?lc r)) k
      = Some (e\<lparr>expire_at := time_unix_milli ?ms\<rparr>)"
    using assms(10) expire_at.lookup_op [OF assms(9)]
    by (simp add: replay_aof_command_eq dispatch_result_eq handlers_def run_def cmd_pexpireat_def store_defs
        case_prod_unfold Let_def)
  have trunc: "x div 1000000 * 1000000 \<le> x \<and> x - x div 1000000 * 1000000 < 1000000" for x :: int
    by presburger
  have "time_unix_milli ?ms = (now + secs * 1000000000) div 1000000 * 1000000"
    using assms(4,5) by (simp add: seconds_exact time_add_def unix_milli_def time_unix_milli_def)
  then have "time_unix_milli ?ms \<le> time_add (clock env 0) (seconds secs) \<and>
      time_add (clock env 0) (seconds secs) - time_unix_milli ?ms < 1000000 + (clock env 0 - now)"
    using assms(6) trunc [of "now + secs * 1000000000"]
    unfolding seconds_exact [OF assms(4)] time_add_def by linarith
  then show ?thesis using lc at at' by blast
qed

theorem logged_deadline_fixed_witness:
  "\<exists>lc st reply at at'.
     aof_command (\<lambda>b. b) 0 \<lparr>cmd_name = ''EXPIRE'', cmd_args = [''n'', ''10'']\<rparr> = Some (lc, True) \<and>
     cmd_expire (sample_env 3) [''n'', ''10''] sample = Some (st, reply) \<and>
     lookup st ''n'' = Some (string_entry ''41'' at) \<and>
     lookup (fst (replay_aof_command (sample_env 999) 999 lc sample)) ''n'' = Some (string_entry ''41'' at') \<and>
     at' \<le> at \<and> at - at' < 1000003"
proof -
  let ?cmd = "\<lparr>cmd_name = ''EXPIRE'', cmd_args = [''n'', ''10'']\<rparr>"
  have up: "to_upper (\<lambda>b. b) ''EXPIRE'' = ''EXPIRE''" by (simp add: to_upper_def is_ascii_def ascii_upper_def)
  have p: "parse_int ''10'' = Some 10" using parse_int_format_int [of 10] by (simp add: in_i64_def go_eval format_int_def)
  have live: "live_at t (lookup sample ''n'') = Some (string_entry ''41'' zero_time)" for t
    by (simp add: live_at_def string_entry_def entry_expired_def)
  show ?thesis
    using logged_deadline_fixed [of "sample_env 3" ?cmd "''n''" "''10''" 10 0 sample "string_entry ''41'' zero_time"
        sample "sample_env 999" 999] up p live
    by (auto simp: in_i64_def string_entry_def)
qed

text \<open>
  Where the replay differs. A command that depends on what a key holds is logged as it is; if
  the key has expired by the time of the replay, the command finds nothing and starts a new key
  without a deadline. Here a key set to expire after a second and then incremented is gone for
  good in the old process, and is back as a permanent \<open>1\<close> in the next one.
\<close>
theorem replay_revives_expired:
  "let log = [\<lparr>cmd_name = ''SET'', cmd_args = [''n'', ''5'', ''PXAT'', ''1000'']\<rparr>, incr_command];
       final = (\<lambda>t. fst (fst (apply_all (replay_step (\<lambda>_. sample_env t) (\<lambda>_. t)) log (one_shard [], 0))))
   in abs_store 2000000000 (final 0) ''n'' = None \<and>
      abs_store 2000000000 (final 2000000000) ''n'' = Some (StringView ''1'', zero_time)"
proof -
  let ?set = "\<lparr>cmd_name = ''SET'', cmd_args = [''n'', ''5'', ''PXAT'', ''1000'']\<rparr>"
  have p: "parse_int ''1000'' = Some 1000" "parse_int ''5'' = Some 5"
    using parse_int_format_int [of 1000] parse_int_format_int [of 5] by (simp_all add: in_i64_def go_eval format_int_def)
  have set: "replay_aof_command (sample_env t) t ?set s = (store_set_ex ''n'' ''5'' 1000000000 s, None)" for s t
    using p by (simp add: replay_aof_command_eq aof_command_eqs set_expiry_millis_def dispatch_result_eq handlers_def
        run_def cmd_set_def time_unix_milli_def)
  have incr: "replay_aof_command (sample_env t) t incr_command s = (fst (store_incr_by ''n'' 1 t s), None)" for s t
    by (simp add: replay_aof_command_eq aof_command_eqs normalized_command_def dispatch_result_eq handlers_def
        incr_command_def run_def cmd_incr_def incr_by_reply_def case_prod_unfold Let_def)
  have s: "wf_store (store_set_ex ''n'' ''5'' 1000000000 (one_shard []))"
    "lookup (store_set_ex ''n'' ''5'' 1000000000 (one_shard [])) ''n'' = Some (string_entry ''5'' 1000000000)"
    using set_ex.lookup_op [of "one_shard []" "''n''" "''5''" 1000000000] by (simp_all add: store_defs store_wf)
  have "lookup (fst (store_incr_by ''n'' 1 t (store_set_ex ''n'' ''5'' 1000000000 (one_shard [])))) ''n''
      = (if 1000000000 < t then Some (string_entry ''1'' zero_time) else Some (string_entry ''6'' 1000000000))" for t
    using incr_by.lookup_op [OF s(1), of "''n''" 1 t] s(2) p(2)
    by (simp add: store_defs live_at_def entry_expired_def string_entry_def is_zero_def zero_time_def i64_def
        in_i64_def format_int_def go_eval)
  then show ?thesis
    by (simp add: Let_def replay_step_def set incr abs_store_def live_at_def entry_expired_def string_entry_def
        abs_entry_def is_zero_def zero_time_def)
qed

end
