(* ===== verification/Go_Flags.thy ===== *)
theory Go_Flags
  imports Prelude
begin

section \<open>Command-line flags\<close>

text \<open>
  The package \<open>flag\<close> as the two binaries use it. A program declares its flags in a table; a
  flag either takes a value or is a switch, and sets a part of the program's state. \<open>Parse\<close>
  reads arguments up to the first that is not a flag and remembers which flags were given, which
  is what \<open>flag.Visit\<close> tells.
\<close>

subsection \<open>\<open>strconv.ParseInt(s, 0, 64)\<close> and \<open>ParseBool\<close>\<close>

definition digit_of :: "char \<Rightarrow> nat option" where
  "digit_of c =
     (let n = byte_val c
      in if 48 \<le> n \<and> n \<le> 57 then Some (n - 48)
         else if 97 \<le> n \<and> n \<le> 122 then Some (n - 87)
         else if 65 \<le> n \<and> n \<le> 90 then Some (n - 55) else None)"

fun base_value :: "nat \<Rightarrow> int \<Rightarrow> bytes \<Rightarrow> int option" where
  "base_value base acc [] = Some acc"
| "base_value base acc (c # cs) =
     (if c = CHR ''_'' then base_value base acc cs
      else case digit_of c of
             None \<Rightarrow> None
           | Some d \<Rightarrow> if d < base then base_value base (acc * int base + int d) cs else None)"

text \<open>The base a prefix asks for, and the digits after it.\<close>

definition base_prefix :: "bytes \<Rightarrow> nat \<times> bytes" where
  "base_prefix s =
     (if s = [] \<or> hd s \<noteq> CHR ''0'' then (10, s)
      else if length s < 3 then (8, tl s)
      else let p = ascii_lower (s ! 1)
           in if p = CHR ''b'' then (2, drop 2 s)
              else if p = CHR ''o'' then (8, drop 2 s)
              else if p = CHR ''x'' then (16, drop 2 s) else (8, tl s))"

text \<open>An underscore stands only between two digits, or a prefix and a digit.\<close>

fun underscores_ok :: "bool \<Rightarrow> char \<Rightarrow> bytes \<Rightarrow> bool" where
  "underscores_ok hex saw [] \<longleftrightarrow> saw \<noteq> CHR ''_''"
| "underscores_ok hex saw (c # cs) \<longleftrightarrow>
     (if is_digit c \<or> hex \<and> (case digit_of c of None \<Rightarrow> False | Some d \<Rightarrow> d < 16)
      then underscores_ok hex CHR ''0'' cs
      else if c = CHR ''_'' then saw = CHR ''0'' \<and> underscores_ok hex c cs
      else saw \<noteq> CHR ''_'' \<and> underscores_ok hex CHR ''!'' cs)"

definition underscore_ok :: "bytes \<Rightarrow> bool" where
  "underscore_ok s =
     (if length s \<ge> 2 \<and> hd s = CHR ''0'' \<and>
         ascii_lower (s ! 1) \<in> {CHR ''b'', CHR ''o'', CHR ''x''}
      then underscores_ok (ascii_lower (s ! 1) = CHR ''x'') CHR ''0'' (drop 2 s)
      else underscores_ok False CHR ''^'' s)"

definition parse_int_auto :: "bytes \<Rightarrow> int option" where
  "parse_int_auto s =
     (let neg = (s \<noteq> [] \<and> hd s = CHR ''-'');
          ds = (if s \<noteq> [] \<and> hd s \<in> {CHR ''-'', CHR ''+''} then tl s else s)
      in if ds = [] then None
         else case base_prefix ds of
                (base, body) \<Rightarrow>
                  (case base_value base 0 body of
                     None \<Rightarrow> None
                   | Some n \<Rightarrow>
                       if CHR ''_'' \<in> set body \<and> \<not> underscore_ok ds then None
                       else let v = (if neg then - n else n) in if in_i64 v then Some v else None))"

definition parse_bool :: "bytes \<Rightarrow> bool option" where
  "parse_bool s =
     (if s \<in> {''1'', ''t'', ''T'', ''true'', ''TRUE'', ''True''} then Some True
      else if s \<in> {''0'', ''f'', ''F'', ''false'', ''FALSE'', ''False''} then Some False else None)"

subsection \<open>Tables of flags\<close>

datatype 's flag_spec = ValueFlag "bytes \<Rightarrow> 's \<Rightarrow> 's option" | SwitchFlag "bool \<Rightarrow> 's \<Rightarrow> 's"

definition text_flag :: "(bytes \<Rightarrow> 's \<Rightarrow> 's) \<Rightarrow> 's flag_spec" where
  "text_flag upd = ValueFlag (\<lambda>v s. Some (upd v s))"

definition int_flag :: "(int \<Rightarrow> 's \<Rightarrow> 's) \<Rightarrow> 's flag_spec" where
  "int_flag upd = ValueFlag (\<lambda>v s. map_option (\<lambda>n. upd n s) (parse_int_auto v))"

definition duration_flag :: "(bytes \<Rightarrow> duration option) \<Rightarrow> (duration \<Rightarrow> 's \<Rightarrow> 's) \<Rightarrow> 's flag_spec" where
  "duration_flag pd upd = ValueFlag (\<lambda>v s. map_option (\<lambda>d. upd d s) (pd v))"

datatype flag_err =
    FlagHelp | BadFlagSyntax bytes | UnknownFlag bytes | NeedsArgument bytes | InvalidValue bytes bytes

text \<open>A name and its value after the first \<open>=\<close>, which is not the first character.\<close>

definition split_flag :: "bytes \<Rightarrow> bytes \<times> bytes option" where
  "split_flag s =
     (let name = hd s # takeWhile (\<lambda>c. c \<noteq> CHR ''='') (tl s)
      in (name, if length name < length s then Some (drop (Suc (length name)) s) else None))"

definition set_flag ::
  "'s flag_spec \<Rightarrow> bytes \<Rightarrow> bytes option \<Rightarrow> bytes list \<Rightarrow> 's \<Rightarrow> flag_err + 's \<times> bytes list" where
  "set_flag spec name val args s =
     (case spec of
        SwitchFlag upd \<Rightarrow>
          (case (case val of None \<Rightarrow> Some True | Some v \<Rightarrow> parse_bool v) of
             None \<Rightarrow> Inl (InvalidValue name (the val))
           | Some b \<Rightarrow> Inr (upd b s, args))
      | ValueFlag upd \<Rightarrow>
          (case (case val of Some v \<Rightarrow> Some (v, args)
                 | None \<Rightarrow> (case args of [] \<Rightarrow> None | v # args \<Rightarrow> Some (v, args))) of
             None \<Rightarrow> Inl (NeedsArgument name)
           | Some (v, args) \<Rightarrow>
               (case upd v s of None \<Rightarrow> Inl (InvalidValue name v) | Some s \<Rightarrow> Inr (s, args))))"

lemma set_flag_args: "set_flag spec name val args s = Inr (s', args') \<Longrightarrow> length args' \<le> length args"
  by (auto simp: set_flag_def split: flag_spec.splits option.splits list.splits)

text \<open>The state, the flags given and the arguments that are left.\<close>

function parse_flags ::
  "(bytes \<times> 's flag_spec) list \<Rightarrow> bytes list \<Rightarrow> 's \<Rightarrow> bytes list \<Rightarrow>
   flag_err + 's \<times> bytes list \<times> bytes list" where
  "parse_flags specs [] s visited = Inr (s, visited, [])"
| "parse_flags specs (arg # args) s visited =
     (if length arg < 2 \<or> hd arg \<noteq> CHR ''-'' then Inr (s, visited, arg # args)
      else if arg = ''--'' then Inr (s, visited, args)
      else
        let body = (if arg ! 1 = CHR ''-'' then drop 2 arg else drop 1 arg)
        in if body = [] \<or> hd body = CHR ''-'' \<or> hd body = CHR ''='' then Inl (BadFlagSyntax arg)
           else case split_flag body of
                  (name, val) \<Rightarrow>
                    (case map_of specs name of
                       None \<Rightarrow> Inl (if name = ''help'' \<or> name = ''h'' then FlagHelp else UnknownFlag name)
                     | Some spec \<Rightarrow>
                         (case set_flag spec name val args s of
                            Inl e \<Rightarrow> Inl e
                          | Inr (s, args) \<Rightarrow> parse_flags specs args s (List.insert name visited))))"
  by pat_completeness auto
termination
  by (relation "measure (\<lambda>(_, args, _). length args)") (auto dest!: set_flag_args)

declare parse_flags.simps(2) [simp del, go_eval]

lemmas flag_eval [go_eval] =
  digit_of_def base_prefix_def underscore_ok_def parse_int_auto_def parse_bool_def text_flag_def
  int_flag_def duration_flag_def split_flag_def set_flag_def

lemma takeWhile_until: "x \<notin> set a \<Longrightarrow> takeWhile (\<lambda>c. c \<noteq> x) (a @ x # b) = a"
  by (induction a) auto

text \<open>An argument \<open>-name=value\<close> sets the flag, whatever the value says.\<close>

lemma parse_flags_assign:
  assumes "map_of specs (n # ns) = Some (ValueFlag upd)" and "n \<noteq> CHR ''-''" and "n \<noteq> CHR ''=''"
    and "CHR ''='' \<notin> set ns" and "upd v s = Some s'"
  shows "parse_flags specs ((''-'' @ (n # ns) @ ''='' @ v) # args) s visited =
    parse_flags specs args s' (List.insert (n # ns) visited)"
proof -
  have "takeWhile (\<lambda>c. c \<noteq> CHR ''='') (ns @ CHR ''='' # v) = ns"
    using assms(4) by (rule takeWhile_until)
  then have "split_flag (n # ns @ ''='' @ v) = (n # ns, Some v)"
    by (simp add: split_flag_def Let_def del: takeWhile_tail)
  then show ?thesis using assms by (simp add: parse_flags.simps set_flag_def)
qed

end
