(* ===== verification/Config.thy ===== *)
theory Config
  imports Server_Core
begin

section \<open>Configuration\<close>

text \<open>
  Models \<open>internal/config/config.go\<close>: the record \<open>Config\<close>, \<open>Default\<close>, \<open>Set\<close>,
  \<open>ApplyFile\<close>, \<open>LoadFile\<close>, \<open>ApplyEnv\<close>, \<open>MergeOverlay\<close> and \<open>ServerOptions\<close>. The file is
  its bytes, or an error of \<open>os.Open\<close>, and the error its reading ends with; the environment is a
  map; \<open>time.ParseDuration\<close>, which computes fractions in floating point, is the parameter \<open>pd\<close>
  and \<open>lc\<close> is \<open>strings.ToLower\<close> outside ASCII. An error keeps the settings made before it, as
  the pointer receiver does.

  \<open>setting\<close> is the value of one setting. \<open>Set\<close> changes the one it names, to a value that depends
  on the text alone, and no other (\<open>cfg_set_accepts\<close>). That makes it an instance of the contract
  \<open>named_store\<close>, from which follows what the lines of a file and the environment do: the last line
  wins, and the order in which Go visits the variables does not matter.
\<close>

subsection \<open>The record\<close>

record config =
  cfg_addr :: bytes
  cfg_snapshot_path :: bytes
  cfg_save_interval :: duration
  cfg_aof_path :: bytes
  cfg_aof_sync :: bytes
  cfg_auth_password :: bytes
  cfg_tls_cert_path :: bytes
  cfg_tls_key_path :: bytes
  cfg_max_connections :: int
  cfg_read_timeout :: duration
  cfg_write_timeout :: duration
  cfg_max_memory_bytes :: int
  cfg_command_log :: bytes
  cfg_slow_log_threshold :: duration
  cfg_slow_log_max_len :: int
  cfg_shutdown_timeout :: duration

definition default_config :: config where
  "default_config =
     \<lparr>cfg_addr = ''127.0.0.1:6380'', cfg_snapshot_path = ''llavero.snapshot'', cfg_save_interval = 0,
      cfg_aof_path = [], cfg_aof_sync = ''always'', cfg_auth_password = [], cfg_tls_cert_path = [],
      cfg_tls_key_path = [], cfg_max_connections = 0, cfg_read_timeout = 0, cfg_write_timeout = 0,
      cfg_max_memory_bytes = 0, cfg_command_log = ''errors'', cfg_slow_log_threshold = 0,
      cfg_slow_log_max_len = 128, cfg_shutdown_timeout = 5 * 1000000000\<rparr>"

definition server_options :: "config \<Rightarrow> options" where
  "server_options c =
     \<lparr>opt_addr = cfg_addr c, opt_snapshot_path = cfg_snapshot_path c,
      opt_save_interval = cfg_save_interval c, opt_aof_path = cfg_aof_path c,
      opt_aof_sync = cfg_aof_sync c, opt_auth_password = cfg_auth_password c,
      opt_tls_cert_path = cfg_tls_cert_path c, opt_tls_key_path = cfg_tls_key_path c,
      opt_max_connections = cfg_max_connections c, opt_read_timeout = cfg_read_timeout c,
      opt_write_timeout = cfg_write_timeout c, opt_max_memory_bytes = cfg_max_memory_bytes c,
      opt_command_log = cfg_command_log c, opt_slow_log_threshold = cfg_slow_log_threshold c,
      opt_slow_log_max_len = cfg_slow_log_max_len c,
      opt_shutdown_timeout = cfg_shutdown_timeout c\<rparr>"

subsection \<open>\<open>strings\<close> and \<open>bufio.Scanner\<close>\<close>

text \<open>\<open>strings.TrimSpace\<close>; \<open>space_width\<close> is the width of the space a string starts with.\<close>

function trim_left :: "bytes \<Rightarrow> bytes" where
  "trim_left s = (let w = space_width s in if w = 0 \<or> s = [] then s else trim_left (drop w s))"
  by pat_completeness auto
termination by (relation "measure length") auto

declare trim_left.simps [simp del]

definition last_bytes :: "nat \<Rightarrow> bytes \<Rightarrow> bytes" where
  "last_bytes n s = drop (length s - n) s"

definition space_suffix_width :: "bytes \<Rightarrow> nat" where
  "space_suffix_width s =
     (if length s \<ge> 1 \<and> space_width (last_bytes 1 s) = 1 then 1
      else if length s \<ge> 2 \<and> space_width (last_bytes 2 s) = 2 then 2
      else if length s \<ge> 3 \<and> space_width (last_bytes 3 s) = 3 then 3
      else 0)"

function trim_right :: "bytes \<Rightarrow> bytes" where
  "trim_right s =
     (let w = space_suffix_width s
      in if w = 0 \<or> s = [] then s else trim_right (take (length s - w) s))"
  by pat_completeness auto
termination by (relation "measure length") auto

declare trim_right.simps [simp del]

definition trim_space :: "bytes \<Rightarrow> bytes" where
  "trim_space s = trim_right (trim_left s)"

text \<open>\<open>strings.Cut(s, "=")\<close>.\<close>

fun cut_eq :: "bytes \<Rightarrow> (bytes \<times> bytes) option" where
  "cut_eq [] = None"
| "cut_eq (c # cs) =
     (if c = CHR ''='' then Some ([], cs)
      else case cut_eq cs of None \<Rightarrow> None | Some (a, b) \<Rightarrow> Some (c # a, b))"

text \<open>
  The lines a scanner gives, without their ends, and whether it stops because one of them does
  not fit its buffer of 64 KiB.
\<close>

abbreviation max_scan_token :: nat where "max_scan_token \<equiv> 65536"

definition drop_cr :: "bytes \<Rightarrow> bytes" where
  "drop_cr line = (if line \<noteq> [] \<and> last line = CHR 0x0D then butlast line else line)"

function scan_lines :: "bytes \<Rightarrow> bytes list \<times> bool" where
  "scan_lines inp =
     (if inp = [] then ([], False)
      else
        let line = takeWhile (\<lambda>c. c \<noteq> CHR 0x0A) inp
        in if length line \<ge> max_scan_token then ([], True)
           else (case scan_lines (drop (Suc (length line)) inp) of
                   (lines, long) \<Rightarrow> (drop_cr line # lines, long)))"
  by pat_completeness auto
termination by (relation "measure length") auto

declare scan_lines.simps [simp del]

subsection \<open>One setting\<close>

datatype set_err =
    BadDuration bytes
  | BadInteger bytes
  | NegativeValue bytes
  | BadCommandLog
  | UnknownKey bytes

definition canonical_key :: "(bytes \<Rightarrow> bytes) \<Rightarrow> bytes \<Rightarrow> bytes" where
  "canonical_key lc key = map (\<lambda>c. if c = CHR ''-'' then CHR ''_'' else c) (to_lower lc key)"

definition set_duration ::
  "(bytes \<Rightarrow> duration option) \<Rightarrow> (duration \<Rightarrow> config \<Rightarrow> config) \<Rightarrow> bytes \<Rightarrow> config \<Rightarrow>
   config \<times> set_err option" where
  "set_duration pd upd val c =
     (case pd val of None \<Rightarrow> (c, Some (BadDuration val)) | Some d \<Rightarrow> (upd d c, None))"

definition set_count ::
  "bytes \<Rightarrow> (int \<Rightarrow> config \<Rightarrow> config) \<Rightarrow> bytes \<Rightarrow> config \<Rightarrow> config \<times> set_err option" where
  "set_count name upd val c =
     (case parse_int val of
        None \<Rightarrow> (c, Some (BadInteger val))
      | Some n \<Rightarrow> if n < 0 then (c, Some (NegativeValue name)) else (upd n c, None))"

definition cfg_set ::
  "(bytes \<Rightarrow> bytes) \<Rightarrow> (bytes \<Rightarrow> duration option) \<Rightarrow> bytes \<Rightarrow> bytes \<Rightarrow> config \<Rightarrow>
   config \<times> set_err option" where
  "cfg_set lc pd key val c =
     (let key = canonical_key lc key
      in if key = ''addr'' then (c\<lparr>cfg_addr := val\<rparr>, None)
         else if key = ''snapshot'' then (c\<lparr>cfg_snapshot_path := val\<rparr>, None)
         else if key = ''save_interval'' then set_duration pd (\<lambda>d c. c\<lparr>cfg_save_interval := d\<rparr>) val c
         else if key = ''aof'' then (c\<lparr>cfg_aof_path := val\<rparr>, None)
         else if key = ''aof_fsync'' then (c\<lparr>cfg_aof_sync := val\<rparr>, None)
         else if key = ''requirepass'' then (c\<lparr>cfg_auth_password := val\<rparr>, None)
         else if key = ''tls_cert'' then (c\<lparr>cfg_tls_cert_path := val\<rparr>, None)
         else if key = ''tls_key'' then (c\<lparr>cfg_tls_key_path := val\<rparr>, None)
         else if key = ''max_connections'' then
           set_count ''max_connections'' (\<lambda>n c. c\<lparr>cfg_max_connections := n\<rparr>) val c
         else if key = ''read_timeout'' then set_duration pd (\<lambda>d c. c\<lparr>cfg_read_timeout := d\<rparr>) val c
         else if key = ''write_timeout'' then set_duration pd (\<lambda>d c. c\<lparr>cfg_write_timeout := d\<rparr>) val c
         else if key = ''max_memory'' then
           set_count ''max_memory'' (\<lambda>n c. c\<lparr>cfg_max_memory_bytes := n\<rparr>) val c
         else if key = ''command_log'' then
           (let mode = to_lower lc (trim_space val)
            in if mode = ''off'' \<or> mode = ''errors'' \<or> mode = ''slow'' \<or> mode = ''all''
               then (c\<lparr>cfg_command_log := mode\<rparr>, None) else (c, Some BadCommandLog))
         else if key = ''slowlog_threshold'' then
           set_duration pd (\<lambda>d c. c\<lparr>cfg_slow_log_threshold := d\<rparr>) val c
         else if key = ''slowlog_max_len'' then
           set_count ''slowlog_max_len'' (\<lambda>n c. c\<lparr>cfg_slow_log_max_len := n\<rparr>) val c
         else if key = ''shutdown_timeout'' then
           set_duration pd (\<lambda>d c. c\<lparr>cfg_shutdown_timeout := d\<rparr>) val c
         else (c, Some (UnknownKey key)))"

subsection \<open>Files and the environment\<close>

datatype config_err =
    ConfigOpen bytes
  | ExpectedPair nat
  | BadLine nat set_err
  | LineTooLong
  | ConfigRead bytes
  | BadVariable bytes set_err

fun apply_lines ::
  "(bytes \<Rightarrow> bytes) \<Rightarrow> (bytes \<Rightarrow> duration option) \<Rightarrow> nat \<Rightarrow> bytes list \<Rightarrow> config \<Rightarrow>
   config \<times> config_err option" where
  "apply_lines lc pd n [] c = (c, None)"
| "apply_lines lc pd n (raw # lines) c =
     (let line = trim_space raw
      in if line = [] \<or> hd line = CHR ''#'' then apply_lines lc pd (Suc n) lines c
         else case cut_eq line of
                None \<Rightarrow> (c, Some (ExpectedPair (Suc n)))
              | Some (key, val) \<Rightarrow>
                  (case cfg_set lc pd (trim_space key) (trim_space val) c of
                     (c, Some e) \<Rightarrow> (c, Some (BadLine (Suc n) e))
                   | (c, None) \<Rightarrow> apply_lines lc pd (Suc n) lines c))"

text \<open>\<open>opened\<close>: the content and how its reading fails, if it does.\<close>

definition apply_file ::
  "(bytes \<Rightarrow> bytes) \<Rightarrow> (bytes \<Rightarrow> duration option) \<Rightarrow> bytes \<Rightarrow> bytes + bytes \<times> bytes option \<Rightarrow>
   config \<Rightarrow> config \<times> config_err option" where
  "apply_file lc pd path opened c =
     (if path = [] then (c, None)
      else case opened of
             Inl e \<Rightarrow> (c, Some (ConfigOpen e))
           | Inr (content, read_err) \<Rightarrow>
               (let (lines, long) = scan_lines content
                in case apply_lines lc pd 0 lines c of
                     (c, Some e) \<Rightarrow> (c, Some e)
                   | (c, None) \<Rightarrow> (c, if long then Some LineTooLong else map_option ConfigRead read_err)))"

definition load_file ::
  "(bytes \<Rightarrow> bytes) \<Rightarrow> (bytes \<Rightarrow> duration option) \<Rightarrow> bytes \<Rightarrow> bytes + bytes \<times> bytes option \<Rightarrow>
   config \<times> config_err option" where
  "load_file lc pd path opened = apply_file lc pd path opened default_config"

definition env_table :: "bytes gomap" where
  "env_table =
     [(''LLAVERO_ADDR'', ''addr''), (''LLAVERO_SNAPSHOT'', ''snapshot''),
      (''LLAVERO_SAVE_INTERVAL'', ''save_interval''), (''LLAVERO_AOF'', ''aof''),
      (''LLAVERO_AOF_FSYNC'', ''aof_fsync''), (''LLAVERO_REQUIREPASS'', ''requirepass''),
      (''LLAVERO_TLS_CERT'', ''tls_cert''), (''LLAVERO_TLS_KEY'', ''tls_key''),
      (''LLAVERO_MAX_CONNECTIONS'', ''max_connections''),
      (''LLAVERO_READ_TIMEOUT'', ''read_timeout''), (''LLAVERO_WRITE_TIMEOUT'', ''write_timeout''),
      (''LLAVERO_MAX_MEMORY'', ''max_memory''), (''LLAVERO_COMMAND_LOG'', ''command_log''),
      (''LLAVERO_SLOWLOG_THRESHOLD'', ''slowlog_threshold''),
      (''LLAVERO_SLOWLOG_MAX_LEN'', ''slowlog_max_len''),
      (''LLAVERO_SHUTDOWN_TIMEOUT'', ''shutdown_timeout'')]"

fun env_loop ::
  "(bytes \<Rightarrow> bytes) \<Rightarrow> (bytes \<Rightarrow> duration option) \<Rightarrow> (bytes \<Rightarrow> bytes option) \<Rightarrow> bytes gomap \<Rightarrow>
   config \<Rightarrow> config \<times> config_err option" where
  "env_loop lc pd getenv [] c = (c, None)"
| "env_loop lc pd getenv ((name, key) # rest) c =
     (case getenv name of
        None \<Rightarrow> env_loop lc pd getenv rest c
      | Some val \<Rightarrow>
          (case cfg_set lc pd key val c of
             (c, Some e) \<Rightarrow> (c, Some (BadVariable name e))
           | (c, None) \<Rightarrow> env_loop lc pd getenv rest c))"

definition apply_env ::
  "(bytes list \<Rightarrow> bytes list) \<Rightarrow> (bytes \<Rightarrow> bytes) \<Rightarrow> (bytes \<Rightarrow> duration option) \<Rightarrow>
   (bytes \<Rightarrow> bytes option) \<Rightarrow> config \<Rightarrow> config \<times> config_err option" where
  "apply_env ord lc pd getenv c = env_loop lc pd getenv (go_range ord env_table) c"

definition overlay_text :: "bytes \<Rightarrow> bytes \<Rightarrow> bytes" where
  "overlay_text old new = (if new \<noteq> [] then new else old)"

definition overlay_int :: "int \<Rightarrow> int \<Rightarrow> int" where
  "overlay_int old new = (if new \<noteq> 0 then new else old)"

definition merge_overlay :: "config \<Rightarrow> config \<Rightarrow> config" where
  "merge_overlay c o' =
     \<lparr>cfg_addr = overlay_text (cfg_addr c) (cfg_addr o'),
      cfg_snapshot_path = overlay_text (cfg_snapshot_path c) (cfg_snapshot_path o'),
      cfg_save_interval = overlay_int (cfg_save_interval c) (cfg_save_interval o'),
      cfg_aof_path = overlay_text (cfg_aof_path c) (cfg_aof_path o'),
      cfg_aof_sync = overlay_text (cfg_aof_sync c) (cfg_aof_sync o'),
      cfg_auth_password = overlay_text (cfg_auth_password c) (cfg_auth_password o'),
      cfg_tls_cert_path = overlay_text (cfg_tls_cert_path c) (cfg_tls_cert_path o'),
      cfg_tls_key_path = overlay_text (cfg_tls_key_path c) (cfg_tls_key_path o'),
      cfg_max_connections = overlay_int (cfg_max_connections c) (cfg_max_connections o'),
      cfg_read_timeout = overlay_int (cfg_read_timeout c) (cfg_read_timeout o'),
      cfg_write_timeout = overlay_int (cfg_write_timeout c) (cfg_write_timeout o'),
      cfg_max_memory_bytes = overlay_int (cfg_max_memory_bytes c) (cfg_max_memory_bytes o'),
      cfg_command_log = overlay_text (cfg_command_log c) (cfg_command_log o'),
      cfg_slow_log_threshold = overlay_int (cfg_slow_log_threshold c) (cfg_slow_log_threshold o'),
      cfg_slow_log_max_len = overlay_int (cfg_slow_log_max_len c) (cfg_slow_log_max_len o'),
      cfg_shutdown_timeout = overlay_int (cfg_shutdown_timeout c) (cfg_shutdown_timeout o')\<rparr>"

subsection \<open>Settings\<close>

text \<open>One setting by its name. Durations and counts are both numbers.\<close>

datatype setting_value = Text bytes | Number int

definition settings :: "config \<Rightarrow> setting_value gomap" where
  "settings c =
     [(''addr'', Text (cfg_addr c)), (''snapshot'', Text (cfg_snapshot_path c)),
      (''save_interval'', Number (cfg_save_interval c)), (''aof'', Text (cfg_aof_path c)),
      (''aof_fsync'', Text (cfg_aof_sync c)), (''requirepass'', Text (cfg_auth_password c)),
      (''tls_cert'', Text (cfg_tls_cert_path c)), (''tls_key'', Text (cfg_tls_key_path c)),
      (''max_connections'', Number (cfg_max_connections c)),
      (''read_timeout'', Number (cfg_read_timeout c)),
      (''write_timeout'', Number (cfg_write_timeout c)),
      (''max_memory'', Number (cfg_max_memory_bytes c)), (''command_log'', Text (cfg_command_log c)),
      (''slowlog_threshold'', Number (cfg_slow_log_threshold c)),
      (''slowlog_max_len'', Number (cfg_slow_log_max_len c)),
      (''shutdown_timeout'', Number (cfg_shutdown_timeout c))]"

definition setting :: "config \<Rightarrow> bytes \<Rightarrow> setting_value option" where
  "setting c = map_of (settings c)"

lemma setting_ext: "setting c = setting c' \<longleftrightarrow> c = c'"
proof
  assume eq: "setting c = setting c'"
  have "settings c = settings c'"
  proof -
    have "map_of (settings c) k = map_of (settings c') k" for k
      using eq by (simp add: setting_def)
    from this [of "''addr''"] this [of "''snapshot''"] this [of "''save_interval''"]
      this [of "''aof''"] this [of "''aof_fsync''"] this [of "''requirepass''"]
      this [of "''tls_cert''"] this [of "''tls_key''"] this [of "''max_connections''"]
      this [of "''read_timeout''"] this [of "''write_timeout''"] this [of "''max_memory''"]
      this [of "''command_log''"] this [of "''slowlog_threshold''"]
      this [of "''slowlog_max_len''"] this [of "''shutdown_timeout''"]
    show ?thesis by (simp add: settings_def)
  qed
  then show "c = c'" by (simp add: settings_def)
qed simp

text \<open>What a text means for a setting; \<open>None\<close>: it is not accepted.\<close>

datatype setting_kind = TextSetting | DurationSetting | CountSetting | ModeSetting

definition setting_kinds :: "setting_kind gomap" where
  "setting_kinds =
     [(''addr'', TextSetting), (''snapshot'', TextSetting), (''save_interval'', DurationSetting),
      (''aof'', TextSetting), (''aof_fsync'', TextSetting), (''requirepass'', TextSetting),
      (''tls_cert'', TextSetting), (''tls_key'', TextSetting), (''max_connections'', CountSetting),
      (''read_timeout'', DurationSetting), (''write_timeout'', DurationSetting),
      (''max_memory'', CountSetting), (''command_log'', ModeSetting),
      (''slowlog_threshold'', DurationSetting), (''slowlog_max_len'', CountSetting),
      (''shutdown_timeout'', DurationSetting)]"

definition kind_value ::
  "(bytes \<Rightarrow> bytes) \<Rightarrow> (bytes \<Rightarrow> duration option) \<Rightarrow> setting_kind \<Rightarrow> bytes \<Rightarrow> setting_value option" where
  "kind_value lc pd kind val =
     (case kind of
        TextSetting \<Rightarrow> Some (Text val)
      | DurationSetting \<Rightarrow> map_option Number (pd val)
      | CountSetting \<Rightarrow>
          (case parse_int val of Some n \<Rightarrow> if n < 0 then None else Some (Number n) | None \<Rightarrow> None)
      | ModeSetting \<Rightarrow>
          (let mode = to_lower lc (trim_space val)
           in if mode \<in> {''off'', ''errors'', ''slow'', ''all''} then Some (Text mode) else None))"

definition setting_value ::
  "(bytes \<Rightarrow> bytes) \<Rightarrow> (bytes \<Rightarrow> duration option) \<Rightarrow> bytes \<Rightarrow> bytes \<Rightarrow> setting_value option" where
  "setting_value lc pd k val =
     (case map_of setting_kinds k of None \<Rightarrow> None | Some kind \<Rightarrow> kind_value lc pd kind val)"

lemma keys_settings: "keys (settings c) = keys setting_kinds"
  by (simp add: settings_def setting_kinds_def)

lemma settings_distinct: "wf_map (settings c)"
  by (simp add: settings_def)

lemma setting_known: "setting c k = None \<longleftrightarrow> k \<notin> set (keys setting_kinds)"
  unfolding setting_def map_of_eq_None_iff keys_settings [symmetric, of c] by simp

lemma setting_value_known: "setting_value lc pd k val = Some v \<Longrightarrow> k \<in> set (keys setting_kinds)"
  using map_of_eq_None_iff [of setting_kinds k] by (force simp: setting_value_def)

lemma setting_names:
  "set (keys setting_kinds) =
     {''addr'', ''snapshot'', ''save_interval'', ''aof'', ''aof_fsync'', ''requirepass'',
      ''tls_cert'', ''tls_key'', ''max_connections'', ''read_timeout'', ''write_timeout'',
      ''max_memory'', ''command_log'', ''slowlog_threshold'', ''slowlog_max_len'',
      ''shutdown_timeout''}"
  by (simp add: setting_kinds_def)

text \<open>\<open>Set\<close>: an accepted text changes the setting it names and no other, a refused one nothing.\<close>

lemma cfg_set_known:
  assumes "canonical_key lc key \<in> set (keys setting_kinds)"
  shows "(case setting_value lc pd (canonical_key lc key) val of
      None \<Rightarrow> \<exists>e. cfg_set lc pd key val c = (c, Some e)
    | Some v \<Rightarrow> \<exists>c'. cfg_set lc pd key val c = (c', None) \<and>
        settings c' = AList.update (canonical_key lc key) v (settings c))"
  using assms unfolding setting_names
  by (elim insertE emptyE)
     (simp_all add: cfg_set_def setting_value_def kind_value_def setting_kinds_def set_duration_def
        set_count_def settings_def Let_def split: option.splits)

lemma cfg_set_accepts:
  assumes "setting_value lc pd (canonical_key lc key) val = Some v"
  shows "\<exists>c'. cfg_set lc pd key val c = (c', None) \<and>
    setting c' = (setting c)(canonical_key lc key \<mapsto> v)"
  using cfg_set_known [OF setting_value_known [OF assms], of pd val c] assms
  by (auto simp: setting_def)

lemma cfg_set_refuses:
  assumes "setting_value lc pd (canonical_key lc key) val = None"
  shows "\<exists>e. cfg_set lc pd key val c = (c, Some e)"
proof (cases "canonical_key lc key \<in> set (keys setting_kinds)")
  case True
  then show ?thesis using cfg_set_known [of lc key pd val c] assms by simp
next
  case False
  then show ?thesis unfolding setting_names by (simp add: cfg_set_def Let_def)
qed

subsection \<open>Several assignments\<close>

text \<open>
  What files and the environment share: a sequence of assignments to a state of named values,
  each of which is accepted or refused for its text alone. A run that is accepted gives every
  name the last value assigned to it; when no name is assigned twice the order does not matter.
\<close>

fun run_puts :: "('k \<Rightarrow> 'r \<Rightarrow> 's \<Rightarrow> 's \<times> 'e option) \<Rightarrow> ('k \<times> 'r) list \<Rightarrow> 's \<Rightarrow> 's \<times> 'e option" where
  "run_puts put [] s = (s, None)"
| "run_puts put ((k, r) # ps) s =
     (case put k r s of (s, Some e) \<Rightarrow> (s, Some e) | (s, None) \<Rightarrow> run_puts put ps s)"

definition named_values ::
  "('k \<Rightarrow> 'n) \<Rightarrow> ('n \<Rightarrow> 'r \<Rightarrow> 'v option) \<Rightarrow> ('k \<times> 'r) list \<Rightarrow> ('n \<times> 'v) list" where
  "named_values name val ps = map (\<lambda>(k, r). (name k, the (val (name k) r))) ps"

locale named_store =
  fixes get :: "'s \<Rightarrow> 'n \<Rightarrow> 'v option" and put :: "'k \<Rightarrow> 'r \<Rightarrow> 's \<Rightarrow> 's \<times> 'e option"
    and name :: "'k \<Rightarrow> 'n" and val :: "'n \<Rightarrow> 'r \<Rightarrow> 'v option"
  assumes put_accepts: "val (name k) r = Some v \<Longrightarrow>
      \<exists>s'. put k r s = (s', None) \<and> get s' = (get s)(name k \<mapsto> v)"
    and put_refuses: "val (name k) r = None \<Longrightarrow> \<exists>e. put k r s = (s, Some e)"
begin

lemma run_accepts:
  assumes "\<And>k r. (k, r) \<in> set ps \<Longrightarrow> val (name k) r \<noteq> None"
  shows "\<exists>s'. run_puts put ps s = (s', None) \<and> get s' = get s ++ map_of (rev (named_values name val ps))"
  using assms
proof (induction ps arbitrary: s)
  case Nil
  then show ?case by (simp add: named_values_def)
next
  case (Cons p ps)
  obtain k r where p: "p = (k, r)" by (cases p)
  obtain v where v: "val (name k) r = Some v" using Cons.prems [of k r] p by auto
  from put_accepts [OF this, of s] obtain s1 where
    s1: "put k r s = (s1, None)" "get s1 = (get s)(name k \<mapsto> v)" by auto
  from Cons.IH [of s1] Cons.prems obtain s' where
    "run_puts put ps s1 = (s', None)" "get s' = get s1 ++ map_of (rev (named_values name val ps))"
    by auto
  then show ?case
    using s1 v p by (simp add: named_values_def map_add_def fun_eq_iff split: option.split)
qed

lemma run_accepted:
  "run_puts put ps s = (s', None) \<Longrightarrow> (k, r) \<in> set ps \<Longrightarrow> val (name k) r \<noteq> None"
proof (induction ps arbitrary: s)
  case (Cons p ps)
  obtain k' r' where p: "p = (k', r')" by (cases p)
  show ?case
  proof (cases "val (name k') r'")
    case None
    from put_refuses [OF this, of s] show ?thesis using Cons.prems p by auto
  next
    case (Some v)
    from put_accepts [OF this, of s] show ?thesis using Cons p Some by auto
  qed
qed simp

lemma run_result:
  "run_puts put ps s = (s', None) \<Longrightarrow> get s' = get s ++ map_of (rev (named_values name val ps))"
  using run_accepted run_accepts [of ps s] by fastforce

lemma run_any_order:
  assumes "run_puts put ps s = (s1, None)" and "mset ps = mset qs"
    and "distinct (map (\<lambda>(k, r). name k) ps)"
  shows "\<exists>s2. run_puts put qs s = (s2, None) \<and> get s2 = get s1"
proof -
  have eq: "set qs = set ps" using assms(2) by (metis set_mset_mset)
  have "\<exists>s2. run_puts put qs s = (s2, None) \<and>
      get s2 = get s ++ map_of (rev (named_values name val qs))"
    by (rule run_accepts) (use run_accepted [OF assms(1)] eq in blast)
  moreover have "map_of (rev (named_values name val qs)) = map_of (rev (named_values name val ps))"
  proof -
    have "keys (named_values name val ps) = map (\<lambda>(k, r). name k) ps"
      by (simp add: named_values_def case_prod_unfold comp_def)
    moreover have "mset (named_values name val qs) = mset (named_values name val ps)"
      using assms(2) by (simp add: named_values_def)
    ultimately have "wf_map (named_values name val ps)" "wf_map (named_values name val qs)"
      "set (named_values name val qs) = set (named_values name val ps)"
      using assms(3) by (metis mset_eq_imp_distinct_iff mset_map set_mset_mset)+
    then show ?thesis by (subst map_of_inject_set) (simp_all flip: rev_map)
  qed
  ultimately show ?thesis using run_result [OF assms(1)] by simp
qed

end

interpretation conf: named_store setting "cfg_set lc pd" "canonical_key lc" "setting_value lc pd" for lc pd
  by unfold_locales (simp_all add: cfg_set_accepts cfg_set_refuses)

subsection \<open>What a file and the environment assign\<close>

text \<open>The assignments of the lines of a file; \<open>None\<close>: one of the lines is not one.\<close>

fun file_pairs :: "bytes list \<Rightarrow> (bytes \<times> bytes) list option" where
  "file_pairs [] = Some []"
| "file_pairs (raw # lines) =
     (let line = trim_space raw
      in if line = [] \<or> hd line = CHR ''#'' then file_pairs lines
         else case cut_eq line of
                None \<Rightarrow> None
              | Some (key, val) \<Rightarrow>
                  map_option ((#) (trim_space key, trim_space val)) (file_pairs lines))"

lemma apply_lines_runs:
  assumes "apply_lines lc pd n lines c = (c', None)"
  shows "\<exists>ps. file_pairs lines = Some ps \<and> run_puts (cfg_set lc pd) ps c = (c', None)"
  using assms
proof (induction lines arbitrary: n c)
  case (Cons raw lines)
  let ?line = "trim_space raw"
  show ?case
  proof (cases "?line = [] \<or> hd ?line = CHR ''#''")
    case True
    then show ?thesis using Cons by (auto simp: Let_def)
  next
    case False
    then obtain key val c1 where k: "cut_eq ?line = Some (key, val)"
      "cfg_set lc pd (trim_space key) (trim_space val) c = (c1, None)"
      "apply_lines lc pd (Suc n) lines c1 = (c', None)"
      using Cons.prems by (auto simp: Let_def split: option.splits prod.splits)
    from Cons.IH [OF k(3)] show ?thesis using False k(1,2) by (auto simp: Let_def)
  qed
qed simp

lemma apply_lines_accepts:
  assumes "file_pairs lines = Some ps" and "run_puts (cfg_set lc pd) ps c = (c', None)"
  shows "apply_lines lc pd n lines c = (c', None)"
  using assms
proof (induction lines arbitrary: n c ps)
  case (Cons raw lines)
  then show ?case by (auto simp: Let_def split: if_splits option.splits prod.splits)
qed simp

definition file_values ::
  "(bytes \<Rightarrow> bytes) \<Rightarrow> (bytes \<Rightarrow> duration option) \<Rightarrow> bytes \<Rightarrow> setting_value gomap" where
  "file_values lc pd content =
     named_values (canonical_key lc) (setting_value lc pd)
       (case file_pairs (fst (scan_lines content)) of None \<Rightarrow> [] | Some ps \<Rightarrow> ps)"

text \<open>An accepted file gives each setting the last value its lines assign to it.\<close>

lemma apply_file_settings:
  assumes "apply_file lc pd path opened c = (c', None)"
  shows "setting c' = setting c ++
    (if path = [] then Map.empty
     else map_of (rev (file_values lc pd (case opened of Inr (content, _) \<Rightarrow> content))))"
proof (cases "path = []")
  case True
  then show ?thesis using assms by (simp add: apply_file_def)
next
  case False
  then obtain content read_err where o': "opened = Inr (content, read_err)"
    using assms by (auto simp: apply_file_def split: sum.splits)
  obtain lines long where l: "scan_lines content = (lines, long)" by force
  have "apply_lines lc pd 0 lines c = (c', None)"
    using assms False o' l by (auto simp: apply_file_def split: prod.splits option.splits)
  from apply_lines_runs [OF this] obtain ps where
    ps: "file_pairs lines = Some ps" "run_puts (cfg_set lc pd) ps c = (c', None)" by blast
  show ?thesis using conf.run_result [OF ps(2)] False o' l ps(1) by (simp add: file_values_def)
qed

text \<open>The assignments of the environment, and their independence of the order of the loop.\<close>

definition env_pairs :: "(bytes \<Rightarrow> bytes option) \<Rightarrow> bytes gomap \<Rightarrow> (bytes \<times> bytes) list" where
  "env_pairs getenv table =
     map (\<lambda>(name, key). (key, the (getenv name))) (filter (\<lambda>(name, key). getenv name \<noteq> None) table)"

lemma env_loop_runs:
  "fst (env_loop lc pd getenv table c) = fst (run_puts (cfg_set lc pd) (env_pairs getenv table) c) \<and>
   (snd (env_loop lc pd getenv table c) = None \<longleftrightarrow>
    snd (run_puts (cfg_set lc pd) (env_pairs getenv table) c) = None)"
  by (induction lc pd getenv table c rule: env_loop.induct)
     (auto simp: env_pairs_def split: option.split prod.split)

lemma env_loop_ok:
  "env_loop lc pd getenv table c = (c', None) \<longleftrightarrow>
   run_puts (cfg_set lc pd) (env_pairs getenv table) c = (c', None)"
  using env_loop_runs [of lc pd getenv table c] by (metis prod.collapse prod.inject)

lemma mset_env_pairs: "mset t = mset t' \<Longrightarrow> mset (env_pairs getenv t) = mset (env_pairs getenv t')"
  by (simp add: env_pairs_def)

lemma wf_env_table: "wf_map env_table"
  by (simp add: env_table_def)

definition env_name :: "bytes \<Rightarrow> bytes" where
  "env_name key = ''LLAVERO_'' @ map ascii_upper key"

lemma env_table_names: "env_table = map (\<lambda>k. (env_name k, k)) (map snd env_table)"
  by (simp add: env_table_def env_name_def ascii_upper_def)

lemma env_table_keys: "set (map snd env_table) = set (keys setting_kinds)"
  by (auto simp: env_table_def setting_kinds_def)

lemma canonical_key_known: "k \<in> set (keys setting_kinds) \<Longrightarrow> canonical_key lc k = k"
  unfolding setting_names
  by (elim insertE emptyE) (simp_all add: canonical_key_def to_lower_def is_ascii_def ascii_lower_def)

lemma distinct_env_keys: "distinct (map (\<lambda>(k, r). canonical_key lc k) (env_pairs getenv env_table))"
proof -
  have "map (\<lambda>(k, r). canonical_key lc k) (env_pairs getenv env_table) =
      map (\<lambda>(name, key). canonical_key lc key) (filter (\<lambda>(name, key). getenv name \<noteq> None) env_table)"
    by (simp add: env_pairs_def comp_def case_prod_unfold)
  also have "\<dots> = map snd (filter (\<lambda>(name, key). getenv name \<noteq> None) env_table)"
    unfolding map_eq_conv
  proof clarify
    fix name key assume "(name, key) \<in> set (filter (\<lambda>(name, key). getenv name \<noteq> None) env_table)"
    then have "key \<in> set (map snd env_table)" by (auto intro: rev_image_eqI)
    then show "canonical_key lc key = snd (name, key)"
      unfolding env_table_keys by (simp only: canonical_key_known snd_conv)
  qed
  finally have eq: "map (\<lambda>(k, r). canonical_key lc k) (env_pairs getenv env_table) =
      map snd (filter (\<lambda>(name, key). getenv name \<noteq> None) env_table)" .
  show ?thesis unfolding eq by (rule distinct_map_filter) (simp add: env_table_def)
qed

definition env_values ::
  "(bytes \<Rightarrow> bytes) \<Rightarrow> (bytes \<Rightarrow> duration option) \<Rightarrow> (bytes \<Rightarrow> bytes option) \<Rightarrow> bytes \<Rightarrow>
   setting_value option" where
  "env_values lc pd getenv k =
     (if k \<in> set (keys setting_kinds)
      then Option.bind (getenv (env_name k)) (setting_value lc pd k) else None)"

lemma env_pairs_iff:
  "(k, val) \<in> set (env_pairs getenv env_table) \<longleftrightarrow>
   k \<in> set (keys setting_kinds) \<and> getenv (env_name k) = Some val"
proof -
  have "(n, k) \<in> set env_table \<longleftrightarrow> n = env_name k \<and> k \<in> set (map snd env_table)" for n
    by (subst env_table_names) auto
  moreover have "(k, val) \<in> set (env_pairs getenv env_table) \<longleftrightarrow>
      (\<exists>n. (n, k) \<in> set env_table \<and> getenv n = Some val)"
    by (force simp: env_pairs_def image_iff)
  ultimately show ?thesis by (auto simp only: env_table_keys)
qed

lemma map_of_env_pairs:
  assumes "run_puts (cfg_set lc pd) (env_pairs getenv env_table) c = (c', None)"
  shows "map_of (rev (named_values (canonical_key lc) (setting_value lc pd) (env_pairs getenv env_table)))
    = env_values lc pd getenv"
proof
  fix k
  let ?ps = "env_pairs getenv env_table"
  let ?vs = "named_values (canonical_key lc) (setting_value lc pd) ?ps"
  have d: "wf_map (rev ?vs)"
    using distinct_env_keys [of lc getenv]
    by (simp add: named_values_def case_prod_unfold comp_def flip: rev_map)
  have vs: "?vs = map (\<lambda>(k, r). (k, the (setting_value lc pd k r))) ?ps"
    unfolding named_values_def by (auto simp: env_pairs_iff canonical_key_known simp del: set_map)
  have "setting_value lc pd k val \<noteq> None" if "(k, val) \<in> set ?ps" for val
    using conf.run_accepted [OF assms that] that
    by (simp add: env_pairs_iff canonical_key_known del: set_map)
  note accepted = this
  have mem: "(k, v) \<in> set (rev ?vs) \<longleftrightarrow> env_values lc pd getenv k = Some v" for v
  proof -
    have "(k, v) \<in> set (rev ?vs) \<longleftrightarrow>
        (\<exists>val. (k, val) \<in> set ?ps \<and> v = the (setting_value lc pd k val))"
      unfolding vs by (auto intro: rev_image_eqI)
    also have "\<dots> \<longleftrightarrow> (\<exists>val. (k, val) \<in> set ?ps \<and> setting_value lc pd k val = Some v)"
      using accepted by force
    also have "\<dots> \<longleftrightarrow> env_values lc pd getenv k = Some v"
      unfolding env_pairs_iff env_values_def by (simp add: Option.bind_eq_Some_conv del: set_map)
    finally show ?thesis .
  qed
  show "map_of (rev ?vs) k = env_values lc pd getenv k"
    using mem map_of_eq_Some_iff [OF d, of k] map_of_eq_None_iff
    by (metis not_None_eq)
qed

text \<open>The environment gives each setting its variable; the order of Go's map does not matter.\<close>

lemma apply_env_settings:
  assumes "apply_env ord lc pd getenv c = (c', None)" and "valid_order ord"
  shows "setting c' = setting c ++ env_values lc pd getenv"
proof -
  let ?ps = "env_pairs getenv (go_range ord env_table)"
  have run: "run_puts (cfg_set lc pd) ?ps c = (c', None)"
    using assms(1) by (simp add: apply_env_def env_loop_ok)
  have m: "mset ?ps = mset (env_pairs getenv env_table)"
    using wf_env_table assms(2) by (intro mset_env_pairs mset_go_range)
  have "distinct (map (\<lambda>(k, r). canonical_key lc k) ?ps)"
    using distinct_env_keys m by (metis mset_eq_imp_distinct_iff mset_map)
  from conf.run_any_order [OF run m this] obtain c2 where
    c2: "run_puts (cfg_set lc pd) (env_pairs getenv env_table) c = (c2, None)" "setting c2 = setting c'"
    by blast
  show ?thesis using conf.run_result [OF c2(1)] c2 map_of_env_pairs [OF c2(1)] by simp
qed

lemma apply_env_any_order:
  assumes "apply_env ord lc pd getenv c = (c', None)" and "valid_order ord" and "valid_order ord'"
  shows "apply_env ord' lc pd getenv c = (c', None)"
proof -
  let ?ps = "env_pairs getenv (go_range ord env_table)"
  let ?qs = "env_pairs getenv (go_range ord' env_table)"
  have run: "run_puts (cfg_set lc pd) ?ps c = (c', None)"
    using assms(1) by (simp add: apply_env_def env_loop_ok)
  have m: "mset ?ps = mset (env_pairs getenv env_table)" "mset ?qs = mset (env_pairs getenv env_table)"
    using wf_env_table assms(2,3) by (auto intro!: mset_env_pairs mset_go_range)
  have "distinct (map (\<lambda>(k, r). canonical_key lc k) ?ps)"
    using distinct_env_keys m(1) by (metis mset_eq_imp_distinct_iff mset_map)
  from conf.run_any_order [OF run _ this, of ?qs] m obtain c2 where
    "run_puts (cfg_set lc pd) ?qs c = (c2, None)" "setting c2 = setting c'" by auto
  then show ?thesis by (simp add: apply_env_def env_loop_ok setting_ext)
qed

subsection \<open>Overlays\<close>

text \<open>\<open>MergeOverlay\<close> takes an empty text or a zero for a setting that was not given.\<close>

definition is_unset :: "setting_value \<Rightarrow> bool" where
  "is_unset v \<longleftrightarrow> v = Text [] \<or> v = Number 0"

lemma merge_overlay_settings:
  "setting (merge_overlay c o') k =
     (case setting o' k of Some v \<Rightarrow> if is_unset v then setting c k else Some v | None \<Rightarrow> None)"
  by (cases "k \<in> set (keys setting_kinds)", unfold setting_names)
     (auto simp: setting_def settings_def merge_overlay_def overlay_text_def overlay_int_def
        is_unset_def elim!: insertE)

end
