(* ===== verification/Cli.thy ===== *)
theory Cli
  imports Go_Flags Config Command_Contract
begin

section \<open>The command-line client\<close>

text \<open>
  Models \<open>cmd/llavero-cli/main.go\<close>: the reader of replies (\<open>readReplyDepth\<close>), their printing,
  the writer of commands, the splitter of lines, and the one-shot and the interactive mode over
  a connection. A connection is the bytes the server will send, the error the stream ends with
  and, for each command written, whether the write fails; dialling answers with an error or not.

  A recursion of \<open>readReplyDepth\<close> at depth \<open>d\<close> is \<open>cli_read\<close> with \<open>513 - d\<close> levels left.
  \<open>max_len\<close> is the longest slice of replies the runtime can make; \<open>make\<close> panics beyond it, which
  is the error \<open>SliceTooLong\<close>.

  The lemmas show that the client reads back what the server writes, and that quoting an
  argument and splitting the line gives the argument back.
\<close>

subsection \<open>Replies\<close>

datatype reply_kind = KStatus | KError | KInt | KBulk | KArray

datatype cli_reply =
  CliReply (rep_kind: reply_kind) (rep_text: bytes) (rep_items: "cli_reply list") (rep_null: bool)

datatype cli_err =
    CliIo io_err
  | EmptyReply
  | InvalidBulk bytes
  | BulkTooBig int
  | InvalidArray bytes
  | UnknownReply bytes
  | NestedTooDeep
  | SliceTooLong
  | CliWrite bytes
  | ServerRefused bytes
  | CliDial bytes
  | CliInput bytes

abbreviation max_client_bulk_size :: int where "max_client_bulk_size \<equiv> 512 * 1024 * 1024"
abbreviation max_array_depth :: nat where "max_array_depth \<equiv> 512"

definition cli_line :: "io_err \<Rightarrow> (cli_err, bytes) reader" where
  "cli_line fin inp =
     (case read_string fin inp of
        Inl e \<Rightarrow> Inl (CliIo e)
      | Inr (line, inp) \<Rightarrow> Inr (trim_eol line, inp))"

definition cli_bulk :: "io_err \<Rightarrow> nat \<Rightarrow> (cli_err, cli_reply) reader" where
  "cli_bulk fin n inp =
     (case read_full fin n inp of
        Inl e \<Rightarrow> Inl (CliIo e)
      | Inr (buf, inp) \<Rightarrow>
          if length inp < 2 then Inl (CliIo fin)
          else Inr (CliReply KBulk buf [] False, drop 2 inp))"

text \<open>The switch on the first byte of a line; \<open>item\<close> reads an element of an array.\<close>

definition cli_body ::
  "int \<Rightarrow> io_err \<Rightarrow> (cli_err, cli_reply) reader \<Rightarrow> bytes \<Rightarrow> (cli_err, cli_reply) reader" where
  "cli_body max_len fin item line inp =
     (case line of
        [] \<Rightarrow> Inl EmptyReply
      | c # body \<Rightarrow>
          if c = CHR ''+'' then Inr (CliReply KStatus body [] False, inp)
          else if c = CHR ''-'' then Inr (CliReply KError body [] False, inp)
          else if c = CHR '':'' then Inr (CliReply KInt body [] False, inp)
          else if c = CHR ''$'' then
            (case parse_int body of
               None \<Rightarrow> Inl (InvalidBulk line)
             | Some n \<Rightarrow>
                 if n < 0 then Inr (CliReply KBulk [] [] True, inp)
                 else if n > max_client_bulk_size then Inl (BulkTooBig n)
                 else cli_bulk fin (nat n) inp)
          else if c = CHR ''*'' then
            (case parse_int body of
               None \<Rightarrow> Inl (InvalidArray line)
             | Some n \<Rightarrow>
                 if n < 0 then Inr (CliReply KArray [] [] True, inp)
                 else if n > max_len then Inl SliceTooLong
                 else (case read_many item (nat n) inp of
                         Inl e \<Rightarrow> Inl e
                       | Inr (items, inp) \<Rightarrow> Inr (CliReply KArray [] items False, inp)))
          else Inl (UnknownReply line))"

primrec cli_read :: "nat \<Rightarrow> int \<Rightarrow> io_err \<Rightarrow> (cli_err, cli_reply) reader" where
  "cli_read 0 max_len fin inp = Inl NestedTooDeep"
| "cli_read (Suc levels) max_len fin inp =
     (case cli_line fin inp of
        Inl e \<Rightarrow> Inl e
      | Inr (line, inp) \<Rightarrow> cli_body max_len fin (cli_read levels max_len fin) line inp)"

definition read_reply :: "int \<Rightarrow> io_err \<Rightarrow> (cli_err, cli_reply) reader" where
  "read_reply = cli_read (Suc max_array_depth)"

text \<open>\<open>printReply\<close>: the lines it prints; an element of an array is printed after its number.\<close>

fun print_reply :: "bytes \<Rightarrow> cli_reply \<Rightarrow> bytes" and
  print_items :: "bytes \<Rightarrow> nat \<Rightarrow> cli_reply list \<Rightarrow> bytes" where
  "print_reply label (CliReply kind txt items null) =
     (case kind of
        KStatus \<Rightarrow> label @ txt @ lf
      | KError \<Rightarrow> label @ ''(error) '' @ txt @ lf
      | KInt \<Rightarrow> label @ ''(integer) '' @ txt @ lf
      | KBulk \<Rightarrow> if null then label @ ''(nil)'' @ lf else label @ txt @ lf
      | KArray \<Rightarrow> if null then label @ ''(nil)'' @ lf else print_items label 0 items)"
| "print_items label i [] = []"
| "print_items label i (item # items) =
     print_reply (label @ format_int (int (Suc i)) @ '') '') item @ print_items label (Suc i) items"

subsection \<open>Commands and lines\<close>

definition write_command :: "bytes list \<Rightarrow> bytes" where
  "write_command args =
     (if args = [] then []
      else ''*'' @ format_int (int (length args)) @ crlf @
        concat (map (\<lambda>arg. ''$'' @ format_int (int (length arg)) @ crlf @ arg @ crlf) args))"

definition is_auth :: "bytes list \<Rightarrow> bool" where
  "is_auth args \<longleftrightarrow> args \<noteq> [] \<and> equal_fold (hd args) ''AUTH''"

definition is_subscribe :: "bytes list \<Rightarrow> bool" where
  "is_subscribe args \<longleftrightarrow> args \<noteq> [] \<and> equal_fold (hd args) ''SUBSCRIBE''"

text \<open>
  \<open>range\<close> over a string decodes UTF-8. \<open>rune_width\<close> is the number of bytes of the character a
  string begins with, 0 when it begins with none. A rune is kept as the bytes \<open>WriteRune\<close> writes
  for it: those it was decoded from, and those of U+FFFD for a byte that is not UTF-8.
\<close>

definition cont_byte :: "char \<Rightarrow> bool" where
  "cont_byte c \<longleftrightarrow> 0x80 \<le> byte_val c \<and> byte_val c \<le> (0xBF :: nat)"

definition second_ok :: "nat \<Rightarrow> char \<Rightarrow> bool" where
  "second_ok lead c \<longleftrightarrow>
     cont_byte c \<and>
     (lead = 0xE0 \<longrightarrow> byte_val c \<ge> (0xA0 :: nat)) \<and> (lead = 0xED \<longrightarrow> byte_val c \<le> (0x9F :: nat)) \<and>
     (lead = 0xF0 \<longrightarrow> byte_val c \<ge> (0x90 :: nat)) \<and> (lead = 0xF4 \<longrightarrow> byte_val c \<le> (0x8F :: nat))"

fun rune_width :: "bytes \<Rightarrow> nat" where
  "rune_width [] = 0"
| "rune_width (a # s) =
     (let n = byte_val a
      in if n < 0x80 then 1
         else if 0xC2 \<le> n \<and> n \<le> 0xDF then
           (case s of b # _ \<Rightarrow> if cont_byte b then 2 else 0 | _ \<Rightarrow> 0)
         else if 0xE0 \<le> n \<and> n \<le> 0xEF then
           (case s of b # c # _ \<Rightarrow> if second_ok n b \<and> cont_byte c then 3 else 0 | _ \<Rightarrow> 0)
         else if 0xF0 \<le> n \<and> n \<le> 0xF4 then
           (case s of b # c # d # _ \<Rightarrow>
              if second_ok n b \<and> cont_byte c \<and> cont_byte d then 4 else 0 | _ \<Rightarrow> 0)
         else 0)"

abbreviation replacement :: bytes where
  "replacement \<equiv> [CHR 0xEF, CHR 0xBF, CHR 0xBD]"

function runes :: "bytes \<Rightarrow> bytes list" where
  "runes s =
     (if s = [] then []
      else let w = rune_width s
           in if w = 0 then replacement # runes (tl s) else take w s # runes (drop w s))"
  by pat_completeness auto
termination by (relation "measure length") auto

declare runes.simps [simp del]

datatype split_err = IncompleteEscape | UnclosedQuote

abbreviation dquote :: bytes where "dquote \<equiv> [CHR 0x22]"
abbreviation squote :: bytes where "squote \<equiv> [CHR 0x27]"
abbreviation backslash :: bytes where "backslash \<equiv> [CHR 0x5C]"

text \<open>The loop of \<open>splitLine\<close>; \<open>quote\<close> is empty outside quotes.\<close>

fun split_loop ::
  "bytes \<Rightarrow> bool \<Rightarrow> bool \<Rightarrow> bytes \<Rightarrow> bytes list \<Rightarrow> bytes list \<Rightarrow> split_err + bytes list" where
  "split_loop quote escaped in_token b args [] =
     (if escaped then Inl IncompleteEscape
      else if quote \<noteq> [] then Inl UnclosedQuote
      else Inr (if in_token then args @ [b] else args))"
| "split_loop quote escaped in_token b args (r # rs) =
     (if escaped then split_loop quote False True (b @ r) args rs
      else if quote \<noteq> [] \<and> r = backslash then split_loop quote True in_token b args rs
      else if quote \<noteq> [] then
        (if r = quote then split_loop [] False in_token b args rs
         else split_loop quote False True (b @ r) args rs)
      else if r = dquote \<or> r = squote then split_loop r False True b args rs
      else if r = '' '' \<or> r = [CHR 0x09] then
        (if in_token then split_loop [] False False [] (args @ [b]) rs
         else split_loop [] False False b args rs)
      else split_loop [] False True (b @ r) args rs)"

definition split_line :: "bytes \<Rightarrow> split_err + bytes list" where
  "split_line line = split_loop [] False False [] [] (runes line)"

subsection \<open>Sessions\<close>

text \<open>
  What passed so far: the bytes sent, the bytes shown, the bytes the server has still to send
  and the number of commands written. \<open>wr\<close> gives the error of each write.
\<close>

record session =
  sent :: bytes
  shown :: bytes
  incoming :: bytes
  written :: nat

definition send_command :: "(nat \<Rightarrow> bytes option) \<Rightarrow> bytes list \<Rightarrow> session \<Rightarrow> session \<times> cli_err option" where
  "send_command wr args ses =
     (if args = [] then (ses, None)
      else case wr (written ses) of
             Some e \<Rightarrow> (ses\<lparr>written := Suc (written ses)\<rparr>, Some (CliWrite e))
           | None \<Rightarrow>
               (ses\<lparr>sent := sent ses @ write_command args, written := Suc (written ses)\<rparr>, None))"

definition read_and_print :: "int \<Rightarrow> io_err \<Rightarrow> session \<Rightarrow> session \<times> cli_err option" where
  "read_and_print max_len fin ses =
     (case read_reply max_len fin (incoming ses) of
        Inl e \<Rightarrow> (ses, Some e)
      | Inr (rep, rest) \<Rightarrow>
          (ses\<lparr>incoming := rest, shown := shown ses @ print_reply [] rep\<rparr>, None))"

lemma cli_line_Some: "cli_line fin inp = Inr (line, rest) \<Longrightarrow> length rest < length inp"
  by (auto simp: cli_line_def split: sum.splits prod.splits dest!: read_string_Some)

lemma read_full_length: "read_full fin n inp = Inr (b, rest) \<Longrightarrow> length rest \<le> length inp"
  using read_full_Some by fastforce

lemma read_many_length:
  assumes "\<And>inp x rest. dec inp = Inr (x, rest) \<Longrightarrow> length rest \<le> length inp"
  shows "read_many dec n inp = Inr (xs, rest) \<Longrightarrow> length rest \<le> length inp"
proof (induction n arbitrary: inp xs)
  case (Suc n)
  then show ?case by (fastforce split: sum.splits prod.splits dest: assms)
qed simp

lemma cli_body_length:
  assumes "\<And>inp x rest. item inp = Inr (x, rest) \<Longrightarrow> length rest \<le> length inp"
    and "cli_body max_len fin item line inp = Inr (rep, rest)"
  shows "length rest \<le> length inp"
proof -
  have many: "length r \<le> length i" if "read_many item n i = Inr (xs, r)" for n i xs r
    using read_many_length [of item] assms(1) that by blast
  show ?thesis
    using assms(2)
    by (auto simp: cli_body_def cli_bulk_def split: list.splits if_splits option.splits sum.splits
        prod.splits dest: read_full_length many)
qed

lemma cli_read_length: "cli_read levels max_len fin inp = Inr (rep, rest) \<Longrightarrow> length rest < length inp"
proof (induction levels arbitrary: inp rep rest)
  case (Suc levels)
  then obtain line mid where l: "cli_line fin inp = Inr (line, mid)"
    "cli_body max_len fin (cli_read levels max_len fin) line mid = Inr (rep, rest)"
    by (auto split: sum.splits prod.splits)
  from cli_body_length [OF _ l(2)] Suc.IH have "length rest \<le> length mid" by force
  then show ?case using cli_line_Some [OF l(1)] by simp
qed simp

lemma read_and_print_progress:
  "read_and_print max_len fin ses = (ses', None) \<Longrightarrow> length (incoming ses') < length (incoming ses)"
  by (auto simp: read_and_print_def read_reply_def split: sum.splits prod.splits
      simp del: cli_read.simps dest!: cli_read_length)

text \<open>After a SUBSCRIBE the client prints what comes until the stream ends.\<close>

function read_all :: "int \<Rightarrow> io_err \<Rightarrow> session \<Rightarrow> session \<times> cli_err option" where
  "read_all max_len fin ses =
     (case read_and_print max_len fin ses of
        (ses', Some e) \<Rightarrow> (ses', if e = CliIo EOF then None else Some e)
      | (ses', None) \<Rightarrow> read_all max_len fin ses')"
  by pat_completeness auto
termination
  by (relation "measure (\<lambda>(_, _, ses). length (incoming ses))")
     (auto dest!: read_and_print_progress [OF sym])

declare read_all.simps [simp del]

definition authenticate ::
  "(nat \<Rightarrow> bytes option) \<Rightarrow> int \<Rightarrow> io_err \<Rightarrow> bytes \<Rightarrow> session \<Rightarrow> session \<times> cli_err option" where
  "authenticate wr max_len fin password ses =
     (case send_command wr [''AUTH'', password] ses of
        (ses, Some e) \<Rightarrow> (ses, Some e)
      | (ses, None) \<Rightarrow>
          (case read_reply max_len fin (incoming ses) of
             Inl e \<Rightarrow> (ses, Some e)
           | Inr (rep, rest) \<Rightarrow>
               (ses\<lparr>incoming := rest\<rparr>,
                if rep_kind rep = KError then Some (ServerRefused (rep_text rep)) else None)))"

text \<open>One command and what follows it; the \<open>bool\<close>: the session is over.\<close>

definition exchange ::
  "(nat \<Rightarrow> bytes option) \<Rightarrow> int \<Rightarrow> io_err \<Rightarrow> bytes list \<Rightarrow> session \<Rightarrow>
   session \<times> cli_err option \<times> bool" where
  "exchange wr max_len fin args ses =
     (case send_command wr args ses of
        (ses, Some e) \<Rightarrow> (ses, Some e, True)
      | (ses, None) \<Rightarrow>
          (case read_and_print max_len fin ses of
             (ses, Some e) \<Rightarrow> (ses, Some e, True)
           | (ses, None) \<Rightarrow>
               if is_subscribe args then
                 (case read_all max_len fin ses of (ses, err) \<Rightarrow> (ses, err, True))
               else (ses, None, False)))"

record dial_options =
  dial_addr :: bytes
  dial_auth :: bytes
  dial_tls :: bool
  dial_tls_skip_verify :: bool
  dial_tls_server_name :: bytes

text \<open>\<open>dials\<close> answers for \<open>net.Dial\<close> and \<open>tls.Dial\<close>.\<close>

definition dial :: "(dial_options \<Rightarrow> bytes option) \<Rightarrow> dial_options \<Rightarrow> cli_err option" where
  "dial dials opts =
     (case dials opts of
        None \<Rightarrow> None
      | Some e \<Rightarrow>
          Some (CliDial ((if dial_tls opts then ''TLS connect to '' else ''connect to '') @
                  dial_addr opts @ '': '' @ e)))"

definition run_command ::
  "(dial_options \<Rightarrow> bytes option) \<Rightarrow> (nat \<Rightarrow> bytes option) \<Rightarrow> int \<Rightarrow> io_err \<Rightarrow> dial_options \<Rightarrow>
   bytes list \<Rightarrow> session \<Rightarrow> session \<times> cli_err option" where
  "run_command dials wr max_len fin opts args ses =
     (case dial dials opts of
        Some e \<Rightarrow> (ses, Some e)
      | None \<Rightarrow>
          (case (if dial_auth opts \<noteq> [] \<and> \<not> is_auth args
                 then authenticate wr max_len fin (dial_auth opts) ses else (ses, None)) of
             (ses, Some e) \<Rightarrow> (ses, Some e)
           | (ses, None) \<Rightarrow>
               (case exchange wr max_len fin args ses of (ses, err, _) \<Rightarrow> (ses, err))))"

fun interactive_loop ::
  "(nat \<Rightarrow> bytes option) \<Rightarrow> int \<Rightarrow> io_err \<Rightarrow> cli_err option \<Rightarrow> bytes list \<Rightarrow> session \<Rightarrow>
   session \<times> cli_err option" where
  "interactive_loop wr max_len fin input_err [] ses =
     (ses\<lparr>shown := shown ses @ ''llavero> '' @ lf\<rparr>, input_err)"
| "interactive_loop wr max_len fin input_err (raw # lines) ses =
     (let ses = ses\<lparr>shown := shown ses @ ''llavero> ''\<rparr>; line = trim_space raw
      in if line = [] then interactive_loop wr max_len fin input_err lines ses
         else if equal_fold line ''exit'' \<or> equal_fold line ''quit'' then (ses, None)
         else case split_line line of
                Inl _ \<Rightarrow> interactive_loop wr max_len fin input_err lines ses
              | Inr args \<Rightarrow>
                  if args = [] then interactive_loop wr max_len fin input_err lines ses
                  else (case exchange wr max_len fin args ses of
                          (ses, err, True) \<Rightarrow> (ses, err)
                        | (ses, _, False) \<Rightarrow> interactive_loop wr max_len fin input_err lines ses))"

text \<open>The standard input is its bytes and the error its reading ends with.\<close>

definition run_interactive ::
  "(dial_options \<Rightarrow> bytes option) \<Rightarrow> (nat \<Rightarrow> bytes option) \<Rightarrow> int \<Rightarrow> io_err \<Rightarrow> dial_options \<Rightarrow>
   bytes \<times> bytes option \<Rightarrow> session \<Rightarrow> session \<times> cli_err option" where
  "run_interactive dials wr max_len fin opts stdin ses =
     (case dial dials opts of
        Some e \<Rightarrow> (ses, Some e)
      | None \<Rightarrow>
          (case (if dial_auth opts \<noteq> [] then authenticate wr max_len fin (dial_auth opts) ses
                 else (ses, None)) of
             (ses, Some e) \<Rightarrow> (ses, Some e)
           | (ses, None) \<Rightarrow>
               (case scan_lines (fst stdin) of
                  (lines, long) \<Rightarrow>
                    interactive_loop wr max_len fin
                      (if long then Some (CliInput ''bufio.Scanner: token too long'')
                       else map_option CliInput (snd stdin)) lines ses)))"

definition cli_flags :: "(bytes \<times> dial_options flag_spec) list" where
  "cli_flags =
     [(''addr'', text_flag (\<lambda>v o'. o'\<lparr>dial_addr := v\<rparr>)),
      (''auth'', text_flag (\<lambda>v o'. o'\<lparr>dial_auth := v\<rparr>)),
      (''tls'', SwitchFlag (\<lambda>b o'. o'\<lparr>dial_tls := b\<rparr>)),
      (''tls-skip-verify'', SwitchFlag (\<lambda>b o'. o'\<lparr>dial_tls_skip_verify := b\<rparr>)),
      (''tls-server-name'', text_flag (\<lambda>v o'. o'\<lparr>dial_tls_server_name := v\<rparr>))]"

definition cli_main ::
  "(dial_options \<Rightarrow> bytes option) \<Rightarrow> (nat \<Rightarrow> bytes option) \<Rightarrow> int \<Rightarrow> io_err \<Rightarrow> bytes list \<Rightarrow>
   bytes \<times> bytes option \<Rightarrow> bytes \<Rightarrow> flag_err + session \<times> cli_err option" where
  "cli_main dials wr max_len fin args stdin replies =
     (let ses = \<lparr>sent = [], shown = [], incoming = replies, written = 0\<rparr>
      in case parse_flags cli_flags args
                \<lparr>dial_addr = ''127.0.0.1:6380'', dial_auth = [], dial_tls = False,
                 dial_tls_skip_verify = False, dial_tls_server_name = []\<rparr> [] of
           Inl e \<Rightarrow> Inl e
         | Inr (opts, _, rest) \<Rightarrow>
             Inr (if rest \<noteq> [] then run_command dials wr max_len fin opts rest ses
                  else run_interactive dials wr max_len fin opts stdin ses))"

subsection \<open>The client reads what the server writes\<close>

text \<open>
  What of a reply the client keeps, and which replies it can read: lines without their own ends,
  bulk strings of at most 512 MiB, arrays that fit in memory, at most \<open>levels\<close> deep.
\<close>

fun cli_view :: "reply \<Rightarrow> cli_reply" where
  "cli_view (StatusReply msg) = CliReply KStatus msg [] False"
| "cli_view (ErrorReply msg) = CliReply KError msg [] False"
| "cli_view (IntReply n) = CliReply KInt (format_int n) [] False"
| "cli_view (BulkReply v null) =
     (if null then CliReply KBulk [] [] True else CliReply KBulk v [] False)"
| "cli_view (ArrayReply elems null) =
     (if null then CliReply KArray [] [] True else CliReply KArray [] (map cli_view elems) False)"

fun cli_ok :: "nat \<Rightarrow> int \<Rightarrow> reply \<Rightarrow> bool" where
  "cli_ok 0 max_len r = False"
| "cli_ok (Suc levels) max_len (StatusReply msg) = line_ok msg"
| "cli_ok (Suc levels) max_len (ErrorReply msg) = line_ok msg"
| "cli_ok (Suc levels) max_len (IntReply n) = True"
| "cli_ok (Suc levels) max_len (BulkReply v null) = (null \<or> bulk_ok v)"
| "cli_ok (Suc levels) max_len (ArrayReply elems null) =
     (null \<or> int (length elems) \<le> max_len \<and> list_all (cli_ok levels max_len) elems)"

lemma cli_ok_numeral [simp]:
  "cli_ok (numeral k) max_len (StatusReply msg) = line_ok msg"
  "cli_ok (numeral k) max_len (ErrorReply msg) = line_ok msg"
  "cli_ok (numeral k) max_len (IntReply n)"
  "cli_ok (numeral k) max_len (BulkReply v null) = (null \<or> bulk_ok v)"
  "cli_ok (numeral k) max_len (ArrayReply elems null) =
     (null \<or> int (length elems) \<le> max_len \<and> list_all (cli_ok (pred_numeral k) max_len) elems)"
  by (simp_all add: numeral_eq_Suc)

definition cli_eof :: "cli_err \<Rightarrow> bool" where
  "cli_eof e \<longleftrightarrow> e = CliIo EOF \<or> e = CliIo ErrUnexpectedEOF"

lemma line_message:
  assumes "line_ok line" and "line \<noteq> []"
  shows "message cli_eof (cli_line EOF) (line @ crlf) line"
proof -
  have lf: "no_lf (line @ [CHR 0x0D])" using assms(1) by (auto simp: line_ok_def is_eol_def)
  have "\<not> is_eol (last line)" using assms by (simp add: line_ok_def)
  then have trim: "trim_eol line = line" using trim_eol_id by blast
  have "cli_line EOF ((line @ crlf) @ rest) = Inr (line, rest)" for rest
    using read_string_line [OF lf, of EOF rest] trim by (simp add: cli_line_def trim_eol_crlf)
  moreover have "\<exists>e. cli_line EOF p = Inl e \<and> cli_eof e" if "strict_prefix p (line @ crlf)" for p
  proof -
    have "no_lf p" using strict_prefix_line [of p "line @ [CHR 0x0D]"] that lf by simp
    then show ?thesis by (simp add: cli_line_def read_string_no_lf cli_eof_def)
  qed
  ultimately show ?thesis by (simp add: message_def)
qed

lemma line_ok_header [simp]: "line_ok (format_int n)"
  using format_int_no_crlf by (auto simp: line_ok_def is_eol_def)

lemma bulk_message:
  "message cli_eof (cli_bulk EOF (length v)) (v @ crlf) (CliReply KBulk v [] False)"
proof -
  have "\<exists>e. cli_bulk EOF (length v) p = Inl e \<and> cli_eof e" if "strict_prefix p (v @ crlf)" for p
    using that
  proof (cases rule: strict_prefix_appendE)
    case 1
    then have "length p < length v" by (rule strict_prefix_length_less)
    then show ?thesis by (simp add: cli_bulk_def read_full_def cli_eof_def)
  next
    case (2 q)
    then have "length q < 2" using strict_prefix_length_less by fastforce
    then show ?thesis using 2(1) by (simp add: cli_bulk_def cli_eof_def)
  qed
  then show ?thesis by (simp add: message_def cli_bulk_def)
qed

lemma message_done: "message eof (\<lambda>inp. Inr (x, inp)) [] x"
  by (simp add: message_def)

declare cli_read.simps(2) [simp del]

text \<open>A line and what the switch on it reads make a message; some lines are messages by themselves.\<close>

lemma cli_read_message:
  assumes "line_ok line" and "line \<noteq> []"
    and "message cli_eof (cli_body max_len EOF (cli_read levels max_len EOF) line) w x"
  shows "message cli_eof (cli_read (Suc levels) max_len EOF) (line @ crlf @ w) x"
proof -
  let ?body = "cli_body max_len EOF (cli_read levels max_len EOF)"
  have "cli_read (Suc levels) max_len EOF =
      (\<lambda>inp. case cli_line EOF inp of Inl e \<Rightarrow> Inl e | Inr (line, inp) \<Rightarrow> ?body line inp)"
    by (rule ext) (simp add: cli_read.simps(2))
  then show ?thesis
    using message_bind [of cli_eof "cli_line EOF" "line @ crlf" line ?body w x]
      line_message [OF assms(1,2)] assms(3) by simp
qed

lemma cli_read_line:
  assumes "line_ok line" and "line \<noteq> []"
    and "cli_body max_len EOF (cli_read levels max_len EOF) line = (\<lambda>inp. Inr (x, inp))"
  shows "message cli_eof (cli_read (Suc levels) max_len EOF) (line @ crlf) x"
  using cli_read_message [OF assms(1,2), of max_len levels "[]" x] message_done [of cli_eof x] assms(3)
  by simp

lemma parse_minus_one: "parse_int ''-1'' = Some (-1)"
  by (simp add: parse_int_def is_digit_def in_i64_def)

lemma cli_read_lines:
  "line_ok msg \<Longrightarrow> message cli_eof (cli_read (Suc levels) max_len EOF) (resp_encode (StatusReply msg))
     (cli_view (StatusReply msg))"
  "line_ok msg \<Longrightarrow> message cli_eof (cli_read (Suc levels) max_len EOF) (resp_encode (ErrorReply msg))
     (cli_view (ErrorReply msg))"
  "message cli_eof (cli_read (Suc levels) max_len EOF) (resp_encode (IntReply n)) (cli_view (IntReply n))"
  "message cli_eof (cli_read (Suc levels) max_len EOF) (resp_encode (BulkReply v True))
     (cli_view (BulkReply v True))"
  "message cli_eof (cli_read (Suc levels) max_len EOF) (resp_encode (ArrayReply elems True))
     (cli_view (ArrayReply elems True))"
  using cli_read_line [of "CHR ''+'' # msg"] cli_read_line [of "CHR ''-'' # msg"]
    cli_read_line [of "CHR '':'' # format_int n"] cli_read_line [of "''$-1''"] cli_read_line [of "''*-1''"]
  by (simp_all add: cli_body_def fun_eq_iff parse_minus_one)

lemma cli_read_bulk:
  assumes "bulk_ok v"
  shows "message cli_eof (cli_read (Suc levels) max_len EOF) (resp_encode (BulkReply v False))
    (cli_view (BulkReply v False))"
proof -
  let ?line = "CHR ''$'' # format_int (int (length v))"
  have "in_i64 (int (length v))" using assms by (simp add: bulk_ok_def in_i64_def)
  then have "cli_body max_len EOF (cli_read levels max_len EOF) ?line = cli_bulk EOF (length v)"
    using assms by (simp add: cli_body_def bulk_ok_def fun_eq_iff)
  then show ?thesis
    using cli_read_message [of ?line max_len levels "v @ crlf"] bulk_message [of v] by simp
qed

lemma cli_read_array:
  assumes "int (length elems) \<le> max_len" and "max_len \<le> max_int64"
    and "\<And>r. r \<in> set elems \<Longrightarrow> message cli_eof (cli_read levels max_len EOF) (resp_encode r) (cli_view r)"
  shows "message cli_eof (cli_read (Suc levels) max_len EOF) (resp_encode (ArrayReply elems False))
    (cli_view (ArrayReply elems False))"
proof -
  let ?line = "CHR ''*'' # format_int (int (length elems))"
  have "in_i64 (int (length elems))" using assms(1,2) by (simp add: in_i64_def)
  then have body: "cli_body max_len EOF (cli_read levels max_len EOF) ?line =
      (\<lambda>inp. case read_many (cli_read levels max_len EOF) (length elems) inp of
         Inl e \<Rightarrow> Inl e | Inr (items, inp) \<Rightarrow> Inr (CliReply KArray [] items False, inp))"
    using assms(1) by (simp add: cli_body_def fun_eq_iff)
  have "list_all2 (message cli_eof (cli_read levels max_len EOF)) (map resp_encode elems)
      (map cli_view elems)"
    using assms(3) by (simp add: list_all2_conv_all_nth)
  from message_map [OF message_many [OF this], of "\<lambda>items. CliReply KArray [] items False"]
  show ?thesis using cli_read_message [of ?line max_len levels] body by simp
qed

lemma cli_message:
  assumes "cli_ok levels max_len r" and "max_len \<le> max_int64"
  shows "message cli_eof (cli_read levels max_len EOF) (resp_encode r) (cli_view r)"
  using assms(1)
proof (induction levels arbitrary: r)
  case (Suc levels)
  show ?case
  proof (cases r)
    case (BulkReply v null)
    then show ?thesis using Suc.prems cli_read_lines(4) cli_read_bulk by (cases null) auto
  next
    case (ArrayReply elems null)
    then show ?thesis
      using Suc cli_read_lines(5) cli_read_array [OF _ assms(2), of elems levels]
      by (cases null) (auto simp: list_all_iff simp del: resp_encode.simps cli_view.simps)
  qed (use Suc.prems cli_read_lines(1-3) in \<open>simp_all del: resp_encode.simps cli_view.simps\<close>)
qed simp

interpretation cli: framing "\<lambda>r. cli_ok (Suc max_array_depth) max_len r \<and> max_len \<le> max_int64"
    resp_encode "read_reply max_len EOF" cli_view cli_eof for max_len
  unfolding framing_iff_message read_reply_def using cli_message by blast

subsection \<open>Requests\<close>

lemma write_command_wire: "args \<noteq> [] \<Longrightarrow> write_command args = request_wire args"
proof -
  assume "args \<noteq> []"
  moreover have "(\<lambda>arg. ''$'' @ format_int (int (length arg)) @ crlf @ arg @ crlf) = bulk_wire"
    by (simp add: bulk_wire_def header_def fun_eq_iff)
  ultimately show ?thesis by (simp only: write_command_def request_wire_def header_def) simp
qed

subsection \<open>Quoting\<close>

text \<open>A character: exactly the bytes of one rune.\<close>

definition is_rune :: "bytes \<Rightarrow> bool" where
  "is_rune r \<longleftrightarrow> r \<noteq> [] \<and> rune_width r = length r"

lemma is_rune_length: "is_rune r \<Longrightarrow> length r \<le> 4"
  by (cases r) (auto simp: is_rune_def Let_def split: if_splits list.splits)

lemma rune_width_append: "is_rune r \<Longrightarrow> rune_width (r @ s) = length r"
  by (cases r) (auto simp: is_rune_def Let_def split: if_splits list.splits)

lemma rune_width_take: "rune_width s \<noteq> 0 \<Longrightarrow> is_rune (take (rune_width s) s)"
  by (cases s) (auto simp: is_rune_def Let_def split: if_splits list.splits)

lemma is_rune_ascii: "byte_val c < (128 :: nat) \<Longrightarrow> is_rune [c]"
  by (simp add: is_rune_def)

lemma runes_Cons: "is_rune r \<Longrightarrow> runes (r @ s) = r # runes s"
  using rune_width_append [of r s] by (subst runes.simps) (auto simp: is_rune_def)

lemma runes_concat: "list_all is_rune rs \<Longrightarrow> runes (concat rs @ s) = rs @ runes s"
  by (induction rs) (auto simp: runes_Cons)

lemma runes_Nil [simp]: "runes [] = []"
  by (simp add: runes.simps)

lemma is_rune_replacement: "is_rune replacement"
  by (simp add: is_rune_def second_ok_def cont_byte_def)

lemma runes_are_runes: "list_all is_rune (runes s)"
proof (induction s rule: runes.induct)
  case (1 s)
  then show ?case
    using rune_width_take [of s] is_rune_replacement by (subst runes.simps) (auto simp: Let_def)
qed

text \<open>A text is UTF-8 when decoding it loses nothing.\<close>

definition utf8 :: "bytes \<Rightarrow> bool" where
  "utf8 s \<longleftrightarrow> concat (runes s) = s"

definition escape_rune :: "bytes \<Rightarrow> bytes list" where
  "escape_rune r = (if r = dquote \<or> r = backslash then [backslash, r] else [r])"

definition quote_arg :: "bytes \<Rightarrow> bytes" where
  "quote_arg arg = dquote @ concat (concat (map escape_rune (runes arg))) @ dquote"

fun join_space :: "bytes list \<Rightarrow> bytes" where
  "join_space [] = []"
| "join_space [arg] = arg"
| "join_space (arg # args) = arg @ '' '' @ join_space args"

lemma runes_quote:
  "runes (quote_arg arg @ s) = dquote # concat (map escape_rune (runes arg)) @ dquote # runes s"
proof -
  have q: "is_rune dquote" "is_rune backslash" by (simp_all add: is_rune_def)
  have "list_all is_rune (concat (map escape_rune (runes arg)))"
    using runes_are_runes [of arg] q by (auto simp: list_all_iff escape_rune_def split: if_splits)
  then have "runes (concat (concat (map escape_rune (runes arg))) @ dquote @ s) =
      concat (map escape_rune (runes arg)) @ runes (dquote @ s)"
    by (rule runes_concat)
  then show ?thesis
    using runes_Cons [OF q(1)] by (simp add: quote_arg_def)
qed

lemma split_loop_escaped:
  "split_loop dquote False True b args (concat (map escape_rune rs) @ rest) =
   split_loop dquote False True (b @ concat rs) args rest"
  by (induction rs arbitrary: b) (auto simp: escape_rune_def)

lemma split_loop_quote:
  "split_loop [] False False [] args (runes (quote_arg arg @ s)) =
   split_loop [] False True (concat (runes arg)) args (runes s)"
  by (simp add: runes_quote split_loop_escaped)

lemma split_loop_join:
  "list_all utf8 args \<Longrightarrow>
   split_loop [] False False [] done (runes (join_space (map quote_arg args))) = Inr (done @ args)"
proof (induction args arbitrary: "done" rule: join_space.induct)
  case (2 arg)
  then show ?case using split_loop_quote [of "done" arg "[]"] by (simp add: utf8_def)
next
  case (3 arg arg' args)
  let ?rest = "join_space (map quote_arg (arg' # args))"
  have "runes ('' '' @ ?rest) = '' '' # runes ?rest"
    by (rule runes_Cons) (simp add: is_rune_def)
  then show ?case
    using 3 split_loop_quote [of "done" arg "'' '' @ ?rest"] by (simp add: utf8_def)
qed simp

lemma split_line_quoted: "list_all utf8 args \<Longrightarrow> split_line (join_space (map quote_arg args)) = Inr args"
  using split_loop_join [of args "[]"] by (simp add: split_line_def)

end
