(* ===== verification/Client_Properties.thy ===== *)
theory Client_Properties
  imports Cli Sample_Server
begin

section \<open>Properties of the protocol between client and server\<close>

text \<open>
  What client and server promise each other on the wire: the two parsers, the requests the client
  writes, the replies the server answers with and how the client reads them. They rest on the
  contract \<open>framing\<close> and its interpretations in \<open>Protocol\<close> and \<open>Cli\<close>, and on the contract
  \<open>store_cmd\<close> of the handlers.
\<close>

subsection \<open>Requests\<close>

lemma read_bulk_of_crlf:
  assumes "read_bulk_crlf fin inp = Inr (b, rest)"
  shows "read_bulk fin inp = Inr (b, rest)"
proof -
  obtain line mid n mid2 where r:
    "read_string fin inp = Inr (line, mid)"
    "parse_count CHR ''$'' 0 (int max_bulk_size) (trim_eol line) = Some n"
    "read_full fin n mid = Inr (b, mid2)" "read_full fin 2 mid2 = Inr (crlf, rest)"
    using assms
    by (auto simp: read_bulk_crlf_def read_crlf_def split: sum.splits prod.splits option.splits if_splits)
  have "mid2 = crlf @ rest" using read_full_Some [OF r(4)] by simp
  then show ?thesis using r(1-3) by (simp add: read_bulk_def read_byte_def)
qed

lemma read_many_of_crlf:
  "read_many (read_bulk_crlf fin) n inp = Inr (bs, rest) \<Longrightarrow> read_many (read_bulk fin) n inp = Inr (bs, rest)"
  by (induction n arbitrary: inp bs)
     (auto simp: read_bulk_of_crlf split: sum.splits prod.splits)

lemma trim_eol_hd: "trim_eol line = c # cs \<Longrightarrow> hd line = c"
  by (metis append_Cons dropWhile_eq_Nil_conv hd_append2 list.sel(1) rev.simps(1) rev_rev_ident
      takeWhile_dropWhile_id trim_eol_def append_Nil2 rev_append hd_Cons_tl)

text \<open>
  C33: the two parsers agree: whatever RESP2 accepts as a multibulk request, mini-RESP accepts as
  the same command, with the same bytes left, and the command is within the limits of both.
\<close>
theorem parsers_agree:
  assumes "resp_parse uc fin inp = Inr (cmd, rest)" and "hd inp = CHR ''*''"
  shows "mini_parse uc fin inp = Inr (cmd, rest) \<and>
    (\<exists>parts. parts_ok parts \<and> cmd = command_of_parts uc parts) \<and>
    (\<exists>used. used \<noteq> [] \<and> inp = used @ rest)"
proof -
  obtain raw mid where raw: "read_string fin inp = Inr (raw, mid)"
    using assms(1) by (auto simp: resp_parse_def read_crlf_def split: sum.splits prod.splits)
  have hd_raw: "hd raw = CHR ''*''"
    using read_string_Some [OF raw] assms(2) by (cases raw) auto
  have line: "read_crlf fin inp = Inr (trim_eol raw, mid)" using raw by (simp add: read_crlf_def)
  have "trim_eol raw \<noteq> []"
  proof
    assume "trim_eol raw = []"
    then have "\<forall>c \<in> set raw. is_eol c" by (simp add: trim_eol_def dropWhile_eq_Nil_conv)
    then show False using read_string_Some [OF raw] hd_raw by (cases raw) (auto simp: is_eol_def)
  qed
  moreover from this have "hd (trim_eol raw) = CHR ''*''"
    using hd_raw trim_eol_hd by (metis list.collapse)
  ultimately obtain n parts where n: "parse_count CHR ''*'' 1 (int max_args) (trim_eol raw) = Some n"
    "read_many (read_bulk_crlf fin) n mid = Inr (parts, rest)" "cmd = command_of_parts uc parts"
    using assms(1) line
    by (auto simp: resp_parse_def split: sum.splits option.splits prod.splits)
  have "length parts = n" using read_many_suffix [OF consumes_read_bulk_crlf n(2)] by simp
  then have "parts_ok parts"
    using read_many_bulk_ok [OF n(2)] parse_count_Some [OF n(1)] by (auto simp: parts_ok_def)
  moreover have "mini_parse uc fin inp = Inr (cmd, rest)"
    using raw n read_many_of_crlf [OF n(2)] by (simp add: mini_parse_def)
  ultimately show ?thesis using n(3) consumesD [OF consumes_resp_parse assms(1)] by blast
qed

lemma sample_get: "resp_parse (\<lambda>b. b) EOF (request_wire [''get'', ''k''] @ ''rest'') =
    Inr (\<lparr>cmd_name = ''GET'', cmd_args = [''k'']\<rparr>, ''rest'')"
  by (subst resp_parse_request)
     (simp_all add: parts_ok_def bulk_ok_def command_of_parts_def to_upper_def is_ascii_def ascii_upper_def)

theorem parsers_agree_witness:
  "mini_parse (\<lambda>b. b) EOF (request_wire [''get'', ''k''] @ ''rest'') =
     Inr (\<lparr>cmd_name = ''GET'', cmd_args = [''k'']\<rparr>, ''rest'')"
  using parsers_agree [OF sample_get] by (simp add: request_wire_def)

text \<open>
  C34: what the client writes for a list of arguments is one request: both parsers read it as the
  command of these arguments and leave what follows, and no strict prefix of it is a request.
\<close>
theorem client_command_parses:
  assumes "parts_ok args"
  shows "resp_parse uc fin (write_command args @ rest) = Inr (command_of_parts uc args, rest) \<and>
    mini_parse uc fin (write_command args @ rest) = Inr (command_of_parts uc args, rest) \<and>
    (\<forall>p. strict_prefix p (write_command args) \<longrightarrow> (\<exists>e. resp_parse uc EOF p = Inl e \<and> is_eof e))"
proof -
  have "write_command args = request_wire args"
    using assms by (simp add: write_command_wire parts_ok_def)
  then show ?thesis
    using resp_parse_request [OF assms] mini_parse_request(1) [OF assms]
      request.truncated [OF assms] by simp
qed

theorem client_command_parses_witness:
  "resp_parse (\<lambda>b. b) EOF (write_command [''set'', ''k'', ''a b'']) =
     Inr (\<lparr>cmd_name = ''SET'', cmd_args = [''k'', ''a b'']\<rparr>, [])"
  using client_command_parses [of "[''set'', ''k'', ''a b'']" "\<lambda>b. b" EOF "[]"]
  by (simp add: parts_ok_def bulk_ok_def command_of_parts_def to_upper_def is_ascii_def ascii_upper_def)

subsection \<open>A line of the interactive client\<close>

lemma space_width_dquote: "space_width (CHR 0x22 # s) = 0"
  by (cases s rule: space_width.cases) (simp_all add: ascii_space_def Let_def)

lemma trim_left_dquote: "trim_left (CHR 0x22 # s) = CHR 0x22 # s"
  by (simp add: trim_left.simps space_width_dquote)

lemma space_suffix_dquote: "space_suffix_width (s @ dquote) = 0"
proof -
  have one: "last_bytes 1 (s @ dquote) = dquote" by (simp add: last_bytes_def)
  have two: "space_width (last_bytes 2 (s @ dquote)) \<noteq> 2"
    by (cases s rule: rev_cases) (simp_all add: last_bytes_def ascii_space_def Let_def)
  have three: "space_width (last_bytes 3 (s @ dquote)) \<noteq> 3" if "length s \<ge> 2"
  proof -
    obtain t b where t: "s = t @ [b]" using \<open>length s \<ge> 2\<close> by (cases s rule: rev_cases) auto
    obtain u a where u: "t = u @ [a]" using \<open>length s \<ge> 2\<close> t by (cases t rule: rev_cases) auto
    have "last_bytes 3 (s @ dquote) = [a, b, CHR 0x22]" using t u by (simp add: last_bytes_def)
    then show ?thesis by (simp add: Let_def)
  qed
  then show ?thesis
    using one two three by (simp add: space_suffix_width_def ascii_space_def Let_def)
qed

lemma trim_right_dquote: "trim_right (s @ dquote) = s @ dquote"
  using space_suffix_dquote [of s] by (simp add: trim_right.simps)

lemma trim_space_quoted: "trim_space (CHR 0x22 # s @ dquote) = CHR 0x22 # s @ dquote"
  using trim_right_dquote [of "CHR 0x22 # s"] by (simp add: trim_space_def trim_left_dquote)

lemma join_quoted_shape:
  "args \<noteq> [] \<Longrightarrow> \<exists>s. join_space (map quote_arg args) = CHR 0x22 # s @ dquote"
proof (induction args rule: join_space.induct)
  case (3 arg arg' args)
  then obtain s where s: "join_space (map quote_arg (arg' # args)) = CHR 0x22 # s @ dquote" by auto
  obtain t where "quote_arg arg = CHR 0x22 # t" by (simp add: quote_arg_def)
  with s have "join_space (map quote_arg (arg # arg' # args)) =
      CHR 0x22 # (t @ '' '' @ CHR 0x22 # s) @ dquote" by simp
  then show ?case by blast
qed (auto simp: quote_arg_def)

lemma fold_simple_dquote: "fold_simple (CHR 0x22 # s) = CHR 0x22 # fold_simple s"
  by (cases "CHR 0x22 # s" rule: fold_simple.cases) (auto simp: ascii_lower_def)

text \<open>
  C35: the interactive client sends exactly the arguments that were quoted: for UTF-8 arguments
  in double quotes, with \<open>"\<close> and \<open>\\<close> escaped and blanks between them, the loop writes the request of
  these arguments, and the server parses it as their command.
\<close>
theorem quoted_line_reaches_server:
  assumes "parts_ok args" and "list_all utf8 args" and "wr (written ses) = None"
    and "read_reply max_len fin (incoming ses) = Inr (rep, replies)" and "\<not> is_subscribe args"
  shows "interactive_loop wr max_len fin err [join_space (map quote_arg args)] ses =
      (ses\<lparr>shown := shown ses @ ''llavero> '' @ print_reply [] rep @ ''llavero> '' @ lf,
           sent := sent ses @ write_command args, incoming := replies,
           written := Suc (written ses)\<rparr>, err) \<and>
    resp_parse uc EOF (write_command args) = Inr (command_of_parts uc args, [])"
proof -
  let ?line = "join_space (map quote_arg args)"
  have "args \<noteq> []" using assms(1) by (simp add: parts_ok_def)
  then obtain s where s: "?line = CHR 0x22 # s @ dquote" using join_quoted_shape by blast
  have "trim_space ?line = ?line" unfolding s by (rule trim_space_quoted)
  moreover have "\<not> equal_fold ?line ''exit''" "\<not> equal_fold ?line ''quit''"
    unfolding s by (simp_all add: equal_fold_def fold_simple_dquote ascii_lower_def)
  moreover have "?line \<noteq> []" using s by simp
  ultimately have "interactive_loop wr max_len fin err [?line] ses =
      (ses\<lparr>shown := shown ses @ ''llavero> '' @ print_reply [] rep @ ''llavero> '' @ lf,
           sent := sent ses @ write_command args, incoming := replies,
           written := Suc (written ses)\<rparr>, err)"
    using split_line_quoted [OF assms(2)] assms(3-5) \<open>args \<noteq> []\<close>
    by (simp add: exchange_def send_command_def read_and_print_def Let_def)
  then show ?thesis
    using resp_parse_request [OF assms(1), of uc EOF "[]"] write_command_wire [OF \<open>args \<noteq> []\<close>] by simp
qed

lemma sample_read_ok:
  "read_reply 1000 EOF (resp_encode (StatusReply ''OK'')) = Inr (CliReply KStatus ''OK'' [] False, [])"
  using cli.roundtrip_end [of 1000 "StatusReply ''OK''"] by simp

lemma utf8_ascii: "\<forall>c \<in> set s. byte_val c < (128 :: nat) \<Longrightarrow> utf8 s"
proof (induction s)
  case (Cons c s)
  then show ?case using runes_Cons [of "[c]" s] is_rune_ascii [of c] by (simp add: utf8_def)
qed (simp add: utf8_def)

definition sample_session :: session where
  "sample_session =
     \<lparr>sent = [], shown = [], incoming = resp_encode (StatusReply ''OK''), written = 0\<rparr>"

theorem quoted_line_reaches_server_witness:
  "sent (fst (interactive_loop (\<lambda>_. None) 1000 EOF None
     [join_space (map quote_arg [''set'', ''k'', ''it \"is\"''])] sample_session)) =
   write_command [''set'', ''k'', ''it \"is\"'']"
proof -
  have "list_all utf8 [''set'', ''k'', ''it \"is\"'']" by (simp add: utf8_ascii)
  moreover have "parts_ok [''set'', ''k'', ''it \"is\"'']" by (simp add: parts_ok_def bulk_ok_def)
  moreover have "\<not> is_subscribe [''set'', ''k'', ''it \"is\"'']"
    by (simp add: is_subscribe_def equal_fold_def ascii_lower_def)
  moreover have "read_reply 1000 EOF (incoming sample_session) = Inr (CliReply KStatus ''OK'' [] False, [])"
    using sample_read_ok by (simp add: sample_session_def)
  ultimately show ?thesis
    using quoted_line_reaches_server [of "[''set'', ''k'', ''it \"is\"'']" "\<lambda>_. None" sample_session 1000
        EOF "CliReply KStatus ''OK'' [] False" "[]" None "\<lambda>b. b"]
    by (simp add: sample_session_def)
qed

subsection \<open>Replies\<close>

text \<open>
  C13: the client reads what the server writes: a reply in which no status or error line contains a
  line end (\<open>replies_stay_framed\<close>: all but one error of the server), within the client's limits of
  size and depth (\<open>cli_ok\<close>), comes back with its kind, text, items and nullness, whatever follows it;
  when the connection ends before the reply does, the client reports the end of the stream.
\<close>
theorem client_reads_replies:
  assumes "cli_ok 513 max_len r" and "max_len \<le> max_int64"
  shows "read_reply max_len EOF (resp_encode r @ rest) = Inr (cli_view r, rest) \<and>
    (\<forall>p. strict_prefix p (resp_encode r) \<longrightarrow>
       (\<exists>e. read_reply max_len EOF p = Inl e \<and> cli_eof e))"
proof -
  have "cli_ok (Suc max_array_depth) max_len r \<and> max_len \<le> max_int64" using assms by simp
  from cli.roundtrip [OF this] cli.truncated [OF this] show ?thesis by blast
qed

theorem client_reads_replies_witness:
  "read_reply 1000 EOF (resp_encode (ArrayReply [IntReply 7, BulkReply ''a'' False, BulkReply [] True] False)) =
     Inr (CliReply KArray [] [CliReply KInt ''7'' [] False, CliReply KBulk ''a'' [] False,
            CliReply KBulk [] [] True] False, [])"
  using client_reads_replies [of 1000
      "ArrayReply [IntReply 7, BulkReply ''a'' False, BulkReply [] True] False" "[]"]
  by (simp add: bulk_ok_def format_int_def dec_digits.simps)

text \<open>
  C36: a subscriber sees every message: after SUBSCRIBE the client prints the replies of the server
  in order, each as \<open>printReply\<close> prints it, and ends without an error when the server closes the
  connection between two of them.
\<close>
theorem subscriber_prints_all:
  assumes "list_all (cli_ok 513 max_len) rs" and "max_len \<le> max_int64"
    and "incoming ses = concat (map resp_encode rs)"
  shows "read_all max_len EOF ses =
    (ses\<lparr>incoming := [], shown := shown ses @ concat (map (\<lambda>r. print_reply [] (cli_view r)) rs)\<rparr>, None)"
  using assms(1,3)
proof (induction rs arbitrary: ses)
  case Nil
  have "read_reply max_len EOF [] = Inl (CliIo EOF)"
    unfolding read_reply_def cli_read.simps(2) cli_line_def by simp
  then show ?case using Nil by (subst read_all.simps) (simp add: read_and_print_def)
next
  case (Cons r rs)
  let ?ses = "ses\<lparr>incoming := concat (map resp_encode rs), shown := shown ses @ print_reply [] (cli_view r)\<rparr>"
  have "cli_ok (Suc max_array_depth) max_len r \<and> max_len \<le> max_int64" using Cons.prems assms(2) by simp
  from cli.roundtrip [OF this] have "read_and_print max_len EOF ses = (?ses, None)"
    using Cons.prems(2) by (simp add: read_and_print_def)
  then show ?case using Cons.IH [of ?ses] Cons.prems(1) by (subst read_all.simps) simp
qed

theorem subscriber_prints_all_witness:
  "shown (fst (read_all 1000 EOF (sample_session\<lparr>incoming :=
      concat (map resp_encode [message_reply ''news'' ''hello'', message_reply ''news'' ''bye''])\<rparr>))) =
   ''1) message'' @ lf @ ''2) news'' @ lf @ ''3) hello'' @ lf @
   ''1) message'' @ lf @ ''2) news'' @ lf @ ''3) bye'' @ lf"
  using subscriber_prints_all [of 1000 "[message_reply ''news'' ''hello'', message_reply ''news'' ''bye'']"]
  by (simp add: bulk_ok_def message_reply_def sample_session_def format_int_def dec_digits.simps)

subsection \<open>The server keeps its replies in their frames\<close>

lemma safe_hello_loop: "hello_loop pw args c b = (c', Inl r) \<Longrightarrow> reply_safe r"
proof (induction pw args c b rule: hello_loop.induct)
  case (2 pw arg rest c b)
  show ?case
  proof (cases "equal_fold arg ''AUTH'' \<and> pw \<noteq> []")
    case True
    then show ?thesis
      using 2 by (cases rest; cases "tl rest") (auto split: if_splits)
  next
    case False
    then show ?thesis using 2 by (auto split: if_splits)
  qed
qed simp

lemma safe_hello: "reply_safe (snd (cmd_hello_result c args sv))"
proof (cases "hello_loop (opt_auth_password (sopts sv)) (tl args) c False")
  case (Pair c' x)
  have "reply_safe hello_reply" by (simp add: hello_reply_def)
  then show ?thesis
    using Pair safe_hello_loop [of "opt_auth_password (sopts sv)" "tl args" c False c']
    by (cases x; cases "opt_auth_password (sopts sv) = []")
       (auto simp: cmd_hello_result_def cmd_hello_def Let_def)
qed

lemma safe_auth: "reply_safe (snd (snd (cmd_auth_result e c args sv)))"
  by (simp add: cmd_auth_eqs Let_def case_prod_unfold)

lemma safe_quit: "reply_safe (snd (cmd_quit c args))"
  by (simp add: cmd_quit_def)

lemma safe_slow_log: "reply_safe (snd (cmd_slow_log_result e args sv))"
  by (auto simp: cmd_slow_log_eqs slow_log_reply_def slow_entry_reply_def list_all_iff Let_def
      split: option.split)

lemma safe_compat:
  "reply_safe (the (cmd_client e args))" "reply_safe (the (cmd_echo args))"
  "reply_safe (the (cmd_select args))" "reply_safe (cmd_health args)"
  "reply_safe (cmd_info e args sv)" "reply_safe (cmd_stats e args sv)"
  "reply_safe (snd (cmd_publish_result e args sv))"
  by (simp_all add: cmd_client_def cmd_echo_def cmd_health_def cmd_info_def cmd_select_def
      cmd_stats_def cmd_publish_eqs Let_def case_prod_unfold)

lemma safe_command: "reply_safe (the (cmd_command e args))"
  by (auto simp: cmd_command_def Suc_le_eq command_info_def command_flags_def list_all_iff Let_def)

lemma safe_subscribe_loop: "subscribe_loop chs c sv = (sv', c', Some r) \<Longrightarrow> reply_safe r"
  by (induction chs c sv rule: subscribe_loop.induct) (auto simp: Let_def split: if_splits)

lemma safe_subscribe: "cmd_subscribe c args sv = (sv', c', Some r) \<Longrightarrow> reply_safe r"
  using safe_subscribe_loop by (auto simp: cmd_subscribe_def split: if_splits)

lemma no_reply_unsubscribe: "cmd_unsubscribe ord c args sv = (sv', c', r) \<Longrightarrow> r = None"
  by (auto simp: cmd_unsubscribe_def Let_def split: if_splits prod.splits)

abbreviation unknown_reply :: "command \<Rightarrow> reply" where
  "unknown_reply cmd \<equiv> ErrorReply (''ERR comando desconocido: '' @ cmd_name cmd)"

lemma safe_dispatch:
  assumes "wf_store s" and "to_upper (upper env) (cmd_name cmd) \<noteq> ''SAVE''"
  shows "reply_safe (snd (snd (dispatch_result save env cmd s x))) \<or>
    snd (snd (dispatch_result save env cmd s x)) = unknown_reply cmd"
proof (cases rule: dispatch_cases [of save env cmd s x])
  case (handler h)
  then show ?thesis using store_cmd.safe_reply [OF handler_store_cmd assms(1)] by auto
qed (use assms(2) in simp_all)

text \<open>The errors of the append-only file that the operating system reports are single lines.\<close>

definition faults_are_lines :: "senv \<Rightarrow> bool" where
  "faults_are_lines e \<longleftrightarrow>
     (case append_write e of Some (_, err) \<Rightarrow> line_ok err | None \<Rightarrow> True) \<and>
     (case append_sync e of Some err \<Rightarrow> line_ok err | None \<Rightarrow> True)"

lemma aof_append_line:
  assumes "faults_are_lines e"
    and "aof_append uc lc since now (append_write e) (append_sync e) a = (a', Some err)"
  shows "line_ok err"
proof -
  have "(\<exists>n. append_write e = Some (n, err)) \<or> append_sync e = Some err"
    using assms(2)
    by (auto simp: aof_append_def file_write_def file_sync_def Let_def
        split: option.splits prod.splits fsync_policy.splits if_splits)
  then show ?thesis using assms(1) by (auto simp: faults_are_lines_def)
qed

definition framed :: "command \<Rightarrow> reply \<Rightarrow> bool" where
  "framed cmd r \<longleftrightarrow> reply_safe r \<or> r = unknown_reply cmd \<and> \<not> line_ok (cmd_name cmd)"

lemma framed_safe: "reply_safe r \<Longrightarrow> framed cmd r"
  by (simp add: framed_def)

lemma framed_server_dispatch:
  assumes "wf_store (sstore sv)" and "to_upper (upper (cmd_env e)) (cmd_name cmd) \<noteq> ''SAVE''"
  shows "framed cmd (snd (server_dispatch_result e cmd sv))"
proof -
  have "reply_safe (unknown_reply cmd) \<or> \<not> line_ok (cmd_name cmd)" by simp
  then show ?thesis
    using safe_dispatch [OF assms, of "save_func e sv" sv]
    by (auto simp: framed_def server_dispatch_result_def case_prod_unfold Let_def)
qed

lemma framed_locked:
  assumes "wf_store (sstore sv)" and "to_upper (upper (cmd_env e)) (cmd_name cmd) \<noteq> ''SAVE''"
    and "faults_are_lines e"
  shows "framed cmd (snd (locked_result e cmd lc sv))"
proof -
  obtain sv1 r where d: "server_dispatch_result e cmd sv = (sv1, r)" by force
  then have r: "framed cmd r" using framed_server_dispatch [OF assms(1,2)] by simp
  have "framed cmd (ErrorReply (''ERR AOF '' @ err))" if "line_ok err" for err
    using that by (simp add: framed_def)
  then show ?thesis
    using d r aof_append_line [OF assms(3)]
    by (auto simp: locked_result_eq split: option.split prod.split)
qed

lemma framed_dispatch_with_aof:
  assumes "wf_store (sstore sv)" and "to_upper (upper (cmd_env e)) (cmd_name cmd) \<noteq> ''SAVE''"
    and "faults_are_lines e" and "dispatch_with_aof e cmd sv = Some (sv', r)"
  shows "framed cmd r"
proof -
  have oom: "framed cmd oom_reply" by (simp add: framed_def oom_reply_def)
  have "framed cmd (snd (locked_result e cmd lc (sv\<lparr>sstore :=
      fst (memory_limit_exceeded_result uc clk m lc (sstore sv))\<rparr>)))" for uc clk m lc
    by (rule framed_locked) (use assms wf_store_memory_limit [OF assms(1)] in simp_all)
  then show ?thesis
    using assms(4) oom framed_server_dispatch [OF assms(1,2)] framed_locked [OF assms(1-3)]
    by (auto simp: dispatch_with_aof_eq case_prod_unfold Let_def split: option.splits if_splits)
       (metis snd_conv)+
qed

text \<open>
  C37: every reply of the server keeps to its frame: no status and no error line contains a line
  end, except that of an unknown command whose name contains one. (The texts of a failing SAVE
  come from the operating system.)
\<close>
theorem replies_stay_framed:
  assumes "wf_store (sstore sv)" and "faults_are_lines e"
    and "to_upper (upper (cmd_env e)) (cmd_name cmd) \<noteq> ''SAVE''"
    and "handle_command e c cmd sv = Some (sv', c', Some r)"
  shows "reply_safe r \<or>
    r = ErrorReply (''ERR comando desconocido: '' @ cmd_name cmd) \<and> \<not> line_ok (cmd_name cmd)"
proof -
  have "framed cmd r"
    using assms(4) unfolding handle_command_eq Let_def case_prod_unfold
    by (elim if_eqE)
       (auto intro: framed_safe safe_auth safe_hello safe_quit safe_slow_log safe_compat safe_command
          framed_dispatch_with_aof [OF assms(1,3,2)]
          dest: safe_subscribe no_reply_unsubscribe split: option.splits)
  then show ?thesis by (simp add: framed_def)
qed


definition injected :: command where
  "injected = \<lparr>cmd_name = ''X'' @ crlf @ ''+OK'', cmd_args = []\<rparr>"

lemma injected_reply:
  "handle_command (sample_senv 0) (new_client 1 ''a'') injected (sample_server sample_options sample) =
     Some (sample_server sample_options sample, new_client 1 ''a'', Some (unknown_reply injected))"
proof -
  have up: "to_upper (\<lambda>b. b) (cmd_name injected) = cmd_name injected"
    by (simp add: injected_def to_upper_def is_ascii_def ascii_upper_def)
  have "aof_command (\<lambda>b. b) 0 injected = Some (empty_command, False)"
    unfolding aof_command_eqs Let_def up by (simp add: injected_def)
  moreover have "dispatch_result None (sample_env 0) injected sample sv = (sample, sv, unknown_reply injected)" for sv :: server
    unfolding dispatch_result_eq Let_def sample_env_simps up by (simp add: injected_def handlers_def)
  ultimately have "dispatch_with_aof (sample_senv 0) injected (sample_server sample_options sample) =
      Some (sample_server sample_options sample, unknown_reply injected)"
    by (simp add: dispatch_with_aof_eq server_dispatch_result_def save_func_def sample_options_def)
  moreover have "\<not> auth_required (new_client 1 ''a'') (sample_server sample_options sample)"
    by (simp add: auth_required_def sample_options_def)
  ultimately show ?thesis
    unfolding handle_command_eq Let_def sample_senv_simps sample_env_simps up by (simp add: injected_def)
qed

theorem replies_stay_framed_witness:
  "\<exists>sv' c' r. handle_command (sample_senv 0) (new_client 1 ''a'') injected
       (sample_server sample_options sample) = Some (sv', c', Some r) \<and>
     (reply_safe r \<or> \<not> line_ok (cmd_name injected))"
proof -
  have "faults_are_lines (sample_senv 0)" by (simp add: faults_are_lines_def)
  moreover have "to_upper (upper (cmd_env (sample_senv 0))) (cmd_name injected) \<noteq> ''SAVE''"
    by (simp add: injected_def to_upper_def is_ascii_def ascii_upper_def)
  ultimately have "reply_safe (unknown_reply injected) \<or> \<not> line_ok (cmd_name injected)"
    using replies_stay_framed [OF _ _ _ injected_reply] by fastforce
  then show ?thesis using injected_reply by blast
qed

text \<open>
  The exception is real: the client reads the reply to such a command as an error, and what was in
  the name of the command as a status of its own.
\<close>

theorem unknown_name_injects:
  "read_reply 1000 EOF (resp_encode (unknown_reply injected)) =
     Inr (CliReply KError ''ERR comando desconocido: X'' [] False, resp_encode (StatusReply ''OK''))"
proof -
  have "resp_encode (unknown_reply injected) =
      resp_encode (ErrorReply ''ERR comando desconocido: X'') @ resp_encode (StatusReply ''OK'')"
    by (simp add: injected_def)
  moreover have "cli_ok (Suc max_array_depth) 1000 (ErrorReply ''ERR comando desconocido: X'') \<and>
      1000 \<le> max_int64" by simp
  ultimately show ?thesis
    using cli.roundtrip [of 1000 "ErrorReply ''ERR comando desconocido: X''"] by simp
qed

end
