(* ===== verification/Diagnostics.thy ===== *)
theory Diagnostics
  imports Config
begin

section \<open>Process diagnostics\<close>

text \<open>
  Models \<open>internal/diagnostics/pprof.go\<close>: \<open>StartPprofFromEnv\<close> and \<open>requireLoopback\<close>,
  with the parts of \<open>net\<close> they use: \<open>SplitHostPort\<close>, \<open>ParseIP\<close> and \<open>IsLoopback\<close>. An IP
  is its 16 bytes, as numbers. The HTTP server behind the listener is not modelled: its address
  is the result. \<open>listen\<close> answers for \<open>net.Listen\<close>.
\<close>

subsection \<open>\<open>net\<close>\<close>

text \<open>\<open>strings.Split(s, sep)\<close> for a separator of one byte: one part more than separators.\<close>

fun split_on :: "char \<Rightarrow> bytes \<Rightarrow> bytes list" where
  "split_on sep [] = [[]]"
| "split_on sep (c # cs) =
     (if c = sep then [] # split_on sep cs
      else case split_on sep cs of [] \<Rightarrow> [[c]] | part # parts \<Rightarrow> (c # part) # parts)"

text \<open>
  \<open>SplitHostPort\<close>, its host only: what is before the last colon. A host in brackets must end
  right before that colon, another one has no colon; no other bracket is allowed.
\<close>

definition split_host :: "bytes \<Rightarrow> bytes option" where
  "split_host hp =
     (let port = takeWhile (\<lambda>c. c \<noteq> CHR '':'') (rev hp);
          before = take (length hp - length port - 1) hp
      in if CHR '':'' \<notin> set hp then None
         else if hd hp = CHR ''['' then
           (if CHR '']'' \<notin> set hp then None
            else let host = tl (takeWhile (\<lambda>c. c \<noteq> CHR '']'') hp)
                 in if Suc (Suc (length host)) \<noteq> length before then None
                    else if CHR ''['' \<in> set (tl hp) \<or> CHR '']'' \<in> set port then None
                    else Some host)
         else if CHR '':'' \<in> set before then None
         else if CHR ''['' \<in> set hp \<or> CHR '']'' \<in> set hp then None
         else Some before)"

definition octet :: "bytes \<Rightarrow> nat option" where
  "octet s =
     (if s = [] \<or> (length s > 1 \<and> hd s = CHR ''0'') then None
      else case digits_value 0 s of
             None \<Rightarrow> None
           | Some n \<Rightarrow> if n > 255 then None else Some (nat n))"

definition parse_ipv4 :: "bytes \<Rightarrow> nat list option" where
  "parse_ipv4 s =
     (case map octet (split_on CHR ''.'' s) of
        [Some a, Some b, Some c, Some d] \<Rightarrow> Some [a, b, c, d]
      | _ \<Rightarrow> None)"

definition hex_value :: "char \<Rightarrow> nat option" where
  "hex_value c =
     (let n = byte_val c
      in if 48 \<le> n \<and> n \<le> 57 then Some (n - 48)
         else if 97 \<le> n \<and> n \<le> 102 then Some (n - 87)
         else if 65 \<le> n \<and> n \<le> 70 then Some (n - 55) else None)"

abbreviation is_hex :: "char \<Rightarrow> bool" where
  "is_hex c \<equiv> hex_value c \<noteq> None"

definition hex_number :: "bytes \<Rightarrow> nat" where
  "hex_number s = foldl (\<lambda>acc c. acc * 16 + the (hex_value c)) 0 s"

text \<open>
  The loop of \<open>parseIPv6\<close>: \<open>ip\<close> are the bytes so far, \<open>ell\<close> where the two colons stood.
  The result has the rest of the string.
\<close>

fun ipv6_loop :: "nat \<Rightarrow> nat list \<Rightarrow> nat option \<Rightarrow> bytes \<Rightarrow> (nat list \<times> nat option \<times> bytes) option" where
  "ipv6_loop 0 ip ell s = Some (ip, ell, s)"
| "ipv6_loop (Suc n) ip ell s =
     (let group = takeWhile is_hex s; rest = dropWhile is_hex s
      in if length group > 4 \<or> group = [] then None
         else if rest \<noteq> [] \<and> hd rest = CHR ''.'' then
           (if ell = None \<and> length ip \<noteq> 12 \<or> length ip + 4 > 16 then None
            else case parse_ipv4 s of None \<Rightarrow> None | Some quad \<Rightarrow> Some (ip @ quad, ell, []))
         else
           let ip = ip @ [hex_number group div 256, hex_number group mod 256]
           in case rest of
                [] \<Rightarrow> Some (ip, ell, [])
              | c # s \<Rightarrow>
                  if c \<noteq> CHR '':'' \<or> s = [] then None
                  else if hd s = CHR '':'' then
                    (if ell \<noteq> None then None
                     else if tl s = [] then Some (ip, Some (length ip), [])
                     else ipv6_loop n ip (Some (length ip)) (tl s))
                  else ipv6_loop n ip ell s)"

definition parse_ipv6 :: "bytes \<Rightarrow> nat list option" where
  "parse_ipv6 s =
     (let lead = (take 2 s = ''::'')
      in if s = ''::'' then Some (replicate 16 0)
         else case ipv6_loop 8 [] (if lead then Some 0 else None) (if lead then drop 2 s else s) of
                None \<Rightarrow> None
              | Some (ip, ell, rest) \<Rightarrow>
                  if rest \<noteq> [] then None
                  else if length ip < 16 then
                    (case ell of
                       None \<Rightarrow> None
                     | Some e \<Rightarrow> Some (take e ip @ replicate (16 - length ip) 0 @ drop e ip))
                  else if ell \<noteq> None then None else Some ip)"

text \<open>\<open>ParseIP\<close>: the first of \<open>.\<close> and \<open>:\<close> decides; a zone, after \<open>%\<close>, is not accepted.\<close>

definition v4_in_v6 :: "nat list \<Rightarrow> nat list" where
  "v4_in_v6 ip = replicate 10 0 @ [255, 255] @ ip"

definition parse_ip :: "bytes \<Rightarrow> nat list option" where
  "parse_ip s =
     (if CHR ''%'' \<in> set s then None
      else case dropWhile (\<lambda>c. c \<noteq> CHR ''.'' \<and> c \<noteq> CHR '':'') s of
             [] \<Rightarrow> None
           | c # _ \<Rightarrow> if c = CHR ''.'' then map_option v4_in_v6 (parse_ipv4 s) else parse_ipv6 s)"

definition is_loopback :: "nat list \<Rightarrow> bool" where
  "is_loopback ip =
     (if take 12 ip = replicate 10 0 @ [255, 255] then ip ! 12 = 127
      else ip = replicate 15 0 @ [1])"

subsection \<open>The private listener\<close>

datatype pprof_err = NotLoopback bytes | InvalidListen bytes | ListenFails bytes

definition require_loopback :: "bytes \<Rightarrow> pprof_err option" where
  "require_loopback addr =
     (case split_host addr of
        None \<Rightarrow> Some (InvalidListen addr)
      | Some host \<Rightarrow>
          if equal_fold host ''localhost'' then None
          else case parse_ip host of
                 None \<Rightarrow> Some (NotLoopback addr)
               | Some ip \<Rightarrow> if is_loopback ip then None else Some (NotLoopback addr))"

text \<open>\<open>Inr None\<close>: no listener; \<open>Inr (Some addr)\<close>: one at \<open>addr\<close>. \<open>os.Getenv\<close> gives the
  empty text for a variable that is not set.\<close>

definition start_pprof_from_env ::
  "(bytes \<Rightarrow> bytes option) \<Rightarrow> (bytes \<Rightarrow> bytes option) \<Rightarrow> bytes \<Rightarrow> bytes \<Rightarrow> pprof_err + bytes option" where
  "start_pprof_from_env getenv listen addr_env allow_env =
     (let text = (\<lambda>name. case getenv name of None \<Rightarrow> [] | Some v \<Rightarrow> trim_space v);
          addr = text addr_env
      in if addr = [] then Inr None
         else case (if equal_fold (text allow_env) ''true'' then None else require_loopback addr) of
                Some e \<Rightarrow> Inl e
              | None \<Rightarrow> (case listen addr of Some e \<Rightarrow> Inl (ListenFails e) | None \<Rightarrow> Inr (Some addr)))"

lemmas net_eval [go_eval] =
  split_host_def octet_def parse_ipv4_def hex_value_def hex_number_def parse_ipv6_def v4_in_v6_def
  parse_ip_def is_loopback_def require_loopback_def

end
