(* ===== verification/Server_Main.thy ===== *)
theory Server_Main
  imports Go_Flags Diagnostics
begin

section \<open>The server binary\<close>

text \<open>
  Models \<open>cmd/llavero/main.go\<close> up to the start of the accept loop: the flags, the order in
  which defaults, file, environment and flags are combined (\<open>main_config\<close>), the checks on paths
  and the creation of the server (\<open>server_main\<close>). A call of \<open>log.Fatalf\<close> is a value of
  \<open>main_stop\<close>. What the operating system answers is in \<open>main_env\<close>. The handler of signals is
  the sequence of \<open>Save\<close> and \<open>Close\<close> of the server (\<open>on_signal\<close>).

  The lemmas say where every setting comes from, and which paths \<open>validatePath\<close> accepts.
\<close>

subsection \<open>Flags\<close>

record main_flags =
  mf_config_path :: bytes
  mf_config :: config

definition config_flag :: "((config \<Rightarrow> config) \<Rightarrow> main_flags \<Rightarrow> main_flags)" where
  "config_flag f m = m\<lparr>mf_config := f (mf_config m)\<rparr>"

definition server_flags :: "(bytes \<Rightarrow> duration option) \<Rightarrow> (bytes \<times> main_flags flag_spec) list" where
  "server_flags pd =
     [(''config'', text_flag (\<lambda>v m. m\<lparr>mf_config_path := v\<rparr>)),
      (''addr'', text_flag (\<lambda>v. config_flag (\<lambda>c. c\<lparr>cfg_addr := v\<rparr>))),
      (''snapshot'', text_flag (\<lambda>v. config_flag (\<lambda>c. c\<lparr>cfg_snapshot_path := v\<rparr>))),
      (''save-interval'', duration_flag pd (\<lambda>d. config_flag (\<lambda>c. c\<lparr>cfg_save_interval := d\<rparr>))),
      (''aof'', text_flag (\<lambda>v. config_flag (\<lambda>c. c\<lparr>cfg_aof_path := v\<rparr>))),
      (''aof-fsync'', text_flag (\<lambda>v. config_flag (\<lambda>c. c\<lparr>cfg_aof_sync := v\<rparr>))),
      (''requirepass'', text_flag (\<lambda>v. config_flag (\<lambda>c. c\<lparr>cfg_auth_password := v\<rparr>))),
      (''tls-cert'', text_flag (\<lambda>v. config_flag (\<lambda>c. c\<lparr>cfg_tls_cert_path := v\<rparr>))),
      (''tls-key'', text_flag (\<lambda>v. config_flag (\<lambda>c. c\<lparr>cfg_tls_key_path := v\<rparr>))),
      (''max-connections'', int_flag (\<lambda>n. config_flag (\<lambda>c. c\<lparr>cfg_max_connections := n\<rparr>))),
      (''read-timeout'', duration_flag pd (\<lambda>d. config_flag (\<lambda>c. c\<lparr>cfg_read_timeout := d\<rparr>))),
      (''write-timeout'', duration_flag pd (\<lambda>d. config_flag (\<lambda>c. c\<lparr>cfg_write_timeout := d\<rparr>))),
      (''max-memory'', int_flag (\<lambda>n. config_flag (\<lambda>c. c\<lparr>cfg_max_memory_bytes := n\<rparr>))),
      (''command-log'', text_flag (\<lambda>v. config_flag (\<lambda>c. c\<lparr>cfg_command_log := v\<rparr>))),
      (''slowlog-threshold'',
         duration_flag pd (\<lambda>d. config_flag (\<lambda>c. c\<lparr>cfg_slow_log_threshold := d\<rparr>))),
      (''slowlog-max-len'', int_flag (\<lambda>n. config_flag (\<lambda>c. c\<lparr>cfg_slow_log_max_len := n\<rparr>))),
      (''shutdown-timeout'',
         duration_flag pd (\<lambda>d. config_flag (\<lambda>c. c\<lparr>cfg_shutdown_timeout := d\<rparr>)))]"

text \<open>\<open>mergeVisitedFlags\<close>: its four helpers are one, over the type of the setting.\<close>

definition if_visited :: "bytes list \<Rightarrow> bytes \<Rightarrow> 'a \<Rightarrow> 'a \<Rightarrow> 'a" where
  "if_visited visited name val old = (if name \<in> set visited then val else old)"

definition merge_visited_flags :: "config \<Rightarrow> config \<Rightarrow> bytes list \<Rightarrow> config" where
  "merge_visited_flags base flags visited =
     (let pick = (\<lambda>name sel. if_visited visited name (sel flags) (sel base));
          pick_int = (\<lambda>name sel. if_visited visited name (sel flags) (sel base))
      in \<lparr>cfg_addr = pick ''addr'' cfg_addr,
          cfg_snapshot_path = pick ''snapshot'' cfg_snapshot_path,
          cfg_save_interval = pick_int ''save-interval'' cfg_save_interval,
          cfg_aof_path = pick ''aof'' cfg_aof_path,
          cfg_aof_sync = pick ''aof-fsync'' cfg_aof_sync,
          cfg_auth_password = pick ''requirepass'' cfg_auth_password,
          cfg_tls_cert_path = pick ''tls-cert'' cfg_tls_cert_path,
          cfg_tls_key_path = pick ''tls-key'' cfg_tls_key_path,
          cfg_max_connections = pick_int ''max-connections'' cfg_max_connections,
          cfg_read_timeout = pick_int ''read-timeout'' cfg_read_timeout,
          cfg_write_timeout = pick_int ''write-timeout'' cfg_write_timeout,
          cfg_max_memory_bytes = pick_int ''max-memory'' cfg_max_memory_bytes,
          cfg_command_log = pick ''command-log'' cfg_command_log,
          cfg_slow_log_threshold = pick_int ''slowlog-threshold'' cfg_slow_log_threshold,
          cfg_slow_log_max_len = pick_int ''slowlog-max-len'' cfg_slow_log_max_len,
          cfg_shutdown_timeout = pick_int ''shutdown-timeout'' cfg_shutdown_timeout\<rparr>)"

subsection \<open>Paths\<close>

text \<open>
  \<open>filepath.Clean\<close>: empty components and \<open>.\<close> are dropped and \<open>..\<close> takes the component
  before it away; at the root it is dropped too. \<open>stack\<close> is the result so far, last one first.
\<close>

fun clean_parts :: "bool \<Rightarrow> bytes list \<Rightarrow> bytes list \<Rightarrow> bytes list" where
  "clean_parts rooted stack [] = rev stack"
| "clean_parts rooted stack (part # parts) =
     (if part = [] \<or> part = ''.'' then clean_parts rooted stack parts
      else if part = ''..'' then
        (case stack of
           [] \<Rightarrow> clean_parts rooted (if rooted then [] else [''..'']) parts
         | recent # below \<Rightarrow>
             if recent = ''..'' then clean_parts rooted (''..'' # stack) parts
             else clean_parts rooted below parts)
      else clean_parts rooted (part # stack) parts)"

fun join_slash :: "bytes list \<Rightarrow> bytes" where
  "join_slash [] = []"
| "join_slash [part] = part"
| "join_slash (part # parts) = part @ ''/'' @ join_slash parts"

definition clean_path :: "bytes \<Rightarrow> bytes" where
  "clean_path path =
     (let rooted = (path \<noteq> [] \<and> hd path = CHR ''/'');
          out = (if rooted then ''/'' else []) @ join_slash (clean_parts rooted [] (split_on CHR ''/'' path))
      in if out = [] then ''.'' else out)"

definition validate_path :: "bytes \<Rightarrow> bool" where
  "validate_path path \<longleftrightarrow> path = [] \<or> ''..'' \<notin> set (split_on CHR ''/'' (clean_path path))"

subsection \<open>The program\<close>

record main_env =
  getenv :: "bytes \<Rightarrow> bytes option"
  env_order :: "bytes list \<Rightarrow> bytes list"
  open_config :: "bytes \<Rightarrow> bytes + bytes \<times> bytes option"
  duration_of :: "bytes \<Rightarrow> duration option"
  lower_of :: "bytes \<Rightarrow> bytes"
  pprof_listen :: "bytes \<Rightarrow> bytes option"
  server_start :: start_env
  key_pair :: "bytes option"
  bind_addr :: "bytes \<Rightarrow> bytes option"

datatype main_stop =
    UsageStop flag_err
  | ConfigStop config_err
  | EnvStop config_err
  | PprofStop pprof_err
  | PathStop bytes
  | CreateStop start_err
  | ListenStop bytes

text \<open>From the arguments to the configuration; the flags start with the defaults.\<close>

definition main_config :: "main_env \<Rightarrow> bytes list \<Rightarrow> main_stop + config" where
  "main_config me args =
     (case parse_flags (server_flags (duration_of me)) args
             \<lparr>mf_config_path = [], mf_config = default_config\<rparr> [] of
        Inl e \<Rightarrow> Inl (UsageStop e)
      | Inr (flags, visited, _) \<Rightarrow>
          (case apply_file (lower_of me) (duration_of me) (mf_config_path flags)
                  (open_config me (mf_config_path flags)) default_config of
             (_, Some e) \<Rightarrow> Inl (ConfigStop e)
           | (cfg, None) \<Rightarrow>
               (case apply_env (env_order me) (lower_of me) (duration_of me) (getenv me) cfg of
                  (_, Some e) \<Rightarrow> Inl (EnvStop e)
                | (cfg, None) \<Rightarrow>
                    let cfg = merge_visited_flags cfg (mf_config flags) visited
                    in Inr (if cfg_aof_path cfg \<noteq> [] \<and> ''snapshot'' \<notin> set visited
                            then cfg\<lparr>cfg_snapshot_path := []\<rparr> else cfg))))"

text \<open>\<open>Listen\<close> of \<open>server.go\<close>: \<open>key_pair\<close> answers for \<open>tls.LoadX509KeyPair\<close>,
  \<open>bind_addr\<close> for the listener.\<close>

definition server_listen :: "main_env \<Rightarrow> server \<Rightarrow> bytes option" where
  "server_listen me sv =
     (let cert = opt_tls_cert_path (sopts sv); key = opt_tls_key_path (sopts sv)
      in if (cert = []) \<noteq> (key = []) then Some ''TLS requires both cert and key''
         else if cert \<noteq> [] then
           (case key_pair me of Some e \<Rightarrow> Some e | None \<Rightarrow> bind_addr me (opt_addr (sopts sv)))
         else bind_addr me (opt_addr (sopts sv)))"

text \<open>The running server and the address of the diagnostics, if they are on.\<close>

definition server_main :: "main_env \<Rightarrow> bytes list \<Rightarrow> main_stop + config \<times> server \<times> bytes option" where
  "server_main me args =
     (case main_config me args of
        Inl e \<Rightarrow> Inl e
      | Inr cfg \<Rightarrow>
          (case start_pprof_from_env (getenv me) (pprof_listen me) ''LLAVERO_PPROF_LISTEN''
                  ''LLAVERO_PPROF_ALLOW_NON_LOOPBACK'' of
             Inl e \<Rightarrow> Inl (PprofStop e)
           | Inr pprof \<Rightarrow>
               if \<not> validate_path (cfg_snapshot_path cfg) then Inl (PathStop ''snapshot'')
               else if \<not> validate_path (cfg_aof_path cfg) then Inl (PathStop ''aof'')
               else case new_with_options (server_start me) (server_options cfg) of
                      Inl e \<Rightarrow> Inl (CreateStop e)
                    | Inr sv \<Rightarrow>
                        (case server_listen me sv of
                           Some e \<Rightarrow> Inl (ListenStop e)
                         | None \<Rightarrow> Inr (cfg, sv, pprof))))"

subsection \<open>Where a setting comes from\<close>

definition flag_name :: "bytes \<Rightarrow> bytes" where
  "flag_name key = map (\<lambda>c. if c = CHR ''_'' then CHR ''-'' else c) key"

lemma merge_visited_settings:
  "setting (merge_visited_flags base flags visited) k =
     (if flag_name k \<in> set visited then setting flags k else setting base k)"
proof (cases "k \<in> set (keys setting_kinds)")
  case True
  then show ?thesis
    unfolding setting_names
    by (elim insertE emptyE)
       (simp_all add: setting_def settings_def merge_visited_flags_def if_visited_def flag_name_def
          Let_def)
next
  case False
  then show ?thesis by (simp add: setting_known [THEN iffD2])
qed

lemma drop_snapshot_settings:
  "setting (c\<lparr>cfg_snapshot_path := v\<rparr>) = (setting c)(''snapshot'' \<mapsto> Text v)"
proof -
  have "settings (c\<lparr>cfg_snapshot_path := v\<rparr>) = AList.update ''snapshot'' (Text v) (settings c)"
    by (simp add: settings_def)
  then show ?thesis by (simp add: setting_def)
qed

subsection \<open>Which paths are accepted\<close>

text \<open>Whether a path, read from the left, never climbs above where it starts.\<close>

fun stays_below :: "nat \<Rightarrow> bytes list \<Rightarrow> bool" where
  "stays_below depth [] \<longleftrightarrow> True"
| "stays_below depth (part # parts) \<longleftrightarrow>
     (if part = [] \<or> part = ''.'' then stays_below depth parts
      else if part = ''..'' then depth > 0 \<and> stays_below (depth - 1) parts
      else stays_below (Suc depth) parts)"

lemma clean_parts_stuck:
  "stack \<noteq> [] \<Longrightarrow> last stack = ''..'' \<Longrightarrow> ''..'' \<in> set (clean_parts False stack parts)"
proof (induction parts arbitrary: stack)
  case Nil
  then show ?case by (cases stack rule: rev_cases) auto
next
  case (Cons part parts)
  then show ?case by (cases stack) (auto split: if_splits)
qed

lemma clean_parts_relative:
  "''..'' \<notin> set stack \<Longrightarrow>
   ''..'' \<notin> set (clean_parts False stack parts) \<longleftrightarrow> stays_below (length stack) parts"
proof (induction parts arbitrary: stack)
  case (Cons part parts)
  show ?case
  proof (cases "part = ''..'' \<and> stack = []")
    case True
    then show ?thesis using clean_parts_stuck [of "[''..'']" parts] by simp
  next
    case False
    then show ?thesis using Cons.IH Cons.prems by (cases stack) auto
  qed
qed simp

lemma clean_parts_rooted:
  "''..'' \<notin> set stack \<Longrightarrow> ''..'' \<notin> set (clean_parts True stack parts)"
proof (induction parts arbitrary: stack)
  case (Cons part parts)
  then show ?case by (cases stack) auto
qed simp

lemma split_on_nonempty [simp]: "split_on sep s \<noteq> []"
  by (cases s) (auto split: list.split)

lemma split_on_parts: "part \<in> set (split_on sep s) \<Longrightarrow> sep \<notin> set part"
  by (induction sep s arbitrary: part rule: split_on.induct) (auto split: if_splits list.splits)

lemma split_on_part: "sep \<notin> set part \<Longrightarrow> split_on sep part = [part]"
  by (induction part) auto

lemma split_on_append: "sep \<notin> set part \<Longrightarrow> split_on sep (part @ sep # s) = part # split_on sep s"
  by (induction part) auto

lemma split_join:
  assumes "parts \<noteq> []" and "\<forall>part \<in> set parts. CHR ''/'' \<notin> set part"
  shows "split_on CHR ''/'' (join_slash parts) = parts"
  using assms by (induction parts rule: join_slash.induct) (auto simp: split_on_part split_on_append)

lemma clean_parts_mem:
  "x \<in> set (clean_parts rooted stack parts) \<Longrightarrow> x \<in> set stack \<or> x \<in> set parts \<or> x = ''..''"
proof (induction parts arbitrary: rooted stack)
  case (Cons part parts)
  show ?case
    using Cons.prems by (cases stack) (auto split: if_splits dest!: Cons.IH)
qed simp

lemma mem_split_join:
  assumes "\<forall>part \<in> set parts. CHR ''/'' \<notin> set part"
  shows "''..'' \<in> set (split_on CHR ''/'' (join_slash parts)) \<longleftrightarrow> ''..'' \<in> set parts"
  using split_join [OF _ assms] by (cases "parts = []") simp_all

lemma validate_path_iff:
  "validate_path path \<longleftrightarrow>
     path = [] \<or> hd path = CHR ''/'' \<or> stays_below 0 (split_on CHR ''/'' path)"
proof (cases "path = []")
  case False
  let ?root = "hd path = CHR ''/''"
  let ?parts = "clean_parts ?root [] (split_on CHR ''/'' path)"
  have "\<forall>part \<in> set ?parts. CHR ''/'' \<notin> set part"
    using clean_parts_mem [of _ ?root "[]" "split_on CHR ''/'' path"] split_on_parts by fastforce
  note mem = mem_split_join [OF this]
  have split: "''..'' \<in> set (split_on CHR ''/'' (clean_path path)) \<longleftrightarrow> ''..'' \<in> set ?parts"
  proof (cases ?root)
    case True
    then show ?thesis using False mem by (simp add: clean_path_def)
  next
    case rel: False
    show ?thesis
    proof (cases "join_slash ?parts = []")
      case True
      then show ?thesis using False rel mem by (simp add: clean_path_def)
    next
      case False
      then show ?thesis using \<open>path \<noteq> []\<close> rel mem by (simp add: clean_path_def)
    qed
  qed
  have "''..'' \<notin> set ?parts \<longleftrightarrow> ?root \<or> stays_below 0 (split_on CHR ''/'' path)"
    using clean_parts_rooted [of "[]"] clean_parts_relative [of "[]"] by (cases ?root) simp_all
  then show ?thesis using False split by (simp add: validate_path_def)
qed (simp add: validate_path_def)

text \<open>
  The same without the depth: the path climbs at the first \<open>..\<close> that has as many \<open>..\<close> before it
  as names.
\<close>

definition ups :: "bytes list \<Rightarrow> nat" where
  "ups parts = length (filter (\<lambda>part. part = ''..'') parts)"

definition downs :: "bytes list \<Rightarrow> nat" where
  "downs parts = length (filter (\<lambda>part. part \<notin> {[], ''.'', ''..''}) parts)"

definition climbs :: "nat \<Rightarrow> bytes list \<Rightarrow> bool" where
  "climbs depth parts \<longleftrightarrow>
     (\<exists>before behind. parts = before @ ''..'' # behind \<and> ups before = depth + downs before)"

lemma climbs_Nil [simp]: "\<not> climbs depth []"
  by (simp add: climbs_def)

lemma climbs_Cons:
  "climbs depth (part # parts) \<longleftrightarrow>
     part = ''..'' \<and> depth = 0 \<or>
     (\<exists>before behind. parts = before @ ''..'' # behind \<and>
        ups (part # before) = depth + downs (part # before))"
  (is "?L \<longleftrightarrow> ?here \<or> ?later")
proof
  assume ?L
  then obtain before behind where
    "part # parts = before @ ''..'' # behind" "ups before = depth + downs before"
    by (auto simp: climbs_def)
  then show "?here \<or> ?later" by (cases before) (auto simp: ups_def downs_def)
next
  assume "?here \<or> ?later"
  then show ?L
  proof
    assume ?here
    then show ?L
      unfolding climbs_def by (intro exI [of _ "[]"] exI [of _ parts]) (simp add: ups_def downs_def)
  next
    assume ?later
    then obtain before behind where
      "parts = before @ ''..'' # behind" "ups (part # before) = depth + downs (part # before)" by blast
    then show ?L unfolding climbs_def by (intro exI [of _ "part # before"] exI [of _ behind]) simp
  qed
qed

lemma not_stays_below: "\<not> stays_below depth parts \<longleftrightarrow> climbs depth parts"
proof (induction parts arbitrary: depth)
  case (Cons part parts)
  consider (skip) "part = [] \<or> part = ''.''" | (up) "part = ''..''"
    | (down) "part \<noteq> []" "part \<noteq> ''.''" "part \<noteq> ''..''" by blast
  then show ?case
  proof cases
    case skip
    then show ?thesis
      unfolding climbs_Cons using Cons.IH [of depth] by (auto simp: climbs_def ups_def downs_def)
  next
    case up
    then show ?thesis
      unfolding climbs_Cons using Cons.IH [of "depth - 1"]
      by (cases depth) (auto simp: climbs_def ups_def downs_def)
  next
    case down
    then show ?thesis
      unfolding climbs_Cons using Cons.IH [of "Suc depth"] by (auto simp: climbs_def ups_def downs_def)
  qed
qed simp

end
