(* ===== verification/Server_Loops.thy ===== *)
theory Server_Loops
  imports Server_System
begin

section \<open>The loops of the server\<close>

text \<open>
  Models the loops of \<open>internal/server/server.go\<close> that run beside the connections: \<open>saveLoop\<close>,
  \<open>expireLoop\<close> and the accept loop of \<open>Serve\<close>. The lemmas show that each turn of them is a step of
  \<open>server_step\<close>, so that what holds in every reachable state holds while they run.
\<close>

subsection \<open>The tickers\<close>

text \<open>
  \<open>saveLoop\<close> and \<open>expireLoop\<close> wait for their ticker or for the channel \<open>stop\<close> that \<open>Close\<close>
  closes. The functions are one turn of the \<open>for\<close>, as \<open>conn_step\<close> is for a connection, because
  others take their turns in between; the first \<open>bool\<close> says whether the loop goes on. A snapshot
  that fails is logged, and the loop goes on.
\<close>

datatype 'a wake = Stopped | Tick 'a

definition save_loop :: "senv wake \<Rightarrow> server \<Rightarrow> bool \<times> server \<times> snap_io_err option" where
  "save_loop w sv =
     (case w of
        Stopped \<Rightarrow> (False, sv, None)
      | Tick e \<Rightarrow> (case server_save e sv of (sv, logged) \<Rightarrow> (True, sv, logged)))"

definition server_expire_loop ::
  "((nat \<Rightarrow> nat \<Rightarrow> bytes list \<Rightarrow> bytes list) \<times> (nat \<Rightarrow> time)) wake \<Rightarrow> server \<Rightarrow> bool \<times> server" where
  "server_expire_loop w sv =
     (case w of
        Stopped \<Rightarrow> (False, sv)
      | Tick (ords, nows) \<Rightarrow> (True, sv\<lparr>sstore := active_expire_cycle ords nows (sstore sv)\<rparr>))"

text \<open>Each turn of a loop that goes on is a step of the server; a stopped loop changes nothing.\<close>

lemma save_loop_step:
  assumes "save_loop w sv = (on, sv', logged)" and "\<And>e. w = Tick e \<Longrightarrow> senv_ok e"
  shows "if on then server_step (sv, conns) (sv', conns) else sv' = sv \<and> logged = None"
proof (cases w)
  case (Tick e)
  then show ?thesis
    using assms server_step.save [of e sv conns] by (auto simp: save_loop_def split: prod.splits)
qed (use assms in \<open>simp add: save_loop_def\<close>)

lemma server_expire_loop_step:
  assumes "server_expire_loop w sv = (on, sv')"
    and "\<And>ords nows i j. w = Tick (ords, nows) \<Longrightarrow> valid_order (ords i j)"
  shows "if on then server_step (sv, conns) (sv', conns) else sv' = sv"
proof (cases w)
  case (Tick orders)
  then show ?thesis
    using assms by (cases orders) (auto simp: server_expire_loop_def intro: server_step.expire)
qed (use assms in \<open>simp add: server_expire_loop_def\<close>)

subsection \<open>\<open>Serve\<close>\<close>

text \<open>\<open>Serve\<close> always starts \<open>expireLoop\<close>; \<open>saveLoop\<close> on this condition.\<close>

definition starts_save_loop :: "server \<Rightarrow> bool" where
  "starts_save_loop sv \<longleftrightarrow>
     opt_snapshot_path (sopts sv) \<noteq> [] \<and> opt_save_interval (sopts sv) > 0"

text \<open>
  One turn of its \<open>for\<close>. \<open>Accept\<close> fails (\<open>Inl\<close>), or gives a connection: the name the model has for
  it and the address of the peer. The first result is there when \<open>Serve\<close> returns, with its error.
\<close>

definition serve_turn ::
  "bool \<Rightarrow> bytes + subscriber \<times> bytes \<Rightarrow> server \<Rightarrow> bytes option option \<times> server \<times> client option" where
  "serve_turn stop_closed accepted sv =
     (case accepted of
        Inl err \<Rightarrow> (Some (if stop_closed then None else Some err), sv, None)
      | Inr (cid, remote) \<Rightarrow> (None, accept_conn cid remote sv))"

lemma serve_turn_step:
  assumes "serve_turn stop_closed accepted sv = (returned, sv', c)"
    and "\<And>cid remote. accepted = Inr (cid, remote) \<Longrightarrow> cid \<notin> set (map conn_id conns)"
  shows "if returned = None
    then server_step (sv, conns) (sv', conns @ (case c of None \<Rightarrow> [] | Some c \<Rightarrow> [(c, inp)]))
    else sv' = sv \<and> c = None"
proof (cases accepted)
  case (Inr conn)
  obtain cid remote where conn: "conn = (cid, remote)" by (cases conn)
  with Inr assms have "cid \<notin> set (map conn_id conns)" by blast
  from server_step.accept [OF this, of remote sv] server_step.refuse [OF this, of remote sv]
  show ?thesis using assms(1) Inr conn by (auto simp: serve_turn_def split: option.splits)
qed (use assms in \<open>auto simp: serve_turn_def\<close>)

end
