(* ===== verification/Server_Shutdown.thy ===== *)
theory Server_Shutdown
  imports Server_Loops
begin

section \<open>Shutting down\<close>

text \<open>
  Models \<open>Close\<close> and \<open>waitForConnections\<close> of \<open>internal/server/server.go\<close> and what the handler
  of signals in \<open>cmd/llavero/main.go\<close> does. \<open>Close\<close> begins (\<open>close_begin\<close>), waits while the
  connections go on taking turns (\<open>wait_over\<close>) and ends (\<open>close_end\<close>); it runs once, as
  \<open>sync.Once\<close> has it: only \<open>Close\<close> sets \<open>sclosing\<close>.

  The lemmas show that a closing server only loses connections: every turn of a connection uses
  up input or ends it, so that when every connection gets its turns the wait is over.
\<close>

subsection \<open>\<open>Close\<close>\<close>

text \<open>The \<open>bool\<close>: this call is the one that closes, and has to wait.\<close>

definition close_begin :: "server \<Rightarrow> server \<times> bool" where
  "close_begin sv = (if sclosing sv then (sv, False) else (begin_closing sv, True))"

text \<open>
  \<open>waitForConnections\<close>, called in the state \<open>sv0\<close>, may return in the state \<open>sv\<close>: the channel
  \<open>drained\<close> it took is closed, or the time is over; without a timeout it waits for the channel.
\<close>

definition wait_over :: "bool \<Rightarrow> server \<Rightarrow> server \<Rightarrow> bool" where
  "wait_over timer_fired sv0 sv \<longleftrightarrow>
     active_conns sv0 = 0 \<or> \<not> drained sv \<or> opt_shutdown_timeout (sopts sv0) \<noteq> 0 \<and> timer_fired"

definition close_end ::
  "bytes option \<Rightarrow> bytes option \<Rightarrow> bytes option \<Rightarrow> server \<Rightarrow> server \<times> bytes option" where
  "close_end listen_err sync_fault file_err sv =
     (case saof sv of
        None \<Rightarrow> (sv, listen_err)
      | Some a \<Rightarrow>
          (case aof_close sync_fault file_err a of
             (a, aof_err) \<Rightarrow>
               (sv\<lparr>saof := Some a\<rparr>, if listen_err \<noteq> None then listen_err else aof_err)))"

text \<open>The handler of SIGINT and SIGTERM, up to the wait: the final snapshot comes first.\<close>

definition on_signal :: "senv \<Rightarrow> server \<Rightarrow> server \<times> bool" where
  "on_signal e sv = close_begin (fst (server_save e sv))"

subsection \<open>A closing server only loses connections\<close>

text \<open>At most this many turns are left: one for each byte to come, and the last of each connection.\<close>

definition pending :: "conn list \<Rightarrow> nat" where
  "pending conns = sum_list (map (\<lambda>(c, inp). Suc (length inp)) conns)"

lemma pending_simps [simp]:
  "pending [] = 0" "pending ((c, inp) # conns) = Suc (length inp) + pending conns"
  "pending (conns @ conns') = pending conns + pending conns'"
  by (simp_all add: pending_def)

lemma pending_0 [simp]: "pending conns = 0 \<longleftrightarrow> conns = []"
  by (cases conns) auto

lemma frame_closing: "frame sv sv' \<Longrightarrow> sclosing sv' = sclosing sv"
  by (simp add: frame_def)

lemma turn_closing:
  assumes "senv_ok e" and "local_ok c sv" and "conn_step e fin inp c sv = (left, c', sv')"
  shows "sclosing sv' = sclosing sv"
  using turn_conn_step [OF assms] by (simp add: turn_rel_def frame_closing)

lemma close_conn_closing: "sclosing (conn_close ord c sv) = sclosing sv"
  using unsubscribe_all_frame [of sv ord c]
  by (simp add: conn_close_def finish_conn_def release_conn_slot_def record_connection_closed_def
      pubsub_only_def frame_closing Let_def)

lemma accept_closing: "sclosing sv \<Longrightarrow> snd (accept_conn cid remote sv) = None"
  by (auto simp: accept_conn_def acquire_conn_slot_def track_conn_def record_connection_accepted_def
      record_connection_rejected_def Let_def split: prod.splits if_splits)

lemma accept_keeps_closing: "sclosing (fst (accept_conn cid remote sv)) = sclosing sv"
  by (simp add: accept_conn_def acquire_conn_slot_def track_conn_def release_conn_slot_def
      record_connection_accepted_def record_connection_rejected_def record_connection_closed_def
      Let_def)

lemma closing_step:
  assumes "server_step st st'" and "system_ok st" and "sclosing (fst st)"
  shows "sclosing (fst st') \<and>
    (snd st' = snd st \<or> pending (snd st') < pending (snd st)) \<and>
    set (map conn_id (snd st')) \<subseteq> set (map conn_id (snd st))"
  using assms(1)
proof (cases rule: server_step.cases)
  case (accept cid conns remote sv sv' c inp)
  then show ?thesis using accept_closing [of sv cid remote] assms(3) by simp
next
  case (refuse cid conns remote sv sv')
  then show ?thesis using accept_keeps_closing [of cid remote sv] assms(3) by simp
next
  case (turn e fin inp c sv rest c' sv' before behind)
  have l: "local_ok c sv" using system_ok_local [OF assms(2) [unfolded turn(1)], of "(c, inp)"] by simp
  obtain used where "used \<noteq> []" "inp = used @ rest" using conn_step_consumes [OF turn(4)] by blast
  then have "length rest < length inp" by simp
  moreover have "client_id c' = client_id c"
    using turn_conn_step [OF turn(3) l turn(4)] by (simp add: turn_rel_def)
  moreover have "sclosing sv'" using turn_closing [OF turn(3) l turn(4)] assms(3) turn(1) by simp
  ultimately show ?thesis unfolding turn(1,2) by simp
next
  case (leave e ord fin inp c sv c' sv' before behind)
  have l: "local_ok c sv" using system_ok_local [OF assms(2) [unfolded leave(1)], of "(c, inp)"] by simp
  have "sclosing sv'" using turn_closing [OF leave(3) l leave(5)] assms(3) leave(1) by simp
  then show ?thesis unfolding leave(1,2) by (auto simp: close_conn_closing)
next
  case (expire ords sv conns nows)
  then show ?thesis using assms(3) by simp
next
  case (save e sv conns)
  have "quiet sv (fst (server_save e sv))"
    using server_save_ok [OF save(3)] assms(2) save(1) system_okD(1) by blast
  then have "sclosing (fst (server_save e sv)) = sclosing sv" by (simp add: quiet_def frame_closing)
  then show ?thesis using save assms(3) by simp
next
  case (shutdown sv conns)
  then show ?thesis by (simp add: begin_closing_def)
qed

subsection \<open>Runs\<close>

text \<open>
  An infinite run of the server. It is fair when, as long as there are connections, one of them
  takes a turn some time.
\<close>

definition is_run :: "(nat \<Rightarrow> system) \<Rightarrow> bool" where
  "is_run sts \<longleftrightarrow> (\<forall>i. server_step (sts i) (sts (Suc i)))"

definition fair_run :: "(nat \<Rightarrow> system) \<Rightarrow> bool" where
  "fair_run sts \<longleftrightarrow> (\<forall>i. snd (sts i) \<noteq> [] \<longrightarrow> (\<exists>j \<ge> i. snd (sts (Suc j)) \<noteq> snd (sts j)))"

lemma run_ok: "is_run sts \<Longrightarrow> system_ok (sts 0) \<Longrightarrow> system_ok (sts i)"
  by (induction i) (auto simp: is_run_def intro: system_ok_step)

lemma run_closing:
  assumes "is_run sts" and "system_ok (sts 0)" and "sclosing (fst (sts k))" and "k \<le> i"
  shows "sclosing (fst (sts i)) \<and> pending (snd (sts i)) \<le> pending (snd (sts k))"
  using assms(4)
proof (induction rule: dec_induct)
  case base
  then show ?case using assms(3) by simp
next
  case (step i)
  have "server_step (sts i) (sts (Suc i))" using assms(1) by (simp add: is_run_def)
  from closing_step [OF this run_ok [OF assms(1,2)]] step show ?case by fastforce
qed

lemma run_drains:
  assumes "is_run sts" and "fair_run sts" and "system_ok (sts 0)" and "sclosing (fst (sts k))"
  shows "\<exists>i \<ge> k. snd (sts i) = []"
  using assms(4)
proof (induction "pending (snd (sts k))" arbitrary: k rule: less_induct)
  case less
  show ?case
  proof (cases "snd (sts k) = []")
    case True
    then show ?thesis by blast
  next
    case False
    then obtain j where j: "j \<ge> k" "snd (sts (Suc j)) \<noteq> snd (sts j)"
      using assms(2) unfolding fair_run_def by blast
    have c: "sclosing (fst (sts j))" "pending (snd (sts j)) \<le> pending (snd (sts k))"
      using run_closing [OF assms(1,3) less.prems j(1)] by simp_all
    have "server_step (sts j) (sts (Suc j))" using assms(1) by (simp add: is_run_def)
    from closing_step [OF this run_ok [OF assms(1,3)] c(1)] j(2) c(2)
    have "sclosing (fst (sts (Suc j)))" "pending (snd (sts (Suc j))) < pending (snd (sts k))"
      by simp_all
    then obtain i where "i \<ge> Suc j" "snd (sts i) = []" using less.hyps by blast
    then show ?thesis using j(1) by (intro exI [of _ i]) simp
  qed
qed

lemma drained_wait_over:
  assumes "system_ok (sv, [])"
  shows "active_conns sv = 0 \<and> wait_over timer sv0 sv"
  using system_okD(4) [OF assms] by (simp add: slots_ok_def wait_over_def)

end
