(* ===== verification/Server_Properties.thy ===== *)
theory Server_Properties
  imports Sample_Server
begin

section \<open>Properties of the server\<close>

text \<open>
  The properties of \<open>internal/server\<close> as a whole: the invariant of every reachable state of a
  server that \<open>NewWithOptions\<close> started, authentication, publication and disconnection, the
  connection loop, and what the observability keeps to itself. They rest on
  \<open>reachable_system_ok\<close> and on the lemmas of the single components.
\<close>

subsection \<open>A server that has started\<close>

lemma value_from_snapshot_wf: "value_from_snapshot ord se = Inr v \<Longrightarrow> wf_value v"
  by (auto simp: value_from_snapshot_def split: if_splits)

lemma restore_loop_wf: "wf_store s \<Longrightarrow> wf_store (fst (restore_loop now vord snaps s))"
proof (induction now vord snaps s rule: restore_loop.induct)
  case (2 now vord snap snaps s)
  then show ?case
    by (auto simp: value_from_snapshot_wf put_store split: sum.split)
qed simp

lemma snapshot_load_wf:
  "wf_store s \<Longrightarrow> wf_store (fst (snapshot_load vord now oe fin path dir s))"
  using restore_loop_wf [OF wf_store_flush, of s now vord]
  by (auto simp: snapshot_load_def store_restore_def case_prod_unfold split: option.split sum.split)

lemma replay_aof_command_wf:
  assumes "wf_store s"
  shows "wf_store (fst (replay_aof_command env now cmd s))"
  using wf_store_dispatch [OF assms save_ok_None, of env cmd "()"] assms
  by (auto simp: replay_aof_command_eq case_prod_unfold split: option.split)

lemma replay_loop_invariant:
  assumes "\<And>cmd st. P st \<Longrightarrow> P (fst (appl cmd st))" and "P st"
  shows "P (fst (replay_loop uc appl fin inp st))"
  using assms
proof (induction uc appl fin inp st rule: replay_loop.induct)
  case (1 uc appl fin inp st)
  show ?case
  proof (cases "resp_parse uc fin inp")
    case (Inl e)
    then show ?thesis using 1(3) by (simp add: replay_loop.simps [of uc appl fin inp])
  next
    case (Inr p)
    obtain cmd rest where p: "p = (cmd, rest)" by force
    obtain st' err where a: "appl cmd st = (st', err)" by force
    have st': "P st'" using 1(2) [OF 1(3), of cmd] a by simp
    show ?thesis
    proof (cases err)
      case None
      from 1(1) [OF Inr p [symmetric] a [symmetric] None 1(2) st'] show ?thesis
        using Inr p a None by (simp add: replay_loop.simps [of uc appl fin inp])
    next
      case (Some e)
      then show ?thesis using Inr p a st' by (simp add: replay_loop.simps [of uc appl fin inp])
    qed
  qed
qed

lemma open_server_aof_wf:
  assumes "wf_store st" and "open_server_aof se o' st = Inr (st', a)"
  shows "wf_store st'"
proof -
  let ?step = "replay_step (replay_envs se) (replay_clocks se)"
  have "wf_store (fst (fst (?step cmd st)))" if "wf_store (fst st)" for cmd and st :: "store \<times> nat"
    using replay_aof_command_wf [OF that] by (simp add: replay_step_def case_prod_unfold Let_def)
  then have "wf_store (fst (fst (replay_loop uc ?step fin inp (st, 0))))" for uc fin inp
    using replay_loop_invariant [of "\<lambda>st. wf_store (fst st)" ?step] assms(1) by simp
  then have "wf_store (fst (fst (replay_aof (start_upper se) ?step (aof_opened se) (aof_fin se) (st, 0))))"
    using assms(1) by (simp add: replay_aof_def split: sum.split option.split)
  then show ?thesis
    using assms
    by (auto simp: open_server_aof_def Let_def case_prod_unfold split: if_splits option.splits sum.splits)
qed

lemma new_with_options_ok:
  assumes "new_with_options se o' = Inr sv"
  shows "system_ok (sv, [])"
proof -
  obtain s0 where s0: "new_store 256 = Inr s0" "wf_store s0" using new_store_256 by blast
  let ?load = "snapshot_load (start_orders se) (start_load_clock se) (snapshot_open_err se) (snapshot_fin se)
      (opt_snapshot_path o') (start_dir se) s0"
  obtain st err where st: "(if opt_snapshot_path o' = [] then (s0, None) else ?load) = (st, err)" by force
  have wf: "wf_store st" using st s0(2) snapshot_load_wf [OF s0(2)] by (metis fst_conv)
  have "err = None" "check_options o' = None"
    using assms s0(1) st by (auto simp: new_with_options_def split: option.splits)
  then obtain st' a where aof: "open_server_aof se o' st = Inr (st', a)"
    and sv: "sv = \<lparr>sopts = default_options o', sstore = st', saof = a, sbroker = new_broker,
      slimit = new_auth_limiter, smetrics = new_metrics (start_clock se), sdir = start_dir se,
      outbox = [], slots_used = 0, active_conns = 0, sclosing = False, drained = False\<rparr>"
    using assms s0(1) st by (auto simp: new_with_options_def split: sum.splits)
  have "0 \<le> opt_max_connections o'"
    using \<open>check_options o' = None\<close> by (simp add: check_options_def split: if_splits)
  then show ?thesis
    using open_server_aof_wf [OF wf aof] by (intro system_ok_start) (simp_all add: sv default_options_def)
qed

subsection \<open>The invariant\<close>

text \<open>
  C1: whatever the clients, the tickers and the operator do, in every state a started server
  reaches: the store is well formed; the open connections are counted exactly and never exceed the
  limit; \<open>drained\<close> is open just when there are connections; each client's list of channels agrees
  with the broker, no channel has a subscriber that is not connected, and no client holds more than
  1000; the slow log is within its limit, newest first; the limiter blocks exactly the addresses that
  reached five failures.
\<close>
theorem reachable_invariant:
  assumes "new_with_options se o' = Inr sv0" and "reachable (sv0, []) (sv, conns)"
  shows "system_ok (sv, conns) \<and>
    (0 < opt_max_connections (sopts sv) \<longrightarrow> int (length conns) \<le> opt_max_connections (sopts sv)) \<and>
    (\<forall>ch. subscribers (sbroker sv) ch \<subseteq> set (map conn_id conns)) \<and>
    length (slow_log (smetrics sv)) \<le> nat (opt_slow_log_max_len (sopts sv))"
proof -
  have ok: "system_ok (sv, conns)"
    using reachable_system_ok [OF assms(2) new_with_options_ok [OF assms(1)]] .
  then show ?thesis
    by (auto simp: system_ok_def slots_ok_def clients_ok_def slow_log_ok_def image_image)
qed

definition two_clients :: options where
  "two_clients = sample_options\<lparr>opt_max_connections := 2\<rparr>"

theorem reachable_invariant_witness:
  "\<exists>sv0 sv conns. new_with_options (sample_start Map.empty) two_clients = Inr sv0 \<and>
     reachable (sv0, []) (sv, conns) \<and> length conns = 1 \<and> system_ok (sv, conns)"
proof -
  obtain s0 where s0: "new_store 256 = Inr s0" using new_store_256 by blast
  then obtain sv0 where sv0: "new_with_options (sample_start Map.empty) two_clients = Inr sv0"
    and o': "sopts sv0 = default_options two_clients" "slots_used sv0 = 0" "\<not> sclosing sv0"
    by (auto simp: new_with_options_def two_clients_def sample_options_def check_options_def
        valid_command_log_mode_def open_server_aof_def)
  obtain sv c where "accept_conn 7 ''addr'' sv0 = (sv, Some c)"
    using o' by (simp add: accept_conn_def acquire_conn_slot_def track_conn_def two_clients_def
        record_connection_accepted_def Let_def)
  then have "server_step (sv0, []) (sv, [] @ [(c, ''PING'')])"
    by (intro server_step.accept) simp_all
  with reachable.start have r: "reachable (sv0, []) (sv, [] @ [(c, ''PING'')])" by (rule reachable.step)
  then show ?thesis
    using reachable_invariant [OF sv0 r] sv0
    by (intro exI [of _ sv0] exI [of _ sv] exI [of _ "[(c, ''PING'')]"]) simp
qed

subsection \<open>Authentication\<close>

text \<open>
  C10: the gate. Before a connection of a server with a password has authenticated, no command of
  it reads or changes anything: the store, the file, the snapshot, the broker, the slots, the metrics
  and every other client stay as they are, the reply does not depend on the store, and no command can
  make the server panic. Only \<open>AUTH\<close> and \<open>HELLO\<close> with the password among their arguments
  authenticate it.
\<close>
theorem unauthenticated_inert:
  assumes "auth_required c sv"
  shows "\<exists>sv' c' r. handle_command e c cmd sv = Some (sv', c', Some r) \<and>
    (\<exists>al. sv' = sv\<lparr>slimit := al\<rparr>) \<and>
    (\<forall>st. handle_command e c cmd (sv\<lparr>sstore := st\<rparr>) = Some (sv'\<lparr>sstore := st\<rparr>, c', Some r)) \<and>
    client_subs c' = client_subs c \<and>
    (authed c' \<longrightarrow> to_upper (upper (cmd_env e)) (cmd_name cmd) \<in> {''AUTH'', ''HELLO''} \<and>
       opt_auth_password (sopts sv) \<in> set (cmd_args cmd))"
proof -
  let ?name = "to_upper (upper (cmd_env e)) (cmd_name cmd)" and ?args = "cmd_args cmd"
  have c: "\<not> authed c" "auth_required c (sv\<lparr>sstore := st\<rparr>)" for st
    using assms by (simp_all add: auth_required_def)
  show ?thesis
  proof (cases "?name = ''AUTH''")
    case True
    obtain al where al: "fst (cmd_auth_result e c ?args sv) = sv\<lparr>slimit := al\<rparr>"
    proof -
      have "\<exists>al. fst (cmd_auth_result e c ?args sv) = sv\<lparr>slimit := al\<rparr>"
        by (auto simp: cmd_auth_eqs Let_def case_prod_unfold intro: exI [of _ "slimit sv"])
      then show thesis using that by blast
    qed
    have "cmd_auth_result e c ?args (sv\<lparr>sstore := st\<rparr>)
        = ((fst (cmd_auth_result e c ?args sv))\<lparr>sstore := st\<rparr>, snd (cmd_auth_result e c ?args sv))" for st
      by (simp add: cmd_auth_eqs Let_def case_prod_unfold)
    moreover have "client_subs (fst (snd (cmd_auth_result e c ?args sv))) = client_subs c"
      by (simp add: cmd_auth_eqs Let_def case_prod_unfold)
    ultimately show ?thesis
      using True al cmd_auth_authed [of e c ?args sv] c(1)
      by (auto simp: handle_command_eq case_prod_unfold Let_def)
  next
    case False
    show ?thesis
    proof (cases "?name = ''HELLO''")
      case True
      have "cmd_hello_result c ?args (sv\<lparr>sstore := st\<rparr>) = cmd_hello_result c ?args sv" for st
        by (simp add: cmd_hello_result_def cmd_hello_def)
      moreover have "set (tl ?args) \<subseteq> set ?args" by (cases ?args) auto
      ultimately show ?thesis
        using True cmd_hello_authed [OF c(1), of ?args sv] cmd_hello_frame [of c ?args sv]
        by (auto simp: handle_command_eq case_prod_unfold Let_def intro: exI [of _ "slimit sv"])
    next
      case no_hello: False
      show ?thesis
        using False no_hello assms c
        by (cases "?name = ''QUIT''")
           (auto simp: handle_command_eq cmd_quit_def Let_def intro: exI [of _ "slimit sv"])
    qed
  qed
qed

definition protected :: options where
  "protected = sample_options\<lparr>opt_auth_password := ''secret''\<rparr>"

theorem unauthenticated_inert_witness:
  "\<exists>sv' c' r. handle_command (sample_senv 5) (new_client 7 ''addr'') \<lparr>cmd_name = ''FLUSHALL'', cmd_args = []\<rparr>
       (sample_server protected sample) = Some (sv', c', Some r) \<and>
     sstore sv' = sample \<and> \<not> authed c'"
proof -
  have "auth_required (new_client 7 ''addr'') (sample_server protected sample)"
    by (simp add: auth_required_def protected_def new_client_def)
  from unauthenticated_inert [OF this, of "sample_senv 5" "\<lparr>cmd_name = ''FLUSHALL'', cmd_args = []\<rparr>"]
  show ?thesis by auto
qed

text \<open>
  Requests one after the other, each from any client: what \<open>handle_command\<close> answers to each.
\<close>

fun run_requests :: "(senv \<times> client \<times> command) list \<Rightarrow> server \<Rightarrow> server \<times> reply option list" where
  "run_requests [] sv = (sv, [])"
| "run_requests ((e, c, cmd) # reqs) sv =
     (let (sv, r) = (case handle_command e c cmd sv of None \<Rightarrow> (sv, None) | Some (sv, _, r) \<Rightarrow> (sv, r));
          (sv, rs) = run_requests reqs sv
      in (sv, r # rs))"

text \<open>How many \<open>AUTH\<close> requests from the address \<open>a\<close> got this answer.\<close>

definition auth_answers ::
  "bytes \<Rightarrow> reply \<Rightarrow> (senv \<times> client \<times> command) list \<Rightarrow> server \<Rightarrow> nat" where
  "auth_answers a answer reqs sv =
     length (filter (\<lambda>((e, c, cmd), r). remote_addr c = a \<and>
         to_upper (upper (cmd_env e)) (cmd_name cmd) = ''AUTH'' \<and> r = Some answer)
       (zip reqs (snd (run_requests reqs sv))))"

lemma auth_answers_bound:
  assumes "limiter_ok (slimit sv)"
    and "\<forall>(e, c, cmd) \<in> set reqs.
      start \<le> auth_clock e 1 \<and> auth_clock e 0 < start + auth_block_duration"
  shows "int (auth_answers a invalid_password reqs sv)
    \<le> guesses_left (start + auth_block_duration) a (slimit sv)
      + 5 * int (auth_answers a (StatusReply ''OK'') reqs sv)"
  using assms
proof (induction reqs arbitrary: sv)
  case Nil
  then show ?case using guesses_left_bounds by (simp add: auth_answers_def)
next
  case (Cons req reqs)
  obtain e c cmd where req: "req = (e, c, cmd)" by (cases req)
  let ?left = "guesses_left (start + auth_block_duration) a"
  let ?auth = "to_upper (upper (cmd_env e)) (cmd_name cmd) = ''AUTH''"
  obtain sv1 r where step: "(case handle_command e c cmd sv of None \<Rightarrow> (sv, None) | Some (sv, _, r) \<Rightarrow> (sv, r))
      = (sv1, r)" by force
  have answers: "auth_answers a answer (req # reqs) sv
      = (if remote_addr c = a \<and> ?auth \<and> r = Some answer then 1 else 0) + auth_answers a answer reqs sv1" for answer
    by (simp add: auth_answers_def req step case_prod_unfold Let_def)
  have "limiter_ok (slimit sv1) \<and> ?left (slimit sv1)
      + (if remote_addr c = a \<and> ?auth \<and> r = Some invalid_password then 1 else 0)
    \<le> ?left (slimit sv) + (if remote_addr c = a \<and> ?auth \<and> r = Some (StatusReply ''OK'') then 5 else 0)"
  proof (cases ?auth)
    case False
    then have "slimit sv1 = slimit sv"
      using step handle_command_limiter [of e c cmd sv] by (auto split: option.splits prod.splits)
    then show ?thesis using False Cons.prems(1) by simp
  next
    case True
    obtain sv' c' r' where auth: "cmd_auth_result e c (cmd_args cmd) sv = (sv', c', r')" by (cases "cmd_auth_result e c (cmd_args cmd) sv")
    then have "sv1 = sv'" "r = Some r'" using step True by (auto simp: handle_command_eq)
    then show ?thesis
      using cmd_auth_guesses [OF Cons.prems(1) _ _ auth, of start a] limiter_ok_auth [OF Cons.prems(1), of e c "cmd_args cmd"]
        Cons.prems(2) auth True by (auto simp: req counts_def split: if_splits)
  qed
  then show ?case
    using Cons.IH [of sv1] Cons.prems(2) by (auto simp: answers split: if_splits)
qed

text \<open>
  C26: guessing with \<open>AUTH\<close>. Whatever requests arrive within 30 seconds, from whatever clients and
  in whatever order, of the wrong passwords that one remote address (host and port) sends with
  \<open>AUTH\<close> at most five are compared with the password, and five more for every right one in between,
  which resets the count.
\<close>
theorem auth_guesses_bounded:
  assumes "limiter_ok (slimit sv)"
    and "\<forall>(e, c, cmd) \<in> set reqs.
      start \<le> auth_clock e 1 \<and> auth_clock e 0 < start + auth_block_duration"
  shows "auth_answers a invalid_password reqs sv
    \<le> 5 * (1 + auth_answers a (StatusReply ''OK'') reqs sv)"
proof -
  have "int (auth_answers a invalid_password reqs sv)
      \<le> int (5 * (1 + auth_answers a (StatusReply ''OK'') reqs sv))"
    using auth_answers_bound [OF assms, of a]
      guesses_left_bounds [OF assms(1), of "start + auth_block_duration" a] by simp
  then show ?thesis by (simp only: of_nat_le_iff)
qed

theorem auth_guesses_bounded_witness:
  "let guess = (sample_senv 5, new_client 7 ''addr'', \<lparr>cmd_name = ''AUTH'', cmd_args = [''guess'']\<rparr>);
       other = (sample_senv 6, new_client 8 ''else'', \<lparr>cmd_name = ''AUTH'', cmd_args = [''secret'']\<rparr>);
       reqs = replicate 1000 guess @ other # replicate 1000 guess; sv = sample_server protected sample
   in auth_answers ''addr'' invalid_password reqs sv
      \<le> 5 * (1 + auth_answers ''addr'' (StatusReply ''OK'') reqs sv)"
  unfolding Let_def
  by (rule auth_guesses_bounded [where start = 5]) (auto simp: protected_def auth_block_duration_def)

text \<open>
  Where the limit does not hold. \<open>HELLO 2 AUTH\<close> compares its password whatever the limiter
  says and records nothing: it authenticates exactly when the password is right, also for a blocked
  address, so the five attempts do not bound the guesses.
\<close>
theorem hello_ignores_limiter:
  assumes "opt_auth_password (sopts sv) \<noteq> []" and "\<not> authed c"
    and "cmd_name cmd = ''HELLO''" and "cmd_args cmd = [''2'', ''AUTH'', user, guess]"
  shows "\<exists>c' r. handle_command e c cmd sv = Some (sv, c', Some r) \<and>
    (authed c' \<longleftrightarrow> guess = opt_auth_password (sopts sv)) \<and>
    (guess \<noteq> opt_auth_password (sopts sv) \<longrightarrow> r = invalid_password)"
proof -
  have "to_upper uc ''HELLO'' = ''HELLO''" for uc
    by (simp add: to_upper_def is_ascii_def ascii_upper_def)
  moreover have "equal_fold ''AUTH'' ''AUTH''" by (simp add: equal_fold_def)
  ultimately show ?thesis
    using assms by (auto simp: handle_command_eq cmd_hello_result_def cmd_hello_def invalid_password_def Let_def)
qed

theorem hello_ignores_limiter_witness:
  "\<exists>c' r. handle_command (sample_senv 5) (new_client 7 ''addr'')
       \<lparr>cmd_name = ''HELLO'', cmd_args = [''2'', ''AUTH'', ''u'', ''secret'']\<rparr>
       ((sample_server protected sample)\<lparr>slimit := \<lparr>failures = [(''addr'', 5)], blocked = [(''addr'', 100)]\<rparr>\<rparr>)
     = Some ((sample_server protected sample)\<lparr>slimit := \<lparr>failures = [(''addr'', 5)], blocked = [(''addr'', 100)]\<rparr>\<rparr>,
         c', Some r) \<and> authed c'"
proof -
  let ?sv = "(sample_server protected sample)\<lparr>slimit := \<lparr>failures = [(''addr'', 5)], blocked = [(''addr'', 100)]\<rparr>\<rparr>"
  let ?cmd = "\<lparr>cmd_name = ''HELLO'', cmd_args = [''2'', ''AUTH'', ''u'', ''secret'']\<rparr>"
  show ?thesis
    using hello_ignores_limiter [of ?sv "new_client 7 ''addr''" ?cmd "''u''" "''secret''" "sample_senv 5"]
    by (auto simp: protected_def new_client_def)
qed

subsection \<open>Publish and subscribe\<close>

text \<open>
  C27: \<open>PUBLISH\<close> delivers the message once to every open connection that is subscribed to the
  channel and to no other, and its reply is their number, whatever the order of the broker's map.
\<close>
theorem publish_reaches_subscribers:
  assumes "system_ok (sv, conns)" and "\<And>xs. mset (sub_order e xs) = mset xs"
    and "\<not> auth_required c sv" and "to_upper (upper (cmd_env e)) (cmd_name cmd) = ''PUBLISH''"
    and "cmd_args cmd = [ch, msg]"
  shows "\<exists>sv' ts. handle_command e c cmd sv = Some (sv', c, Some (IntReply (int (length ts)))) \<and>
    outbox sv' = outbox sv @ map (\<lambda>x. (x, message_reply ch msg)) ts \<and>
    distinct ts \<and> set ts = conn_id ` {k \<in> set conns. ch \<in> set (client_subs (fst k))}"
proof -
  let ?ts = "fst (broker_publish (sub_order e) ch (sbroker sv))"
  have ok: "clients_ok (sbroker sv) (map fst conns)" using assms(1) by (simp add: system_ok_def)
  then have wf: "wf_broker (sbroker sv)" by (simp add: clients_ok_def)
  note t = broker_publish_targets [OF wf assms(2)]
  have n: "snd (broker_publish (sub_order e) ch (sbroker sv)) = int (length ?ts)"
    by (simp add: broker_publish_def Let_def)
  have "subscribers (sbroker sv) ch = conn_id ` {k \<in> set conns. ch \<in> set (client_subs (fst k))}"
    using ok by (force simp: clients_ok_def subs_agree_def)
  then show ?thesis
    using assms(3-5) t(1,2) n
    by (intro exI [of _ "fst (cmd_publish_result e [ch, msg] sv)"] exI [of _ ?ts])
       (simp add: handle_command_eq cmd_publish_eqs case_prod_unfold Let_def deliver_outbox)
qed

text \<open>Two connections, one of them subscribed.\<close>

definition listener :: client where
  "listener = (new_client 1 ''a'')\<lparr>client_subs := [''news'']\<rparr>"

definition chat :: server where
  "chat = (sample_server sample_options sample)\<lparr>sbroker := [(''news'', [1])], active_conns := 2, drained := True,
     smetrics := (new_metrics 0)\<lparr>current_connections := 2\<rparr>\<rparr>"

lemma chat_ok: "system_ok (chat, [(listener, []), (new_client 2 ''b'', [])])"
  by (auto simp: system_ok_def chat_def slots_ok_def clients_ok_def sample_options_def slow_log_ok_def
      new_metrics_def wf_broker_def subs_agree_def subscribers_def listener_def new_client_def
      split: if_splits)

theorem publish_reaches_subscribers_witness:
  "\<exists>sv'. handle_command (sample_senv 5) (new_client 2 ''b'') \<lparr>cmd_name = ''PUBLISH'', cmd_args = [''news'', ''hi'']\<rparr> chat
       = Some (sv', new_client 2 ''b'', Some (IntReply 1)) \<and>
     outbox sv' = [(1, message_reply ''news'' ''hi'')]"
proof -
  let ?cmd = "\<lparr>cmd_name = ''PUBLISH'', cmd_args = [''news'', ''hi'']\<rparr>"
  have up: "to_upper (\<lambda>b. b) ''PUBLISH'' = ''PUBLISH''" by (simp add: to_upper_def is_ascii_def ascii_upper_def)
  have "\<not> auth_required (new_client 2 ''b'') chat" by (simp add: auth_required_def chat_def sample_options_def)
  with publish_reaches_subscribers [OF chat_ok, of "sample_senv 5" "new_client 2 ''b''" ?cmd "''news''" "''hi''"] up
  obtain sv' ts where r: "handle_command (sample_senv 5) (new_client 2 ''b'') ?cmd chat
      = Some (sv', new_client 2 ''b'', Some (IntReply (int (length ts))))"
    "outbox sv' = outbox chat @ map (\<lambda>x. (x, message_reply ''news'' ''hi'')) ts" "distinct ts"
    "set ts = conn_id ` {k \<in> set [(listener, []), (new_client 2 ''b'', [])]. ''news'' \<in> set (client_subs (fst k))}"
    by auto
  have eq: "{k \<in> set [(listener, []), (new_client 2 ''b'', [])]. ''news'' \<in> set (client_subs (fst k))} = {(listener, [])}"
    by (auto simp: listener_def new_client_def)
  have ts: "set ts = {1}" using r(4) unfolding eq by (simp add: listener_def new_client_def)
  then have "length ts = 1" using distinct_card [OF r(3)] by simp
  then obtain x where "ts = [x]" by (cases ts) simp_all
  with ts have "ts = [1]" by simp
  then show ?thesis using r by (simp add: chat_def)
qed

text \<open>
  C28: when a connection ends, however it ends, it is removed from every channel, and the other
  subscriptions stay; its slot is free again, the counters of connections go down by one, and
  nothing else of the server changes: keys, log, directory, outbox, limiter, options and the other
  metrics are what they were. What is left keeps the invariant.
\<close>
theorem disconnect_leaves_nothing:
  assumes "system_ok (sv, before @ (c, inp) # behind)" and "valid_order ord"
  shows "system_ok (conn_close ord c sv, before @ behind) \<and>
    (\<forall>ch. subscribers (sbroker (conn_close ord c sv)) ch = subscribers (sbroker sv) ch - {client_id c}) \<and>
    conn_close ord c sv =
      sv\<lparr>sbroker := sbroker (conn_close ord c sv),
         slots_used := (if 0 < opt_max_connections (sopts sv) then slots_used sv - 1 else slots_used sv),
         active_conns := active_conns sv - 1,
         drained := (drained sv \<and> before @ behind \<noteq> []),
         smetrics := (smetrics sv)\<lparr>current_connections := current_connections (smetrics sv) - 1\<rparr>\<rparr>"
proof -
  have p: "pubsub_ok c sv" using system_ok_local [OF assms(1), of "(c, inp)"] by (simp add: local_ok_def)
  have b: "sbroker (conn_close ord c sv) = sbroker (unsubscribe_all ord c sv)"
    using finish_same_data by (simp add: conn_close_def)
  have "active_conns sv = 1 + int (length (before @ behind))"
    using system_okD(4) [OF assms(1)] by (simp add: slots_ok_def)
  then have "active_conns sv \<noteq> 1 \<longleftrightarrow> before @ behind \<noteq> []" by (cases before; cases behind) auto
  then have "conn_close ord c sv =
      sv\<lparr>sbroker := sbroker (conn_close ord c sv),
         slots_used := (if 0 < opt_max_connections (sopts sv) then slots_used sv - 1 else slots_used sv),
         active_conns := active_conns sv - 1,
         drained := (drained sv \<and> before @ behind \<noteq> []),
         smetrics := (smetrics sv)\<lparr>current_connections := current_connections (smetrics sv) - 1\<rparr>\<rparr>"
    using conn_close_only [of ord c sv] unfolding b by simp
  moreover have "\<forall>ch. subscribers (sbroker (conn_close ord c sv)) ch = subscribers (sbroker sv) ch - {client_id c}"
    unfolding b using unsubscribe_all_gone(2) [OF p assms(2)] by blast
  ultimately show ?thesis using system_ok_leave [OF assms] by (intro conjI)
qed

theorem disconnect_leaves_nothing_witness:
  "system_ok (conn_close (\<lambda>ks. ks) listener chat, [(new_client 2 ''b'', [])]) \<and>
   subscribers (sbroker (conn_close (\<lambda>ks. ks) listener chat)) ''news'' = {}"
proof -
  have "subscribers (sbroker chat) ''news'' = {1}" by (simp add: subscribers_def chat_def)
  then show ?thesis
    using disconnect_leaves_nothing [of chat "[]" listener "[]" "[(new_client 2 ''b'', [])]" "\<lambda>ks. ks"] chat_ok
    by (simp add: listener_def new_client_def)
qed

subsection \<open>The connection loop\<close>

text \<open>The loop over the requests of a client, without the bytes: what \<open>handleConn\<close> is for.\<close>

fun serve_requests ::
  "(nat \<Rightarrow> senv) \<Rightarrow> nat \<Rightarrow> bytes list list \<Rightarrow> client \<Rightarrow> server \<Rightarrow> nat \<times> client \<times> server" where
  "serve_requests envs i [] c sv = (Suc i, c, sv)"
| "serve_requests envs i (parts # reqs) c sv =
     (let e = envs i; cmd = command_of_parts (upper (cmd_env e)) parts
      in if opt_read_timeout (sopts sv) > 0 \<and> deadline_fails e then (Suc i, c, sv)
         else case handle_command e c cmd sv of
                None \<Rightarrow> (Suc i, c, sv)
              | Some (sv, c, r) \<Rightarrow>
                  let sv = observe_command e cmd r (cmd_duration e) sv
                  in case r of
                       None \<Rightarrow> serve_requests envs (Suc i) reqs c sv
                     | Some reply \<Rightarrow>
                         if send_fails e then (Suc i, c, sv)
                         else if close_after_reply c then (Suc i, c, send (client_id c) reply sv)
                         else serve_requests envs (Suc i) reqs c (send (client_id c) reply sv))"

lemma conn_step_request:
  assumes "parts_ok parts"
  shows "conn_step e fin (request_wire parts @ rest) c sv =
    (if opt_read_timeout (sopts sv) > 0 \<and> deadline_fails e then (None, c, sv)
     else case handle_command e c (command_of_parts (upper (cmd_env e)) parts) sv of
            None \<Rightarrow> (None, c, sv)
          | Some (sv, c, r) \<Rightarrow>
              let sv = observe_command e (command_of_parts (upper (cmd_env e)) parts) r (cmd_duration e) sv
              in case r of
                   None \<Rightarrow> (Some rest, c, sv)
                 | Some reply \<Rightarrow>
                     if send_fails e then (None, c, sv)
                     else if close_after_reply c then (None, c, send (client_id c) reply sv)
                     else (Some rest, c, send (client_id c) reply sv))"
  using resp_parse_request [OF assms] by (simp add: conn_step_def)

text \<open>
  C12: a client may send any number of requests at once and close: the connection loop over the
  bytes does what the loop over the requests does, one turn for each until it returns, so each request
  is answered once and in order, however the bytes are split and whatever bytes the arguments hold.
\<close>
theorem conn_loop_serves_requests:
  assumes "list_all parts_ok reqs"
  shows "conn_loop envs i EOF (concat (map request_wire reqs)) c sv = serve_requests envs i reqs c sv"
  using assms
proof (induction reqs arbitrary: i c sv)
  case Nil
  then show ?case
    by (subst conn_loop.simps) (simp add: conn_step_def resp_parse_empty)
next
  case (Cons parts reqs)
  have ok: "parts_ok parts" using Cons.prems by simp
  show ?case
    using Cons.IH Cons.prems
    by (subst conn_loop.simps) (simp add: conn_step_request [OF ok] Let_def split: option.split)
qed

theorem conn_loop_serves_requests_witness:
  "conn_loop (\<lambda>_. sample_senv 5) 0 EOF (concat (map request_wire [[''PING''], [''QUIT''], [''PING'']])) (new_client 7 ''a'') chat
     = serve_requests (\<lambda>_. sample_senv 5) 0 [[''PING''], [''QUIT''], [''PING'']] (new_client 7 ''a'') chat"
  by (rule conn_loop_serves_requests) (simp add: parts_ok_def bulk_ok_def)

text \<open>
  C29: on any input whatever, malformed or not, the loop of a connection ends after at most one turn
  per byte received and one for the end.
\<close>
theorem conn_loop_turns:
  "fst (conn_loop envs i fin inp c sv) \<le> i + Suc (length inp)"
proof (induction envs i fin inp c sv rule: conn_loop.induct)
  case (1 envs i fin inp c sv)
  obtain left c' sv' where s: "conn_step (envs i) fin inp c sv = (left, c', sv')" by (cases "conn_step (envs i) fin inp c sv")
  show ?case
  proof (cases left)
    case None
    then show ?thesis using s by (simp add: conn_loop.simps [of envs i fin inp])
  next
    case (Some rest)
    then obtain used where "used \<noteq> []" "inp = used @ rest" using conn_step_consumes s by blast
    then have "length rest < length inp" by simp
    then show ?thesis
      using 1 [OF s [symmetric, unfolded Some] refl refl] s Some by (simp add: conn_loop.simps [of envs i fin inp])
  qed
qed

text \<open>
  C30: the one argument read out of range. Index and slice expressions on the arguments of a command
  are checked wherever the server has them: in the handlers, in the server's own commands, in what is
  logged and in the estimate of the memory. Out of range they panic, and handling a command panics
  like that exactly when an authenticated client (or any, without a password) sends \<open>SET\<close> with fewer
  than two arguments: \<open>aofCommand\<close> slices \<open>args[2:]\<close> before the handler can check their number. The
  connection is then closed without a reply, and nothing else changes. Index expressions of the store
  on the values it holds are not part of this.
\<close>
theorem only_short_set_panics:
  "(handle_command e c cmd sv = None \<longleftrightarrow>
      \<not> auth_required c sv \<and> to_upper (upper (cmd_env e)) (cmd_name cmd) = ''SET'' \<and> length (cmd_args cmd) < 2) \<and>
   (handle_command e c cmd sv = None \<longrightarrow>
      (\<forall>fin rest inp. resp_parse (upper (cmd_env e)) fin inp = Inr (cmd, rest) \<longrightarrow>
         conn_step e fin inp c sv = (None, c, sv)))"
proof -
  have aof: "aof_command uc now cmd = None \<longleftrightarrow> to_upper uc (cmd_name cmd) = ''SET'' \<and> length (cmd_args cmd) < 2"
    for uc now
    by (auto simp: aof_command_eqs Let_def split: option.split)
  have "dispatch_with_aof e cmd sv = None \<longleftrightarrow>
      to_upper (upper (cmd_env e)) (cmd_name cmd) = ''SET'' \<and> length (cmd_args cmd) < 2"
    using aof [of "upper (cmd_env e)" "log_clock e"] by (auto simp: dispatch_with_aof_eq split: option.split)
  then show ?thesis
    by (auto simp: handle_command_eq conn_step_def Let_def case_prod_unfold split: option.splits)
qed

theorem only_short_set_panics_witness:
  "handle_command (sample_senv 5) (new_client 7 ''a'') \<lparr>cmd_name = ''SET'', cmd_args = [''k'']\<rparr> chat = None"
  using only_short_set_panics [of "sample_senv 5" "new_client 7 ''a''" "\<lparr>cmd_name = ''SET'', cmd_args = [''k'']\<rparr>" chat]
  by (simp add: auth_required_def chat_def sample_options_def)

subsection \<open>Accepting connections\<close>

text \<open>
  C31: a connection is refused exactly when the server is closing or the limit is reached; a refusal
  changes no slot and no counter of open connections, and an accepted connection starts
  unauthenticated and without subscriptions.
\<close>
theorem refused_iff_full_or_closing:
  assumes "system_ok (sv, conns)"
  shows "(snd (accept_conn cid remote sv) = None \<longleftrightarrow>
      sclosing sv \<or> 0 < opt_max_connections (sopts sv) \<and> int (length conns) = opt_max_connections (sopts sv)) \<and>
    (snd (accept_conn cid remote sv) = None \<longrightarrow> slots_ok (fst (accept_conn cid remote sv)) (length conns)) \<and>
    (\<forall>c. snd (accept_conn cid remote sv) = Some c \<longrightarrow>
      slots_ok (fst (accept_conn cid remote sv)) (Suc (length conns)) \<and> \<not> authed c \<and> client_subs c = [])"
proof -
  have ok: "slots_ok sv (length conns)" using assms by (simp add: system_ok_def)
  have "snd (accept_conn cid remote sv) = None \<longleftrightarrow>
      sclosing sv \<or> 0 < opt_max_connections (sopts sv) \<and> int (length conns) = opt_max_connections (sopts sv)"
    using ok
    by (auto simp: accept_conn_def acquire_conn_slot_def track_conn_def slots_ok_def Let_def
        record_connection_accepted_def record_connection_rejected_def)
  moreover have "slots_ok (fst (accept_conn cid remote sv)) (length conns)"
    if "snd (accept_conn cid remote sv) = None"
    using refuse_slots [OF _ ok, of cid remote] that by (metis prod.collapse)
  moreover have "slots_ok (fst (accept_conn cid remote sv)) (Suc (length conns)) \<and> \<not> authed c \<and> client_subs c = []"
    if "snd (accept_conn cid remote sv) = Some c" for c
    using accept_slots [OF _ ok, of cid remote _ c] that by (metis (no_types) new_client_def client.select_convs(3,4) prod.collapse)
  ultimately show ?thesis by blast
qed

theorem refused_iff_full_or_closing_witness:
  "snd (accept_conn 3 ''x'' (chat\<lparr>sclosing := True\<rparr>)) = None \<and> snd (accept_conn 3 ''x'' chat) \<noteq> None"
proof -
  have "system_ok (chat\<lparr>sclosing := True\<rparr>, [(listener, []), (new_client 2 ''b'', [])])"
    using chat_ok by (simp add: system_ok_def slots_ok_def)
  moreover have "opt_max_connections (sopts chat) = 0" "\<not> sclosing chat"
    by (simp_all add: chat_def sample_options_def sample_server_def default_options_def)
  ultimately show ?thesis
    using refused_iff_full_or_closing [of "chat\<lparr>sclosing := True\<rparr>" _ 3 "''x''"]
      refused_iff_full_or_closing [OF chat_ok, of 3 "''x''"]
    by auto
qed

subsection \<open>Secrets\<close>

text \<open>
  C32: what the metrics and the slow log keep of a command is its name and the number of its
  arguments, never what the arguments say, except for \<open>INFO\<close>, \<open>COMMAND\<close>, \<open>CLIENT\<close>, \<open>SELECT\<close> and
  \<open>SLOWLOG\<close>. Two commands of the same name and number of arguments, each with a reply of its own, can
  differ only in the counters of errors, hits and misses, and with the same reply in nothing: these
  three are counted from the reply alone.
\<close>
theorem metrics_hide_arguments:
  assumes "cmd_name cmd' = cmd_name cmd" and "length (cmd_args cmd') = length (cmd_args cmd)"
    and "to_upper (upper (cmd_env e)) (cmd_name cmd) \<notin> {''INFO'', ''COMMAND'', ''CLIENT'', ''SELECT'', ''SLOWLOG''}"
    and "\<not> equal_fold (cmd_name cmd) ''SLOWLOG''"
  shows "observe_command e cmd' r' d sv =
      on_metrics (\<lambda>m. m\<lparr>total_errors := total_errors (smetrics (observe_command e cmd' r' d sv)),
          keyspace_hits := keyspace_hits (smetrics (observe_command e cmd' r' d sv)),
          keyspace_misses := keyspace_misses (smetrics (observe_command e cmd' r' d sv))\<rparr>)
        (observe_command e cmd r d sv) \<and>
    observe_command e cmd' r d sv = observe_command e cmd r d sv"
proof -
  let ?uc = "upper (cmd_env e)"
  have redacted: "redact_command ?uc cmd' = redact_command ?uc cmd"
    using redact_command_args [of ?uc cmd] redact_command_args [of ?uc cmd'] assms(1-3) by simp
  have stats: "lookup_stats name (cmd_args cmd') r = lookup_stats name (cmd_args cmd) r" for name r
    using assms(2) by (simp add: lookup_stats_def split: option.split reply.split)
  have "\<not> is_slow_log_reset cmd" "\<not> is_slow_log_reset cmd'"
    using assms(1,4) by (simp_all add: is_slow_log_reset_def)
  then show ?thesis
    using redacted stats assms(1) by (simp add: observe_command_def push_slow_log_def Let_def case_prod_unfold)
qed

theorem metrics_hide_arguments_witness:
  "slow_log (smetrics (observe_command (sample_senv 5) \<lparr>cmd_name = ''AUTH'', cmd_args = [''secret'']\<rparr>
       (Some (StatusReply ''OK'')) 9 chat))
   = slow_log (smetrics (observe_command (sample_senv 5) \<lparr>cmd_name = ''AUTH'', cmd_args = [''guess'']\<rparr>
       (Some invalid_password) 9 chat)) \<and>
   observe_command (sample_senv 5) \<lparr>cmd_name = ''AUTH'', cmd_args = [''secret'']\<rparr> (Some invalid_password) 9 chat
     = observe_command (sample_senv 5) \<lparr>cmd_name = ''AUTH'', cmd_args = [''guess'']\<rparr> (Some invalid_password) 9 chat"
proof -
  have n: "\<not> equal_fold ''AUTH'' ''SLOWLOG''"
    "to_upper (upper (cmd_env (sample_senv 5))) ''AUTH'' \<notin> {''INFO'', ''COMMAND'', ''CLIENT'', ''SELECT'', ''SLOWLOG''}"
    by (simp_all add: go_eval)
  let ?secret = "\<lparr>cmd_name = ''AUTH'', cmd_args = [''secret'']\<rparr>"
  let ?guess = "\<lparr>cmd_name = ''AUTH'', cmd_args = [''guess'']\<rparr>"
  have hide: "observe_command (sample_senv 5) ?secret r' 9 chat
        = on_metrics (\<lambda>m. m\<lparr>total_errors := x, keyspace_hits := y, keyspace_misses := z\<rparr>)
            (observe_command (sample_senv 5) ?guess r 9 chat)"
    if "x = total_errors (smetrics (observe_command (sample_senv 5) ?secret r' 9 chat))"
      "y = keyspace_hits (smetrics (observe_command (sample_senv 5) ?secret r' 9 chat))"
      "z = keyspace_misses (smetrics (observe_command (sample_senv 5) ?secret r' 9 chat))" for r r' x y z
    unfolding that using metrics_hide_arguments [of ?secret ?guess "sample_senv 5" r' 9 chat r] n by simp
  have "slow_log (smetrics (on_metrics (\<lambda>m. m\<lparr>total_errors := x, keyspace_hits := y, keyspace_misses := z\<rparr>) sv))
      = slow_log (smetrics sv)" for x y z sv by simp
  then have "slow_log (smetrics (observe_command (sample_senv 5) ?secret r' 9 chat))
      = slow_log (smetrics (observe_command (sample_senv 5) ?guess r 9 chat))" for r r'
    by (subst hide [OF refl refl refl, of r' r])
  moreover have "observe_command (sample_senv 5) ?secret r 9 chat
      = observe_command (sample_senv 5) ?guess r 9 chat" for r
    using metrics_hide_arguments [of ?secret ?guess "sample_senv 5" r 9 chat r] n by simp
  ultimately show ?thesis by blast
qed

end
