(* ===== verification/Main_Properties.thy ===== *)
theory Main_Properties
  imports Server_Main Server_Shutdown Server_Properties
begin

section \<open>Properties of the server binary\<close>

text \<open>
  Where each setting of a running server comes from, which paths and which addresses for the
  diagnostics are accepted, what holds of a server \<open>main\<close> has started, and that a shutdown ends.
  They rest on the contract \<open>named_store\<close> of the configuration, on \<open>new_with_options_ok\<close> and on
  the measure of the turns that are left to the connections.
\<close>

subsection \<open>Configuration\<close>

definition config_file_values :: "main_env \<Rightarrow> bytes \<Rightarrow> bytes \<Rightarrow> setting_value option" where
  "config_file_values me path =
     (if path = [] then Map.empty
      else map_of (rev (file_values (lower_of me) (duration_of me)
             (case open_config me path of Inl _ \<Rightarrow> [] | Inr (content, _) \<Rightarrow> content))))"

abbreviation flag_start :: main_flags where
  "flag_start \<equiv> \<lparr>mf_config_path = [], mf_config = default_config\<rparr>"

text \<open>
  C15: each setting of the configuration comes from the flag of its name, when that was given, else
  from its environment variable, else from the last line of the file that sets it, else from the
  defaults, and the order in which the environment is read does not matter. One setting is
  different: when a path for the append-only file is set and the flag for the snapshot was not
  given, there is no snapshot, whatever the file or the environment say.
\<close>
theorem setting_precedence:
  assumes "parse_flags (server_flags (duration_of me)) args flag_start [] = Inr (flags, visited, left)"
    and "main_config me args = Inr cfg" and "valid_order (env_order me)"
  shows "setting cfg k =
    (if k = ''snapshot'' \<and> ''snapshot'' \<notin> set visited \<and> cfg_aof_path cfg \<noteq> [] then Some (Text [])
     else if flag_name k \<in> set visited then setting (mf_config flags) k
     else (setting default_config ++ config_file_values me (mf_config_path flags)
             ++ env_values (lower_of me) (duration_of me) (getenv me)) k)"
proof -
  let ?open = "open_config me (mf_config_path flags)"
  obtain c1 where c1: "apply_file (lower_of me) (duration_of me) (mf_config_path flags) ?open
      default_config = (c1, None)"
    using assms(1,2) by (auto simp: main_config_def split: prod.splits option.splits)
  obtain c2 where c2: "apply_env (env_order me) (lower_of me) (duration_of me) (getenv me) c1 = (c2, None)"
    using assms(1,2) c1 by (auto simp: main_config_def split: prod.splits option.splits)
  let ?c = "merge_visited_flags c2 (mf_config flags) visited"
  have cfg: "cfg = (if cfg_aof_path ?c \<noteq> [] \<and> ''snapshot'' \<notin> set visited
      then ?c\<lparr>cfg_snapshot_path := []\<rparr> else ?c)"
    using assms(1,2) c1 c2 by (simp add: main_config_def Let_def)
  then have aof: "cfg_aof_path cfg = cfg_aof_path ?c" by simp
  have file_eq: "(if mf_config_path flags = [] then Map.empty
      else map_of (rev (file_values (lower_of me) (duration_of me) (case ?open of Inr (content, _) \<Rightarrow> content))))
      = config_file_values me (mf_config_path flags)"
    using c1 by (auto simp: config_file_values_def apply_file_def split: sum.splits)
  have "setting c2 = setting default_config ++ config_file_values me (mf_config_path flags)
      ++ env_values (lower_of me) (duration_of me) (getenv me)"
    using apply_env_settings [OF c2 assms(3)] apply_file_settings [OF c1] file_eq by simp
  then have "setting ?c k = (if flag_name k \<in> set visited then setting (mf_config flags) k
      else (setting default_config ++ config_file_values me (mf_config_path flags)
             ++ env_values (lower_of me) (duration_of me) (getenv me)) k)"
    by (simp add: merge_visited_settings)
  moreover have "setting cfg k = (if k = ''snapshot'' \<and> ''snapshot'' \<notin> set visited \<and> cfg_aof_path cfg \<noteq> []
      then Some (Text []) else setting ?c k)"
    unfolding aof by (subst cfg) (simp add: drop_snapshot_settings)
  ultimately show ?thesis by simp
qed

text \<open>An environment, a file and flags that disagree.\<close>

definition sample_main :: main_env where
  "sample_main =
     \<lparr>getenv = (\<lambda>name. if name = ''LLAVERO_ADDR'' then Some '':7'' else None),
      env_order = \<lambda>ks. ks,
      open_config = \<lambda>_. Inr (''addr=:8'' @ lf @ ''snapshot=old'' @ lf @ '' snapshot = a/b '' @ lf, None),
      duration_of = \<lambda>_. None, lower_of = \<lambda>b. b, pprof_listen = \<lambda>_. None,
      server_start = sample_start Map.empty, key_pair = None, bind_addr = \<lambda>_. None\<rparr>"

definition sample_args :: "bytes list" where
  "sample_args = [''-config=c'', ''-max-connections=0x10'']"

lemma sample_flags:
  "parse_flags (server_flags (\<lambda>_. None)) sample_args flag_start [] =
     Inr (\<lparr>mf_config_path = ''c'', mf_config = default_config\<lparr>cfg_max_connections := 16\<rparr>\<rparr>,
          [''max-connections'', ''config''], [])"
  by (simp add: sample_args_def go_eval server_flags_def config_flag_def is_digit_def in_i64_def)

lemma sample_scan:
  "scan_lines (''addr=:8'' @ lf @ ''snapshot=old'' @ lf @ '' snapshot = a/b '' @ lf) =
     ([''addr=:8'', ''snapshot=old'', '' snapshot = a/b ''], False)"
  by (simp add: scan_lines.simps drop_cr_def)

lemma sample_trim:
  "trim_space '' snapshot = a/b '' = ''snapshot = a/b''" "trim_space ''addr=:8'' = ''addr=:8''"
  "trim_space ''snapshot=old'' = ''snapshot=old''" "trim_space ''snapshot '' = ''snapshot''"
  "trim_space '' a/b'' = ''a/b''" "trim_space ''addr'' = ''addr''" "trim_space '':8'' = '':8''"
  "trim_space ''snapshot'' = ''snapshot''" "trim_space ''old'' = ''old''"
  by (simp_all add: trim_space_def trim_left.simps trim_right.simps space_suffix_width_def last_bytes_def
      ascii_space_def Let_def)

lemma sample_config:
  "main_config sample_main sample_args =
     Inr (default_config\<lparr>cfg_addr := '':7'', cfg_snapshot_path := ''a/b'', cfg_max_connections := 16\<rparr>)"
proof -
  have from_file: "apply_file (\<lambda>b. b) (\<lambda>_. None) ''c'' (open_config sample_main ''c'') default_config =
      (default_config\<lparr>cfg_addr := '':8'', cfg_snapshot_path := ''a/b''\<rparr>, None)"
    unfolding apply_file_def sample_main_def
    by (simp add: sample_scan [simplified] sample_trim cfg_set_def canonical_key_def to_lower_def
        is_ascii_def ascii_lower_def Let_def)
  have env: "apply_env (\<lambda>ks. ks) (\<lambda>b. b) (\<lambda>_. None) (getenv sample_main) c = (c\<lparr>cfg_addr := '':7''\<rparr>, None)" for c
    by (simp add: apply_env_def go_range_def env_table_def sample_main_def cfg_set_def canonical_key_def
        to_lower_def is_ascii_def ascii_lower_def Let_def)
  have "env_order sample_main = (\<lambda>ks. ks)" "lower_of sample_main = (\<lambda>b. b)" "duration_of sample_main = (\<lambda>_. None)"
    by (simp_all add: sample_main_def)
  then show ?thesis
    using sample_flags from_file env
    by (simp add: main_config_def merge_visited_flags_def if_visited_def default_config_def Let_def)
qed

theorem setting_precedence_witness:
  "main_config sample_main sample_args =
     Inr (default_config\<lparr>cfg_addr := '':7'', cfg_snapshot_path := ''a/b'', cfg_max_connections := 16\<rparr>) \<and>
   env_values (\<lambda>b. b) (\<lambda>_. None) (getenv sample_main) ''addr'' = Some (Text '':7'')"
proof -
  have s: "duration_of sample_main = (\<lambda>_. None)" "lower_of sample_main = (\<lambda>b. b)"
    "valid_order (env_order sample_main)" by (simp_all add: sample_main_def)
  have "env_values (\<lambda>b. b) (\<lambda>_. None) (getenv sample_main) ''addr'' = Some (Text '':7'')"
    by (simp add: env_values_def setting_kinds_def env_name_def ascii_upper_def sample_main_def
        setting_value_def kind_value_def)
  moreover have "setting (default_config\<lparr>cfg_addr := '':7'', cfg_snapshot_path := ''a/b'',
      cfg_max_connections := 16\<rparr>) ''addr'' = Some (Text '':7'')"
    using setting_precedence [of sample_main sample_args _ _ _ _ "''addr''", OF _ sample_config s(3)]
      sample_flags s(1,2) calculation by (auto simp: flag_name_def map_add_def)
  ultimately show ?thesis using sample_config by simp
qed

text \<open>Where a path leads from a directory, given as the list of the names on the way to it.\<close>

fun walk :: "bytes list \<Rightarrow> bytes list \<Rightarrow> bytes list" where
  "walk dir [] = dir"
| "walk dir (part # parts) =
     (if part = [] \<or> part = ''.'' then walk dir parts
      else if part = ''..'' then walk (butlast dir) parts
      else walk (dir @ [part]) parts)"

lemma walk_stays_below:
  "stays_below (length down) parts \<Longrightarrow> prefix start (walk (start @ down) (take n parts))"
proof (induction parts arbitrary: down n)
  case (Cons part parts)
  show ?case
  proof (cases n)
    case (Suc m)
    consider (skip) "part = [] \<or> part = ''.''" | (up) "part = ''..''"
      | (down) "part \<noteq> []" "part \<noteq> ''.''" "part \<noteq> ''..''" by blast
    then show ?thesis
    proof cases
      case skip
      then show ?thesis using Cons.IH [of down m] Cons.prems Suc by auto
    next
      case up
      then have "down \<noteq> []" using Cons.prems by auto
      then show ?thesis using Cons.IH [of "butlast down" m] Cons.prems Suc up by (auto simp: butlast_append)
    next
      case (down)
      then show ?thesis using Cons.IH [of "down @ [part]" m] Cons.prems Suc by simp
    qed
  qed simp
qed simp

text \<open>
  C38: no path traversal. A relative path that the check accepts, followed component by component
  from any directory, is inside that directory at every point of the way; and the check refuses no
  path without a \<open>..\<close> component, so its message is true.
\<close>
theorem accepted_paths_stay:
  "(validate_path path \<and> path \<noteq> [] \<and> hd path \<noteq> CHR ''/'' \<longrightarrow>
      (\<forall>start n. prefix start (walk start (take n (split_on CHR ''/'' path))))) \<and>
   (\<not> validate_path path \<longrightarrow> ''..'' \<in> set (split_on CHR ''/'' path))"
proof -
  have "stays_below 0 (split_on CHR ''/'' path)" if "validate_path path" "path \<noteq> []" "hd path \<noteq> CHR ''/''"
    using that by (simp add: validate_path_iff)
  then have "prefix start (walk start (take n (split_on CHR ''/'' path)))"
    if "validate_path path" "path \<noteq> []" "hd path \<noteq> CHR ''/''" for start n
    using walk_stays_below [of "[]" _ start n] that by simp
  moreover have "climbs 0 (split_on CHR ''/'' path)" if "\<not> validate_path path"
    using that by (simp add: validate_path_iff flip: not_stays_below)
  then have "''..'' \<in> set (split_on CHR ''/'' path)" if "\<not> validate_path path"
    using that by (auto simp: climbs_def)
  ultimately show ?thesis by blast
qed

theorem accepted_paths_stay_witness:
  "validate_path ''a/../b'' \<and> prefix [''data''] (walk [''data''] (take 2 (split_on CHR ''/'' ''a/../b''))) \<and>
   \<not> validate_path ''../b'' \<and> ''..'' \<in> set (split_on CHR ''/'' ''../b'')"
proof -
  have v: "validate_path ''a/../b''" "\<not> validate_path ''../b''"
    by (simp_all add: validate_path_iff)
  show ?thesis
    using accepted_paths_stay [of "''a/../b''"] accepted_paths_stay [of "''../b''"] v by simp
qed

text \<open>
  The check is not quite the one its comment describes: it refuses a path exactly when it is relative
  and climbs above the directory it starts from, so \<open>..\<close> inside a path and every absolute path are
  accepted.
\<close>
theorem refused_paths_climb:
  "\<not> validate_path path \<longleftrightarrow>
     path \<noteq> [] \<and> hd path \<noteq> CHR ''/'' \<and>
     (\<exists>before behind. split_on CHR ''/'' path = before @ ''..'' # behind \<and>
        length (filter (\<lambda>part. part = ''..'') before) =
        length (filter (\<lambda>part. part \<notin> {[], ''.'', ''..''}) before))"
proof -
  have "\<not> validate_path path \<longleftrightarrow>
      path \<noteq> [] \<and> hd path \<noteq> CHR ''/'' \<and> climbs 0 (split_on CHR ''/'' path)"
    by (simp add: validate_path_iff flip: not_stays_below)
  then show ?thesis by (simp add: climbs_def ups_def downs_def)
qed

subsection \<open>Diagnostics\<close>

lemma hd_dec_digits_nonzero: "0 < n \<Longrightarrow> hd (dec_digits n) \<noteq> CHR ''0''"
proof (induction n rule: dec_digits.induct)
  case (1 n)
  show ?case
  proof (cases "n < 10")
    case True
    then have "byte_val (hd (dec_digits n)) = 48 + n" by (subst dec_digits.simps) simp
    then show ?thesis using 1(2) by auto
  next
    case False
    then have "dec_digits n = dec_digits (n div 10) @ [char_of (48 + n mod 10)]"
      by (subst dec_digits.simps) simp
    then show ?thesis using 1(1) [OF False] False by simp
  qed
qed

lemma octet_digits:
  assumes "n \<le> 255"
  shows "octet (dec_digits n) = Some n"
proof -
  have "hd (dec_digits n) \<noteq> CHR ''0'' \<or> length (dec_digits n) = 1"
    using hd_dec_digits_nonzero [of n] by (cases "n = 0") (simp_all add: dec_digits.simps)
  then show ?thesis using assms digits_value_dec_digits [of n] by (auto simp: octet_def)
qed

text \<open>An IPv4 address as text, and with a port.\<close>

definition dotted :: "nat list \<Rightarrow> bytes" where
  "dotted ip = dec_digits (ip ! 0) @ ''.'' @ dec_digits (ip ! 1) @ ''.'' @ dec_digits (ip ! 2)
     @ ''.'' @ dec_digits (ip ! 3)"

lemma digit_chars: "c \<in> set (dec_digits n) \<Longrightarrow> c \<noteq> CHR ''.'' \<and> c \<noteq> CHR '':'' \<and> c \<noteq> CHR ''%'' \<and>
    c \<noteq> CHR ''['' \<and> c \<noteq> CHR '']''"
  using bspec [OF dec_digits_all_digits, of c n] by (auto simp: is_digit_def)

lemma parse_dotted:
  assumes "list_all (\<lambda>n. n \<le> 255) [a, b, c, d]"
  shows "parse_ip (dotted [a, b, c, d]) = Some (v4_in_v6 [a, b, c, d])"
proof -
  have no_dot: "CHR ''.'' \<notin> set (dec_digits n)" for n using digit_chars by blast
  have "split_on CHR ''.'' (dotted [a, b, c, d]) = [dec_digits a, dec_digits b, dec_digits c, dec_digits d]"
    using no_dot by (simp add: dotted_def split_on_append split_on_part)
  then have v4: "parse_ipv4 (dotted [a, b, c, d]) = Some [a, b, c, d]"
    using assms by (simp add: parse_ipv4_def octet_digits)
  have "CHR ''%'' \<notin> set (dotted [a, b, c, d])" using digit_chars by (auto simp: dotted_def)
  moreover have "dropWhile (\<lambda>c. c \<noteq> CHR ''.'' \<and> c \<noteq> CHR '':'') (dec_digits a @ CHR ''.'' # s) = CHR ''.'' # s" for s
    using digit_chars [of _ a] by (simp add: dropWhile_append2)
  ultimately show ?thesis using v4 by (simp add: parse_ip_def dotted_def)
qed

lemma split_host_port:
  assumes "CHR '':'' \<notin> set host" "CHR ''['' \<notin> set host" "CHR '']'' \<notin> set host"
    and "CHR '':'' \<notin> set port" "CHR ''['' \<notin> set port" "CHR '']'' \<notin> set port"
  shows "split_host (host @ CHR '':'' # port) = Some host"
proof -
  have "takeWhile (\<lambda>c. c \<noteq> CHR '':'') (rev (host @ CHR '':'' # port)) = rev port"
    using takeWhile_until [of "CHR '':''" "rev port" "rev host"] assms(4) by simp
  moreover have "hd (host @ CHR '':'' # port) \<noteq> CHR ''[''" using assms(2) by (cases host) auto
  ultimately show ?thesis using assms by (simp add: split_host_def Let_def)
qed

lemma loopback_v6:
  "is_loopback (replicate 15 0 @ [1])" "\<not> is_loopback (replicate 16 0)"
  by (simp_all add: is_loopback_def numeral_eq_Suc)

text \<open>
  C39: the diagnostics stay private: unless the override says \<open>true\<close>, a listener is opened only for
  a host that is \<open>localhost\<close> or a loopback address; of the IPv4 addresses exactly those of the
  network 127 are, and an address without a host is refused.
\<close>
theorem pprof_stays_private:
  assumes "\<not> equal_fold (case env allow of None \<Rightarrow> [] | Some v \<Rightarrow> trim_space v) ''true''"
    and "list_all (\<lambda>n. n \<le> 255) [a, b, c, d]"
    and "CHR '':'' \<notin> set port" and "CHR ''['' \<notin> set port" and "CHR '']'' \<notin> set port"
  shows "(start_pprof_from_env env listen name allow = Inr (Some addr) \<longrightarrow>
      (\<exists>host. split_host addr = Some host \<and>
        (equal_fold host ''localhost'' \<or> (\<exists>ip. parse_ip host = Some ip \<and> is_loopback ip)))) \<and>
    (require_loopback (dotted [a, b, c, d] @ '':'' @ port) = None \<longleftrightarrow> a = 127) \<and>
    require_loopback ('':'' @ port) \<noteq> None"
proof (intro conjI impI)
  assume "start_pprof_from_env env listen name allow = Inr (Some addr)"
  then have "require_loopback addr = None"
    using assms(1) by (auto simp: start_pprof_from_env_def Let_def split: if_splits option.splits)
  then show "\<exists>host. split_host addr = Some host \<and>
      (equal_fold host ''localhost'' \<or> (\<exists>ip. parse_ip host = Some ip \<and> is_loopback ip))"
    by (auto simp: require_loopback_def split: option.splits if_splits)
next
  let ?host = "dotted [a, b, c, d]"
  have "split_host (?host @ CHR '':'' # port) = Some ?host"
    using assms(3-5) digit_chars by (intro split_host_port) (auto simp: dotted_def)
  moreover have "\<not> equal_fold ?host ''localhost''"
  proof
    assume "equal_fold ?host ''localhost''"
    moreover obtain x xs where x: "dec_digits a = x # xs" by (metis dec_digits_nonempty neq_Nil_conv)
    moreover have "is_digit x" using hd_dec_digits [OF x] .
    ultimately show False
      by (cases "?host" rule: fold_simple.cases)
         (auto simp: equal_fold_def dotted_def is_digit_def ascii_lower_def Let_def split: if_splits)
  qed
  moreover have "is_loopback (v4_in_v6 [a, b, c, d]) \<longleftrightarrow> a = 127"
    by (simp add: is_loopback_def v4_in_v6_def nth_append)
  ultimately show "require_loopback (?host @ '':'' @ port) = None \<longleftrightarrow> a = 127"
    using parse_dotted [OF assms(2)] by (simp add: require_loopback_def)
next
  have "split_host (CHR '':'' # port) = Some []"
    using split_host_port [of "[]" port] assms(3-5) by simp
  then show "require_loopback ('':'' @ port) \<noteq> None"
    by (simp add: require_loopback_def equal_fold_def parse_ip_def)
qed

theorem pprof_stays_private_witness:
  "require_loopback (dotted [127, 0, 0, 1] @ '':6060'') = None \<and>
   require_loopback (dotted [0, 0, 0, 0] @ '':6060'') \<noteq> None \<and>
   require_loopback ''[::1]:6060'' = None \<and> require_loopback ''[::]:6060'' \<noteq> None"
proof -
  have no: "\<not> equal_fold (case Map.empty allow of None \<Rightarrow> [] | Some v \<Rightarrow> trim_space v) ''true''" for allow :: bytes
    by (simp add: equal_fold_def)
  have "ipv6_loop (Suc n) [] (Some 0) ''1'' = Some ([0, 1], Some 0, [])" for n
    by (simp add: hex_value_def hex_number_def)
  from this [of 7] have "ipv6_loop 8 [] (Some 0) ''1'' = Some ([0, 1], Some 0, [])" by simp
  moreover have "replicate 14 0 @ [0 :: nat] = replicate 15 0" by (simp add: numeral_eq_Suc)
  ultimately have "parse_ip ''::1'' = Some (replicate 15 0 @ [1])"
    by (simp add: parse_ip_def parse_ipv6_def)
  then have "require_loopback ''[::1]:6060'' = None"
    using loopback_v6(1)
    by (simp add: require_loopback_def split_host_def equal_fold_def ascii_lower_def)
  moreover have "require_loopback ''[::]:6060'' \<noteq> None"
    using loopback_v6(2)
    by (simp add: require_loopback_def split_host_def equal_fold_def ascii_lower_def parse_ip_def
        parse_ipv6_def)
  moreover note no
  ultimately show ?thesis
    using pprof_stays_private [OF no, of 127 0 0 1 "''6060''"]
      pprof_stays_private [OF no, of 0 0 0 0 "''6060''"] by simp
qed

subsection \<open>A server that main has started\<close>

lemma open_server_aof_None:
  "open_server_aof se o' st = Inr (st', a) \<Longrightarrow> a = None \<longleftrightarrow> opt_aof_path o' = []"
  by (auto simp: open_server_aof_def Let_def split: if_splits option.splits sum.splits prod.splits)

lemma new_with_options_started:
  assumes "new_with_options se o' = Inr sv"
  shows "check_options o' = None \<and> sopts sv = default_options o' \<and>
    (saof sv = None \<longleftrightarrow> opt_aof_path o' = []) \<and> \<not> sclosing sv"
  using assms open_server_aof_None
  by (auto simp: new_with_options_def split: option.splits prod.splits sum.splits)

lemma server_main_stages:
  assumes "server_main me args = Inr (cfg, sv, pprof)"
  shows "main_config me args = Inr cfg \<and> validate_path (cfg_snapshot_path cfg) \<and>
    validate_path (cfg_aof_path cfg) \<and> new_with_options (server_start me) (server_options cfg) = Inr sv \<and>
    server_listen me sv = None"
  using assms by (auto simp: server_main_def split: sum.splits if_splits option.splits)

text \<open>
  C40: a server that main has started is well formed and its options make sense: they are those of
  the configuration with the defaults filled in, the counts and times are not negative, the
  logging mode is one of the four, the slow log can hold an entry, a certificate comes with its
  key, at most one kind of persistence is on, and the append-only file is open just when its path
  is set.
\<close>
theorem started_program_valid:
  assumes "server_main me args = Inr (cfg, sv, pprof)"
  shows "system_ok (sv, []) \<and> sopts sv = default_options (server_options cfg) \<and>
    0 \<le> cfg_max_connections cfg \<and> 0 \<le> cfg_max_memory_bytes cfg \<and> 0 \<le> cfg_slow_log_threshold cfg \<and>
    0 \<le> cfg_shutdown_timeout cfg \<and> 0 < opt_slow_log_max_len (sopts sv) \<and>
    valid_command_log_mode (opt_command_log (sopts sv)) \<and> opt_addr (sopts sv) \<noteq> [] \<and>
    (cfg_tls_cert_path cfg = [] \<longleftrightarrow> cfg_tls_key_path cfg = []) \<and>
    (cfg_snapshot_path cfg = [] \<or> cfg_aof_path cfg = []) \<and>
    (saof sv = None \<longleftrightarrow> cfg_aof_path cfg = [])"
proof -
  note stages = server_main_stages [OF assms]
  then have new: "new_with_options (server_start me) (server_options cfg) = Inr sv" by simp
  note started = new_with_options_started [OF new]
  have "check_options (server_options cfg) = None" using started by simp
  then have opts: "0 \<le> cfg_max_connections cfg" "0 \<le> cfg_max_memory_bytes cfg"
    "0 \<le> cfg_slow_log_threshold cfg" "0 \<le> cfg_slow_log_max_len cfg" "0 \<le> cfg_shutdown_timeout cfg"
    "valid_command_log_mode (if cfg_command_log cfg = [] then ''errors'' else cfg_command_log cfg)"
    "cfg_snapshot_path cfg = [] \<or> cfg_aof_path cfg = []"
    by (simp_all add: check_options_def server_options_def split: if_splits)
  have "cfg_tls_cert_path cfg = [] \<longleftrightarrow> cfg_tls_key_path cfg = []"
    using stages started
    by (auto simp: server_listen_def default_options_def server_options_def Let_def split: if_splits)
  then show ?thesis
    using opts started new_with_options_ok [OF new]
    by (auto simp: default_options_def server_options_def default_slow_log_max_len_def)
qed

theorem started_program_valid_witness:
  "\<exists>cfg sv. server_main sample_main sample_args = Inr (cfg, sv, None) \<and> system_ok (sv, []) \<and>
     opt_max_connections (sopts sv) = 16"
proof -
  let ?cfg = "default_config\<lparr>cfg_addr := '':7'', cfg_snapshot_path := ''a/b'', cfg_max_connections := 16\<rparr>"
  obtain s0 where s0: "new_store 256 = Inr s0" using new_store_256 by blast
  obtain sv where sv: "new_with_options (sample_start Map.empty) (server_options ?cfg) = Inr sv"
    using s0 by (auto simp: new_with_options_def server_options_def default_config_def check_options_def
        valid_command_log_mode_def open_server_aof_def snapshot_load_def sample_start_def)
  have "validate_path ''a/b''" "validate_path []"
    by (simp_all add: validate_path_iff)
  moreover have "start_pprof_from_env (getenv sample_main) l ''LLAVERO_PPROF_LISTEN'' a = Inr None" for l a
    by (simp add: start_pprof_from_env_def sample_main_def)
  moreover have "server_listen sample_main sv = None"
    using new_with_options_started [OF sv]
    by (simp add: server_listen_def sample_main_def default_options_def server_options_def default_config_def)
  moreover have "server_start sample_main = sample_start Map.empty" by (simp add: sample_main_def)
  ultimately have m: "server_main sample_main sample_args = Inr (?cfg, sv, None)"
    using sv sample_config by (simp add: server_main_def) (simp add: default_config_def)
  then show ?thesis
    using started_program_valid [OF m]
    by (intro exI [of _ ?cfg] exI [of _ sv]) (simp add: default_options_def server_options_def)
qed

subsection \<open>Shutting down\<close>

text \<open>
  C14: a shutdown ends: in every fair run of a started server in which the server has begun to
  close, from some state on there is no connection left and \<open>waitForConnections\<close> returns, with or
  without a timeout; until then no connection is added.
\<close>
theorem shutdown_drains:
  assumes "new_with_options se o' = Inr sv" and "is_run sts" and "fair_run sts" and "sts 0 = (sv, [])"
    and "sclosing (fst (sts k))"
  shows "(\<exists>i \<ge> k. \<forall>j \<ge> i. snd (sts j) = [] \<and> active_conns (fst (sts j)) = 0 \<and>
      wait_over timer_fired (fst (sts k)) (fst (sts j))) \<and>
    (\<forall>j \<ge> k. set (map conn_id (snd (sts j))) \<subseteq> set (map conn_id (snd (sts k))))"
proof (intro conjI allI impI)
  have ok0: "system_ok (sts 0)" using new_with_options_ok [OF assms(1)] assms(4) by simp
  obtain i where i: "i \<ge> k" "snd (sts i) = []" using run_drains [OF assms(2,3) ok0 assms(5)] by blast
  have "snd (sts j) = [] \<and> active_conns (fst (sts j)) = 0 \<and>
      wait_over timer_fired (fst (sts k)) (fst (sts j))" if "j \<ge> i" for j
  proof -
    have c: "sclosing (fst (sts i))" using run_closing [OF assms(2) ok0 assms(5) i(1)] by simp
    have "pending (snd (sts j)) \<le> pending (snd (sts i))"
      using run_closing [OF assms(2) ok0 c that] by simp
    then have e: "snd (sts j) = []" using i(2) by simp
    then have "system_ok (fst (sts j), [])" using run_ok [OF assms(2) ok0, of j] by (metis prod.collapse)
    from drained_wait_over [OF this] e show ?thesis by simp
  qed
  with i(1) show "\<exists>i \<ge> k. \<forall>j \<ge> i. snd (sts j) = [] \<and> active_conns (fst (sts j)) = 0 \<and>
      wait_over timer_fired (fst (sts k)) (fst (sts j))" by blast
next
  have ok0: "system_ok (sts 0)" using new_with_options_ok [OF assms(1)] assms(4) by simp
  fix j assume "j \<ge> k"
  then show "set (map conn_id (snd (sts j))) \<subseteq> set (map conn_id (snd (sts k)))"
  proof (induction rule: dec_induct)
    case (step j)
    have "server_step (sts j) (sts (Suc j))" using assms(2) by (simp add: is_run_def)
    moreover have "sclosing (fst (sts j))" using run_closing [OF assms(2) ok0 assms(5) step(1)] by simp
    ultimately show ?case using closing_step [OF _ run_ok [OF assms(2) ok0]] step(3) by blast
  qed simp
qed

text \<open>A run: a connection is accepted, the shutdown begins, the connection ends.\<close>

lemma finished_turn:
  assumes "opt_read_timeout (sopts sv) \<le> 0"
  shows "conn_step (sample_senv 0) EOF [] c sv = (None, c, sv)"
  using assms by (simp add: conn_step_def resp_parse_def read_crlf_def)

theorem shutdown_drains_witness:
  "\<exists>sv sts. new_with_options (sample_start Map.empty) two_clients = Inr sv \<and> is_run sts \<and>
     sts 0 = (sv, []) \<and> snd (sts 2) \<noteq> [] \<and> sclosing (fst (sts 2)) \<and> (\<exists>i \<ge> 2. snd (sts i) = [])"
proof -
  obtain s0 where s0: "new_store 256 = Inr s0" using new_store_256 by blast
  then obtain sv where sv: "new_with_options (sample_start Map.empty) two_clients = Inr sv"
    and o': "sopts sv = default_options two_clients" "slots_used sv = 0" "\<not> sclosing sv"
    by (auto simp: new_with_options_def two_clients_def sample_options_def check_options_def
        valid_command_log_mode_def open_server_aof_def)
  obtain sv1 c where a: "accept_conn 7 ''addr'' sv = (sv1, Some c)" "sopts sv1 = sopts sv"
    using o' by (simp add: accept_conn_def acquire_conn_slot_def track_conn_def two_clients_def
        record_connection_accepted_def Let_def)
  let ?sv2 = "begin_closing sv1"
  let ?sv3 = "conn_close (\<lambda>ks. ks) c ?sv2"
  define sts :: "nat \<Rightarrow> system" where "sts = (\<lambda>i. if i = 0 then (sv, []) else if i = 1 then (sv1, [(c, [])])
      else if i = 2 then (?sv2, [(c, [])]) else (?sv3, []))"
  have closing: "begin_closing ?sv3 = ?sv3"
    using close_conn_closing [of "\<lambda>ks. ks" c ?sv2] by (simp add: begin_closing_def)
  have "server_step (sv, []) (sv1, [] @ [(c, [])])"
    by (rule server_step.accept) (use a in simp_all)
  moreover have "server_step (sv1, [(c, [])]) (?sv2, [(c, [])])" by (rule server_step.shutdown)
  moreover have "conn_step (sample_senv 0) EOF [] c ?sv2 = (None, c, ?sv2)"
    using a(2) o'(1) by (intro finished_turn) (simp add: begin_closing_def two_clients_def sample_options_def)
  then have "server_step (?sv2, [] @ (c, []) # []) (?sv3, [] @ [])"
    by (intro server_step.leave) simp_all
  moreover have "server_step (?sv3, []) (?sv3, [])"
    using server_step.shutdown [of ?sv3 "[]"] closing by simp
  ultimately have run: "is_run sts" by (simp add: is_run_def sts_def)
  have fair: "fair_run sts" unfolding fair_run_def
  proof (intro allI impI)
    fix i assume "snd (sts i) \<noteq> []"
    then have "i \<le> 2" by (simp add: sts_def split: if_splits)
    then show "\<exists>j \<ge> i. snd (sts (Suc j)) \<noteq> snd (sts j)"
      by (intro exI [of _ 2]) (simp add: sts_def)
  qed
  have at2: "sclosing (fst (sts 2))" "sts 0 = (sv, [])" "snd (sts 2) \<noteq> []"
    by (simp_all add: sts_def begin_closing_def)
  from shutdown_drains [OF sv run fair at2(2,1)] have "\<exists>i \<ge> 2. snd (sts i) = []" by blast
  then show ?thesis using sv run at2 by blast
qed

end
