(* ===== verification/Spec2Isabelle.thy ===== *)
theory Spec2Isabelle
  imports Memory_Properties Persistence_Properties Log_Properties Client_Properties Main_Properties
begin

text \<open>
  \<^bold>\<open>Llavero: a key-value server, its persistence and its client\<close>

  Llavero is a Redis-like server in Go: strings, lists, hashes and sets under keys with optional
  deadlines, commands over RESP2, publish/subscribe, and two kinds of persistence, a snapshot file
  and an append-only file. This development models all of its implementation
  (\<open>cmd/\<close>, \<open>internal/\<close>) from the bytes of a connection to the maps of the store.

  \<^bold>\<open>How the parts interact.\<close> A connection (\<open>server.handleConn\<close>) reads requests with
  the parser of \<open>protocol\<close>, \<open>server.handleCommand\<close> routes each to a command of the
  server or, through the memory limit and the log of \<open>server/aof.go\<close>, to a handler of
  \<open>command\<close>, which calls the operations of \<open>store\<close>. What is logged by
  \<open>persistence/aof.go\<close> is replayed by the next start through the same dispatcher; what
  \<open>SAVE\<close>, the ticker or a signal saves with \<open>persistence/snapshot.go\<close> is loaded by the
  next start. \<open>cmd/llavero\<close> puts a configuration together and starts the server,
  \<open>cmd/llavero-cli\<close> talks to it.

  \<^bold>\<open>Conventions\<close> (\<open>Prelude\<close>). Strings and byte slices are \<open>bytes\<close>; integers are \<open>int\<close>, with
  the wrap-around of 64 bits written out (\<open>i64\<close>) where the code's arithmetic can leave the
  range, and \<open>32 word\<close> for the hash of a key; a time is in nanoseconds. A panic is the value
  \<open>None\<close>: an index or a slice expression on a command's arguments is \<open>arg_at\<close> or
  \<open>args_from\<close>, which check the range, and every handler and server command that has one returns
  an option. An error is a value of a sum or an option type; \<open>new_store\<close> says which of its two
  faults it has (a loop that never ends, \<open>make\<close> beyond its limit). What the code reads from outside is an argument: every reading of the clock, the order of every iteration
  over a Go map, every answer of the operating system (short writes, failing syncs, renames, what a
  crash leaves), the Unicode tables behind \<open>strings.ToUpper\<close> and \<open>ToLower\<close> beyond ASCII,
  \<open>path.Match\<close>, \<open>time.ParseDuration\<close>, the \<open>%q\<close> form of a byte. The library functions
  that carry logic are modelled: \<open>strconv\<close>, \<open>bufio\<close>, \<open>strings\<close>, \<open>flag\<close>,
  \<open>filepath.Clean\<close>, UTF-8 decoding, \<open>net.ParseIP\<close> and \<open>SplitHostPort\<close>. Locks are not modelled
  step by step: an operation of the store is atomic, as its mutex makes it, and so is the handling of
  one command; \<open>MGET\<close>, \<open>MSET\<close>, \<open>KEYS\<close> and the others that take one lock after
  another are not interleaved with other connections here.

  \<^bold>\<open>Theories\<close>, in the order of their imports:

  \<^item> \<open>Prelude\<close>, \<open>Framing\<close>: the parts of Go in use, and the contract \<open>framing\<close> of an encoder
    and a decoder (what is encoded is decoded whatever follows, what is cut short is an end of
    file), with the algebra \<open>message\<close> for messages made of messages.
  \<^item> \<open>Protocol\<close> (\<open>internal/protocol\<close>): commands, replies, RESP2 and mini-RESP. Requests and
    bulk strings are interpretations of \<open>framing\<close>; the parsers consume what they accept and
    keep within \<open>1024 * 1024\<close> arguments of 512 MiB.
  \<^item> \<open>Store_Core\<close>, \<open>Store_Strings\<close>, \<open>Store_Lists\<close>, \<open>Store_Hashes\<close>, \<open>Store_Sets\<close>,
    \<open>Store_Admin\<close>, \<open>Store_Snapshot\<close> (\<open>internal/store\<close>): entries, shards, the memory count,
    all operations, active expiration, snapshot and restore. \<open>wf_store\<close> is the invariant. An
    operation on one key is a function \<open>sh_op\<close> on the shard the hash of the key selects, lifted by
    \<open>on_shard\<close> to \<open>store_op\<close>. \<open>Store_Contract\<close> has the contracts they share: \<open>keyed_op\<close>
    (touches its key only and keeps the invariant), \<open>kv_op\<close> (acts as a function on what the key
    shows, for entries that are live), \<open>exact_op\<close>, \<open>kv_read\<close>; each operation is an
    interpretation. \<open>lookup\<close>, \<open>live_at\<close> and \<open>abs_store\<close> are the abstract store: a map
    from keys to what a client can see at a time.
  \<^item> \<open>Commands\<close> (\<open>internal/command\<close>): the 36 handlers and the dispatcher. \<open>Command_Contract\<close>
    and \<open>Command_Memory\<close>: the contracts \<open>store_cmd\<close> (no panic, invariant kept, reply in its
    frame; \<open>run\<close> is what a handler returns),
    \<open>read_cmd\<close>, \<open>careful_cmd\<close> (an error changes nothing visible), \<open>pure_cmd\<close> (the result
    depends on the abstract store alone) and \<open>mem_cmd\<close> (growth within the estimate), each
    interpreted on the handlers that have it.
  \<^item> \<open>Aof_File\<close>, \<open>Snapshot_Format\<close> (\<open>internal/persistence\<close>): the append-only file with what
    of it is durable, its replay, the binary snapshot format as an interpretation of \<open>framing\<close>,
    and saving through a temporary file over a directory.
  \<^item> \<open>Pubsub_Broker\<close> (\<open>internal/pubsub\<close>): channels and subscribers, an interpretation of
    \<open>subscription_table\<close>.
  \<^item> \<open>Server_State\<close>, \<open>Server_Metrics\<close>, \<open>Server_Aof\<close>, \<open>Server_Replay\<close>, \<open>Server_Auth\<close>,
    \<open>Server_Pubsub\<close>, \<open>Server_Compat\<close>, \<open>Server_Core\<close> (\<open>internal/server\<close>, file by file):
    the records, the metrics and the slow log, the memory limit and the logging of commands,
    authentication, subscriptions, the compatibility commands, routing, the loop of a connection
    (\<open>conn_step\<close>, \<open>conn_loop\<close>), accepting, closing, saving and starting (\<open>new_with_options\<close>).
  \<^item> \<open>Server_System\<close>: the server as a state machine. \<open>server_step\<close> interleaves the turns of
    all connections with the two tickers and the shutdown; \<open>system_ok\<close> is the invariant of all
    components together. \<open>Server_Loops\<close>: the accept loop of \<open>Serve\<close> and the two tickers' loops,
    whose turns are steps of it. \<open>Server_Shutdown\<close>: \<open>Close\<close>, its wait, the handler of signals,
    and the measure of the turns that are left.
  \<^item> \<open>Config\<close>, \<open>Diagnostics\<close>, \<open>Go_Flags\<close>, \<open>Server_Main\<close> (\<open>internal/config\<close>,
    \<open>internal/diagnostics\<close>, \<open>cmd/llavero\<close>): settings and their sources, an interpretation of
    \<open>named_store\<close>; the private listener; flags; the program up to its accept loop.
  \<^item> \<open>Cli\<close> (\<open>cmd/llavero-cli\<close>): replies read back (an interpretation of \<open>framing\<close> on the
    server's encoder), printed, lines split, both modes of the client.
  \<^item> \<open>Store_Properties\<close>, \<open>Memory_Properties\<close>, \<open>Persistence_Properties\<close>,
    \<open>Log_Properties\<close>, \<open>Server_Properties\<close>, \<open>Client_Properties\<close>, \<open>Main_Properties\<close>: the
    properties, numbered C1 to C40, each with a witness on concrete values (\<open>Sample_Server\<close>).

  \<^bold>\<open>What the properties show.\<close> The store implements one map with deadlines, and its lists, hashes
  and sets the mathematical ones (C2 to C5, C16 to C19). A restart from the log or the snapshot
  gives back what clients saw (C6, C7), a command that changes something a client sees is logged or
  answered with an error (C8), what was acknowledged under \<open>always\<close> survives a crash (C9), a save
  is all or nothing (C23), a cut file is never taken for another (C22, C24). Every state the server
  reaches keeps the invariant (C1), authentication guards everything (C10) and wrong passwords are
  bounded by the right ones (C26), the memory limit holds (C11, C21), messages reach the subscribers
  and a disconnection leaves nothing behind (C27, C28), connections are served as the requests they
  carry (C12), one command alone reads an argument that is not there (C30), the loops of connections
  end (C29), and so does a shutdown (C14). A path that \<open>validatePath\<close> accepts stays below its
  directory (C38). Client and server understand each other (C13, C33 to C37). The configuration of a
  started program comes from where its documentation says, but for the snapshot path (C15), and is
  valid (C40).

  Beside the properties stand theorems that show where the code does not do what it means to:
  \<open>emptied_keys_leak\<close>, \<open>repeated_keys_evade_limit\<close>, \<open>empty_key_blocks_restart\<close>,
  \<open>append_after_crash_corrupts\<close>, \<open>replay_revives_expired\<close>, \<open>hello_ignores_limiter\<close>,
  \<open>unknown_name_injects\<close>. The hypotheses of the properties name the same gaps from the other
  side: \<open>restart_from_snapshot\<close> asks for a store without the empty key and within the limits of the
  format, \<open>restart_from_log\<close> for commands without deadlines and writes that do not fail,
  \<open>crash_keeps_durable\<close> for a file of whole records at the start, \<open>memory_limit_respected\<close> for
  keys of \<open>MSET\<close> that do not repeat and a key of \<open>SETNX\<close> that does not expire in between,
  \<open>client_reads_replies\<close> for lines without line ends.

  \<^bold>\<open>Bounds and fuel.\<close> Loops are structural or have a measure. The loop of \<open>nextPow2\<close>, which
  does not end for arguments above \<open>2 ^ 62\<close>, is a \<open>partial_function\<close>, and C20 says
  when it returns and when \<open>make\<close> panics instead; the server asks for 256 shards. What the disk has
  of the log at the start is an answer of the operating system (\<open>open_aof\<close>). \<open>cli_read\<close> counts the levels that are left, 513 at the
  start as the code's limit of 512 has it; the longest slice Go can make is its parameter
  \<open>max_len\<close>. \<open>active_expire_cycle\<close> visits each shard in rounds of at most 20 samples and stops
  by the rule of the code.

  \<^bold>\<open>Not modelled.\<close> Sockets (and \<open>Addr\<close>, which names one), TLS, the HTTP server of the
  diagnostics and the standard error and log output; the scheduling of goroutines below one
  operation of the store or one command, and the duration of anything; the garbage collector and
  the memory Go really uses. The Go tests, the benchmarks, the workflows and the deployment files
  carry no logic of the program.
\<close>

end
